(* ===== verification/Mirror_Prelude.thy ===== *)
theory Mirror_Prelude
  imports Main "HOL-Library.Char_ord" "HOL-Library.List_Lexorder" "HOL-Library.Code_Target_Numeral"
begin

text \<open>
  Shared vocabulary of the development: the strings and results of the Rust program, the
  standard-library string functions it calls, the ordered map \<^verbatim>\<open>BTreeMap\<close> (which is also
  the representation of \<^verbatim>\<open>serde_json::Map\<close>), and \<^verbatim>\<open>collect::<Result<_, _>>\<close>.

  A Rust \<^verbatim>\<open>String\<close> is its sequence of UTF-8 bytes, so a \<open>string\<close> of this
  development is a list of bytes and \<open>length\<close> is \<^verbatim>\<open>str::len\<close>.  A
  \<^verbatim>\<open>Result<T, E>\<close> is \<open>'e + 't\<close> with \<open>Inl\<close> for \<^verbatim>\<open>Err\<close>.
\<close>

section \<open>Collections of proof rules\<close>

named_theorems bt_simps \<open>equations of the ordered map\<close>
named_theorems frame_simps \<open>fields an operation leaves alone\<close>

type_synonym bytes = string

section \<open>Bytes and byte classes\<close>

definition byte_of :: "char \<Rightarrow> nat" where
  "byte_of c = of_char c"

definition is_ascii_digit :: "char \<Rightarrow> bool" where
  "is_ascii_digit c \<longleftrightarrow> 48 \<le> byte_of c \<and> byte_of c \<le> 57"

definition is_ascii_upper :: "char \<Rightarrow> bool" where
  "is_ascii_upper c \<longleftrightarrow> 65 \<le> byte_of c \<and> byte_of c \<le> 90"

definition is_ascii_lower :: "char \<Rightarrow> bool" where
  "is_ascii_lower c \<longleftrightarrow> 97 \<le> byte_of c \<and> byte_of c \<le> 122"

definition is_ascii_alphabetic :: "char \<Rightarrow> bool" where
  "is_ascii_alphabetic c \<longleftrightarrow> is_ascii_upper c \<or> is_ascii_lower c"

definition is_ascii_alphanumeric :: "char \<Rightarrow> bool" where
  "is_ascii_alphanumeric c \<longleftrightarrow> is_ascii_alphabetic c \<or> is_ascii_digit c"

definition is_lower_hex :: "char \<Rightarrow> bool" where
  "is_lower_hex c \<longleftrightarrow> is_ascii_digit c \<or> (97 \<le> byte_of c \<and> byte_of c \<le> 102)"

definition is_ascii_hexdigit :: "char \<Rightarrow> bool" where
  "is_ascii_hexdigit c \<longleftrightarrow> is_lower_hex c \<or> (65 \<le> byte_of c \<and> byte_of c \<le> 70)"

definition to_ascii_lowercase_byte :: "char \<Rightarrow> char" where
  "to_ascii_lowercase_byte c = (if is_ascii_upper c then char_of (byte_of c + 32) else c)"

definition to_ascii_lowercase :: "string \<Rightarrow> string" where
  "to_ascii_lowercase s = map to_ascii_lowercase_byte s"

lemmas byte_class_defs =
  byte_of_def is_ascii_digit_def is_ascii_upper_def is_ascii_lower_def
  is_ascii_alphabetic_def is_ascii_alphanumeric_def is_lower_hex_def is_ascii_hexdigit_def

lemma byte_of_less_256 [simp]: "byte_of c < 256"
  by (simp add: byte_of_def)

lemma byte_of_char_of [simp]: "byte_of (char_of (n :: nat)) = n mod 256"
  by (simp add: byte_of_def)

lemma char_of_byte_of [simp]: "char_of (byte_of c) = c"
  by (simp add: byte_of_def)

lemma byte_of_inject [simp]: "byte_of c = byte_of d \<longleftrightarrow> c = d"
  by (simp add: byte_of_def)

lemma lower_hex_is_hexdigit: "is_lower_hex c \<Longrightarrow> is_ascii_hexdigit c"
  by (simp add: is_ascii_hexdigit_def)

lemma lowercase_hexdigit:
  "is_lower_hex (to_ascii_lowercase_byte c) \<longleftrightarrow> is_ascii_hexdigit c"
  by (auto simp: is_ascii_hexdigit_def is_lower_hex_def is_ascii_digit_def is_ascii_upper_def
      to_ascii_lowercase_byte_def)

lemma hexdigit_lowercase:
  "is_ascii_hexdigit (to_ascii_lowercase_byte c) \<longleftrightarrow> is_ascii_hexdigit c"
  by (auto simp: is_ascii_hexdigit_def is_lower_hex_def is_ascii_digit_def is_ascii_upper_def
      to_ascii_lowercase_byte_def)

lemma length_to_ascii_lowercase [simp]: "length (to_ascii_lowercase s) = length s"
  by (simp add: to_ascii_lowercase_def)

section \<open>Byte and slice access\<close>

text \<open>\<^verbatim>\<open>bytes.get(i)\<close>: total, \<open>None\<close> out of range.\<close>

definition get_byte :: "'a list \<Rightarrow> nat \<Rightarrow> 'a option" where
  "get_byte s i = (if i < length s then Some (s ! i) else None)"

text \<open>\<^verbatim>\<open>&s[a..b]\<close> for \<open>a \<le> b \<le> len\<close>.\<close>

definition slice :: "'a list \<Rightarrow> nat \<Rightarrow> nat \<Rightarrow> 'a list" where
  "slice s a b = take (b - a) (drop a s)"

lemma get_byte_Some [simp]: "get_byte s i = Some b \<longleftrightarrow> i < length s \<and> s ! i = b"
  by (simp add: get_byte_def)

lemma get_byte_None [simp]: "get_byte s i = None \<longleftrightarrow> length s \<le> i"
  by (simp add: get_byte_def not_less)

lemma length_slice [simp]: "b \<le> length s \<Longrightarrow> length (slice s a b) = b - a"
  by (simp add: slice_def)

lemma slice_empty [simp]: "slice s a a = []"
  by (simp add: slice_def)

section \<open>Standard string functions\<close>

fun starts_with :: "string \<Rightarrow> string \<Rightarrow> bool" where
  "starts_with s [] = True"
| "starts_with [] (p # ps) = False"
| "starts_with (c # s) (p # ps) = (c = p \<and> starts_with s ps)"

definition strip_prefix :: "string \<Rightarrow> string \<Rightarrow> string option" where
  "strip_prefix s p = (if starts_with s p then Some (drop (length p) s) else None)"

text \<open>\<^verbatim>\<open>split_once\<close> at the first byte that satisfies a predicate, \<^verbatim>\<open>rsplit_once\<close> at the last.\<close>

fun split_once :: "(char \<Rightarrow> bool) \<Rightarrow> string \<Rightarrow> (string \<times> string) option" where
  "split_once P [] = None"
| "split_once P (c # s) =
     (if P c then Some ([], s)
      else case split_once P s of None \<Rightarrow> None | Some (a, b) \<Rightarrow> Some (c # a, b))"

definition rsplit_once :: "(char \<Rightarrow> bool) \<Rightarrow> string \<Rightarrow> (string \<times> string) option" where
  "rsplit_once P s =
     (case split_once P (rev s) of None \<Rightarrow> None | Some (a, b) \<Rightarrow> Some (rev b, rev a))"

definition trim_matches :: "char \<Rightarrow> string \<Rightarrow> string" where
  "trim_matches c s = rev (dropWhile (\<lambda>x. x = c) (rev (dropWhile (\<lambda>x. x = c) s)))"

lemma starts_with_append [simp]: "starts_with (p @ s) p"
  by (induction p) auto

lemma starts_with_iff: "starts_with s p \<longleftrightarrow> (\<exists>r. s = p @ r)"
  by (induction s p rule: starts_with.induct) auto

lemma strip_prefix_append [simp]: "strip_prefix (p @ s) p = Some s"
  by (simp add: strip_prefix_def)

lemma strip_prefix_Some [simp]: "strip_prefix s p = Some r \<longleftrightarrow> s = p @ r"
  by (auto simp: strip_prefix_def starts_with_iff)

lemma strip_prefix_None: "strip_prefix s p = None \<longleftrightarrow> \<not> starts_with s p"
  by (simp add: strip_prefix_def)

lemma split_once_None [simp]: "split_once P s = None \<longleftrightarrow> (\<forall>x \<in> set s. \<not> P x)"
  by (induction s) (auto split: option.splits)

lemma split_once_append:
  "P c \<Longrightarrow> \<forall>x \<in> set a. \<not> P x \<Longrightarrow> split_once P (a @ c # b) = Some (a, b)"
  by (induction a) auto

lemma split_once_SomeD:
  "split_once P s = Some (a, b) \<Longrightarrow> \<exists>c. s = a @ c # b \<and> P c \<and> (\<forall>x \<in> set a. \<not> P x)"
  by (induction s arbitrary: a) (fastforce split: if_splits option.splits)+

lemma split_once_Some:
  "split_once P s = Some (a, b) \<longleftrightarrow> (\<exists>c. s = a @ c # b \<and> P c \<and> (\<forall>x \<in> set a. \<not> P x))"
  by (auto dest: split_once_SomeD simp: split_once_append)

lemma rsplit_once_rev:
  "rsplit_once P s = map_option (\<lambda>(a, b). (rev b, rev a)) (split_once P (rev s))"
  by (simp add: rsplit_once_def split: option.split)

lemma rsplit_once_None [simp]: "rsplit_once P s = None \<longleftrightarrow> (\<forall>x \<in> set s. \<not> P x)"
  by (simp add: rsplit_once_rev)

lemma rsplit_once_Some:
  "rsplit_once P s = Some (a, b) \<longleftrightarrow> (\<exists>c. s = a @ c # b \<and> P c \<and> (\<forall>x \<in> set b. \<not> P x))"
proof -
  have "rsplit_once P s = Some (a, b) \<longleftrightarrow> split_once P (rev s) = Some (rev b, rev a)"
    by (auto simp: rsplit_once_rev)
  also have "\<dots> \<longleftrightarrow> (\<exists>c. rev s = rev b @ c # rev a \<and> P c \<and> (\<forall>x \<in> set b. \<not> P x))"
    by (simp add: split_once_Some)
  also have "\<dots> \<longleftrightarrow> (\<exists>c. s = a @ c # b \<and> P c \<and> (\<forall>x \<in> set b. \<not> P x))"
    by (simp add: rev_swap)
  finally show ?thesis .
qed

text \<open>
  \<^verbatim>\<open>str::trim\<close> removes the code points of the Unicode property White_Space at both ends;
  on bytes these are the following encodings.
\<close>

definition white_space :: "string list" where
  "white_space =
     map (\<lambda>n. [char_of n]) [9, 10, 11, 12, 13, 32 :: nat]
     @ map (map char_of)
         ([ [0xC2, 0x85], [0xC2, 0xA0], [0xE1, 0x9A, 0x80], [0xE2, 0x80, 0xA8], [0xE2, 0x80, 0xA9],
            [0xE2, 0x80, 0xAF], [0xE2, 0x81, 0x9F], [0xE3, 0x80, 0x80] ]
          @ map (\<lambda>n. [0xE2, 0x80, n]) [0x80 ..< 0x8B :: nat])"

definition strip_ws_prefix :: "string \<Rightarrow> string option" where
  "strip_ws_prefix s = (case filter (starts_with s) white_space of
       [] \<Rightarrow> None | w # _ \<Rightarrow> Some (drop (length w) s))"

definition strip_ws_suffix :: "string \<Rightarrow> string option" where
  "strip_ws_suffix s = (case filter (\<lambda>w. starts_with (rev s) (rev w)) white_space of
       [] \<Rightarrow> None | w # _ \<Rightarrow> Some (take (length s - length w) s))"

lemma white_space_nonempty: "w \<in> set white_space \<Longrightarrow> w \<noteq> []"
  by (auto simp: white_space_def)

lemma strip_ws_prefix_length: "strip_ws_prefix s = Some r \<Longrightarrow> length r < length s"
proof -
  assume "strip_ws_prefix s = Some r"
  then obtain w ws where f: "filter (starts_with s) white_space = w # ws"
    and r: "r = drop (length w) s"
    by (auto simp: strip_ws_prefix_def split: list.splits)
  from f have "w \<in> set (filter (starts_with s) white_space)" by simp
  then have "w \<in> set white_space" and "starts_with s w" by auto
  then have "w \<noteq> []" and "length w \<le> length s"
    by (auto simp: white_space_nonempty starts_with_iff)
  then show ?thesis using r by (cases w) auto
qed

lemma strip_ws_suffix_length: "strip_ws_suffix s = Some r \<Longrightarrow> length r < length s"
proof -
  assume "strip_ws_suffix s = Some r"
  then obtain w ws where f: "filter (\<lambda>w. starts_with (rev s) (rev w)) white_space = w # ws"
    and r: "r = take (length s - length w) s"
    by (auto simp: strip_ws_suffix_def split: list.splits)
  from f have "w \<in> set (filter (\<lambda>w. starts_with (rev s) (rev w)) white_space)" by simp
  then have "w \<in> set white_space" and sw: "starts_with (rev s) (rev w)" by auto
  then have "w \<noteq> []" by (auto simp: white_space_nonempty)
  moreover from sw have "length w \<le> length s"
    by (metis (no_types, lifting) length_append length_rev le_add1 starts_with_iff)
  ultimately show ?thesis using r by (cases w) auto
qed

function trim_start :: "string \<Rightarrow> string" where
  "trim_start s = (case strip_ws_prefix s of None \<Rightarrow> s | Some r \<Rightarrow> trim_start r)"
  by pat_completeness auto
termination
  by (relation "measure length") (auto dest: strip_ws_prefix_length)

function trim_end :: "string \<Rightarrow> string" where
  "trim_end s = (case strip_ws_suffix s of None \<Rightarrow> s | Some r \<Rightarrow> trim_end r)"
  by pat_completeness auto
termination
  by (relation "measure length") (auto dest: strip_ws_suffix_length)

declare trim_start.simps [simp del] trim_end.simps [simp del]

definition trim :: "string \<Rightarrow> string" where
  "trim s = trim_end (trim_start s)"

section \<open>Decimal integers\<close>

text \<open>
  \<^verbatim>\<open>str::parse\<close> on the fixed-width integer types: an optional \<^verbatim>\<open>+\<close> (and \<^verbatim>\<open>-\<close> for a
  signed type), at least one digit, and no overflow.
\<close>

definition digit_value :: "char \<Rightarrow> nat" where
  "digit_value c = byte_of c - 48"

definition digits_value :: "string \<Rightarrow> nat" where
  "digits_value ds = foldl (\<lambda>n c. 10 * n + digit_value c) 0 ds"

definition all_digits :: "string \<Rightarrow> bool" where
  "all_digits s \<longleftrightarrow> list_all is_ascii_digit s"

definition parse_digits :: "string \<Rightarrow> nat option" where
  "parse_digits s = (if s \<noteq> [] \<and> all_digits s then Some (digits_value s) else None)"

definition parse_unsigned :: "nat \<Rightarrow> string \<Rightarrow> nat option" where
  "parse_unsigned w s =
     (case parse_digits (case s of c # r \<Rightarrow> if c = CHR ''+'' then r else s | [] \<Rightarrow> []) of
        None \<Rightarrow> None
      | Some n \<Rightarrow> if n < 2 ^ w then Some n else None)"

definition parse_signed :: "nat \<Rightarrow> string \<Rightarrow> int option" where
  "parse_signed w s =
     (case s of
        [] \<Rightarrow> None
      | c # r \<Rightarrow>
          if c = CHR ''-''
          then (case parse_digits r of
                  None \<Rightarrow> None
                | Some n \<Rightarrow> if n \<le> 2 ^ (w - 1) then Some (- int n) else None)
          else (case parse_digits (if c = CHR ''+'' then r else s) of
                  None \<Rightarrow> None
                | Some n \<Rightarrow> if n < 2 ^ (w - 1) then Some (int n) else None))"

abbreviation parse_u16 :: "string \<Rightarrow> nat option" where "parse_u16 \<equiv> parse_unsigned 16"
abbreviation parse_u64 :: "string \<Rightarrow> nat option" where "parse_u64 \<equiv> parse_unsigned 64"
abbreviation parse_i64 :: "string \<Rightarrow> int option" where "parse_i64 \<equiv> parse_signed 64"

lemma digits_value_Nil [simp]: "digits_value [] = 0"
  by (simp add: digits_value_def)

lemma digits_value_snoc [simp]: "digits_value (ds @ [c]) = 10 * digits_value ds + digit_value c"
  by (simp add: digits_value_def)

lemma digits_value_append:
  "digits_value (xs @ ys) = digits_value xs * 10 ^ length ys + digits_value ys"
  by (induction ys rule: rev_induct) (simp_all add: algebra_simps flip: append_assoc)

lemma digits_value_replicate_zero [simp]: "digits_value (replicate n (CHR ''0'')) = 0"
  by (induction n) (simp_all add: replicate_append_same [symmetric] digit_value_def byte_of_def)

lemma all_digits_append [simp]: "all_digits (xs @ ys) \<longleftrightarrow> all_digits xs \<and> all_digits ys"
  by (simp add: all_digits_def)

lemma all_digits_Nil [simp]: "all_digits []"
  by (simp add: all_digits_def)

lemma all_digits_Cons [simp]: "all_digits (c # s) \<longleftrightarrow> is_ascii_digit c \<and> all_digits s"
  by (simp add: all_digits_def)

lemma all_digits_replicate_zero [simp]: "all_digits (replicate n (CHR ''0''))"
  by (simp add: all_digits_def list_all_iff is_ascii_digit_def byte_of_def)

lemma parse_unsigned_bound: "parse_unsigned w s = Some n \<Longrightarrow> n < 2 ^ w"
  by (auto simp: parse_unsigned_def split: option.splits if_splits list.splits)

lemma parse_signed_cases:
  assumes "parse_signed w s = Some n"
  obtains (neg) m where "n = - int m" "m \<le> 2 ^ (w - 1)"
    | (pos) m where "n = int m" "m < 2 ^ (w - 1)"
proof (cases s)
  case Nil
  then show ?thesis using assms by (simp add: parse_signed_def)
next
  case (Cons c r)
  show ?thesis
  proof (cases "c = CHR ''-''")
    case True
    then obtain m where "parse_digits r = Some m" "m \<le> 2 ^ (w - 1)" "n = - int m"
      using assms Cons by (auto simp: parse_signed_def split: option.splits if_splits)
    then show ?thesis using neg by blast
  next
    case False
    then obtain m where "m < 2 ^ (w - 1)" "n = int m"
      using assms Cons by (auto simp: parse_signed_def split: option.splits if_splits)
    then show ?thesis using pos by blast
  qed
qed

lemma parse_signed_bounds:
  "parse_signed w s = Some n \<Longrightarrow> - (2 ^ (w - 1)) \<le> n \<and> n < 2 ^ (w - 1)"
  by (erule parse_signed_cases)
    (use of_nat_le_iff [where 'a = int] of_nat_less_iff [where 'a = int] in
      \<open>force simp: order.strict_trans1 [of _ 0] order.trans [of _ 0]\<close>)+

section \<open>Collecting results\<close>

text \<open>
  \<^verbatim>\<open>iter.map(f).collect::<Result<Vec<_>, _>>()\<close>: left to right, stopping at the first error.
\<close>

fun collect_results :: "('a \<Rightarrow> 'e + 'b) \<Rightarrow> 'a list \<Rightarrow> 'e + 'b list" where
  "collect_results f [] = Inr []"
| "collect_results f (x # xs) =
     (case f x of
        Inl e \<Rightarrow> Inl e
      | Inr y \<Rightarrow> (case collect_results f xs of Inl e \<Rightarrow> Inl e | Inr ys \<Rightarrow> Inr (y # ys)))"

lemma collect_results_cong [fundef_cong]:
  assumes "xs = ys" and "\<And>x. x \<in> set ys \<Longrightarrow> f x = g x"
  shows "collect_results f xs = collect_results g ys"
proof -
  have "(\<And>x. x \<in> set zs \<Longrightarrow> f x = g x) \<Longrightarrow> collect_results f zs = collect_results g zs" for zs
    by (induction zs) (auto split: sum.split)
  then show ?thesis using assms by simp
qed

lemma collect_results_Inr_iff:
  "collect_results f xs = Inr ys \<longleftrightarrow> list_all2 (\<lambda>x y. f x = Inr y) xs ys"
proof (induction xs arbitrary: ys)
  case Nil
  then show ?case by auto
next
  case (Cons x xs)
  show ?case
    by (cases "f x"; cases "collect_results f xs"; cases ys)
      (auto simp: Cons.IH [symmetric] simp del: list_all2_eq)
qed

lemma collect_results_map_Inr:
  "(\<And>x. x \<in> set xs \<Longrightarrow> f (g x) = Inr (h x)) \<Longrightarrow> collect_results f (map g xs) = Inr (map h xs)"
  by (induction xs) auto

lemma collect_results_length: "collect_results f xs = Inr ys \<Longrightarrow> length ys = length xs"
  by (auto simp: collect_results_Inr_iff dest: list_all2_lengthD)

lemma collect_results_Inl:
  "collect_results f xs = Inl e \<longleftrightarrow>
     (\<exists>as x bs. xs = as @ x # bs \<and> f x = Inl e \<and> (\<forall>a \<in> set as. \<exists>y. f a = Inr y))"
proof (induction xs)
  case Nil
  then show ?case by simp
next
  case (Cons z zs)
  show ?case
  proof (cases "f z")
    case (Inl d)
    have "f z = Inl e \<Longrightarrow> \<exists>as x bs. z # zs = as @ x # bs \<and> f x = Inl e \<and> (\<forall>a \<in> set as. \<exists>y. f a = Inr y)"
      by (rule exI [of _ "[]"]) simp
    then show ?thesis using Inl by (auto simp: Cons_eq_append_conv)
  next
    case (Inr y)
    have "collect_results f (z # zs) = Inl e \<longleftrightarrow> collect_results f zs = Inl e"
      using Inr by (simp split: sum.split)
    also have "\<dots> \<longleftrightarrow> (\<exists>as x bs. zs = as @ x # bs \<and> f x = Inl e \<and> (\<forall>a \<in> set as. \<exists>y. f a = Inr y))"
      by (rule Cons.IH)
    also have "\<dots> \<longleftrightarrow>
        (\<exists>as x bs. z # zs = as @ x # bs \<and> f x = Inl e \<and> (\<forall>a \<in> set as. \<exists>y. f a = Inr y))"
      (is "?L = ?R")
    proof
      assume ?L
      then obtain as x bs where "zs = as @ x # bs" "f x = Inl e" "\<forall>a \<in> set as. \<exists>y. f a = Inr y"
        by blast
      then show ?R using Inr by (intro exI [of _ "z # as"] exI [of _ x] exI [of _ bs]) simp
    next
      assume ?R
      then obtain as x bs where R: "z # zs = as @ x # bs" "f x = Inl e"
          "\<forall>a \<in> set as. \<exists>y. f a = Inr y"
        by blast
      moreover obtain as' where "as = z # as'" using R Inr by (cases as) auto
      ultimately show ?L by (intro exI [of _ as'] exI [of _ x] exI [of _ bs]) simp
    qed
    finally show ?thesis .
  qed
qed

end
