(* ===== verification/Ordered_Map.thy ===== *)
theory Ordered_Map
  imports Mirror_Prelude
begin

text \<open>
  \<^verbatim>\<open>BTreeMap<K, V>\<close> and \<^verbatim>\<open>serde_json::Map<String, Value>\<close> (a \<^verbatim>\<open>BTreeMap\<close> too, as the
  crate does not enable \<^verbatim>\<open>preserve_order\<close>): an association list in strictly ascending key order,
  which is the order in which the program iterates over it.  The interface the clients use is the
  locale \<open>ordered_map\<close>; the association lists are its model.
\<close>

section \<open>The interface\<close>

locale ordered_map =
  fixes empty :: "'m"
    and insert :: "'k::linorder \<Rightarrow> 'v \<Rightarrow> 'm \<Rightarrow> 'm"
    and remove :: "'k \<Rightarrow> 'm \<Rightarrow> 'm"
    and get :: "'m \<Rightarrow> 'k \<Rightarrow> 'v option"
    and entries :: "'m \<Rightarrow> ('k \<times> 'v) list"
    and invar :: "'m \<Rightarrow> bool"
  assumes get_empty: "get empty = Map.empty"
    and get_insert: "invar m \<Longrightarrow> get (insert k v m) = (get m)(k \<mapsto> v)"
    and get_remove: "invar m \<Longrightarrow> get (remove k m) = (get m)(k := None)"
    and invar_empty: "invar empty"
    and invar_insert: "invar m \<Longrightarrow> invar (insert k v m)"
    and invar_remove: "invar m \<Longrightarrow> invar (remove k m)"
    and entries_get: "invar m \<Longrightarrow> map_of (entries m) = get m"
    and entries_sorted: "invar m \<Longrightarrow> sorted_wrt (<) (map fst (entries m))"
    and extensional: "invar m \<Longrightarrow> invar m' \<Longrightarrow> get m = get m' \<Longrightarrow> m = m'"
begin

definition insert_all :: "('k \<times> 'v) list \<Rightarrow> 'm \<Rightarrow> 'm" where
  "insert_all kvs m = foldl (\<lambda>m (k, v). insert k v m) m kvs"

lemma invar_insert_all: "invar m \<Longrightarrow> invar (insert_all kvs m)"
  unfolding insert_all_def by (induction kvs arbitrary: m) (auto simp: invar_insert)

lemma get_insert_all: "invar m \<Longrightarrow> get (insert_all kvs m) = get m ++ map_of (rev kvs)"
proof (induction kvs arbitrary: m)
  case Nil
  then show ?case by (simp add: insert_all_def)
next
  case (Cons kv kvs)
  obtain k v where kv: "kv = (k, v)" by (cases kv)
  have "get (insert_all (kv # kvs) m) = get (insert_all kvs (insert k v m))"
    by (simp add: insert_all_def kv)
  also have "\<dots> = (get m)(k \<mapsto> v) ++ map_of (rev kvs)"
    by (simp only: Cons.IH [OF invar_insert [OF Cons.prems]] get_insert [OF Cons.prems])
  also have "\<dots> = get m ++ map_of (rev (kv # kvs))"
    by (rule ext) (simp add: kv map_add_def split: option.split)
  finally show ?case .
qed

lemma distinct_entries: "invar m \<Longrightarrow> distinct (map fst (entries m))"
  using entries_sorted strict_sorted_iff by blast

lemma keys_entries: "invar m \<Longrightarrow> set (map fst (entries m)) = dom (get m)"
  using entries_get dom_map_of_conv_image_fst [of "entries m"] by simp

text \<open>Filling a map from the entries of a map gives that map back, whatever the order.\<close>

lemma insert_all_permuted:
  assumes m: "invar m" and kvs: "distinct (map fst kvs)" "set kvs = set (entries m)"
  shows "insert_all kvs empty = m"
proof (rule extensional)
  show "invar (insert_all kvs empty)" by (simp add: invar_insert_all invar_empty)
  show "invar m" by (rule m)
  have "map_of (rev kvs) = map_of (entries m)"
  proof (rule map_of_inject_set [THEN iffD2])
    show "distinct (map fst (rev kvs))" using kvs(1) by (simp add: rev_map [symmetric])
    show "distinct (map fst (entries m))" using m by (rule distinct_entries)
    show "set (rev kvs) = set (entries m)" using kvs(2) by simp
  qed
  then show "get (insert_all kvs empty) = get m"
    by (simp add: get_insert_all invar_empty get_empty entries_get m)
qed

end

section \<open>Association lists in key order\<close>

type_synonym ('k, 'v) btree = "('k \<times> 'v) list"

definition bt_ok :: "('k::linorder, 'v) btree \<Rightarrow> bool" where
  "bt_ok m \<longleftrightarrow> sorted_wrt (<) (map fst m)"

fun bt_insert :: "'k::linorder \<Rightarrow> 'v \<Rightarrow> ('k, 'v) btree \<Rightarrow> ('k, 'v) btree" where
  "bt_insert k v [] = [(k, v)]"
| "bt_insert k v ((k', v') # m) =
     (if k < k' then (k, v) # (k', v') # m
      else if k = k' then (k, v) # m
      else (k', v') # bt_insert k v m)"

definition bt_remove :: "'k::linorder \<Rightarrow> ('k, 'v) btree \<Rightarrow> ('k, 'v) btree" where
  "bt_remove k m = filter (\<lambda>(k', _). k' \<noteq> k) m"

abbreviation bt_get :: "('k::linorder, 'v) btree \<Rightarrow> 'k \<Rightarrow> 'v option" where
  "bt_get \<equiv> map_of"

abbreviation bt_keys :: "('k::linorder, 'v) btree \<Rightarrow> 'k list" where
  "bt_keys m \<equiv> map fst m"

definition bt_contains :: "('k::linorder, 'v) btree \<Rightarrow> 'k \<Rightarrow> bool" where
  "bt_contains m k \<longleftrightarrow> map_of m k \<noteq> None"

lemma bt_ok_Nil [simp]: "bt_ok []"
  by (simp add: bt_ok_def)

lemma bt_ok_Cons [simp]: "bt_ok ((k, v) # m) \<longleftrightarrow> (\<forall>k' \<in> set (map fst m). k < k') \<and> bt_ok m"
  by (auto simp: bt_ok_def)

lemma bt_ok_distinct: "bt_ok m \<Longrightarrow> distinct (map fst m)"
  unfolding bt_ok_def using strict_sorted_iff by blast

lemma keys_bt_insert [bt_simps]: "fst ` set (bt_insert k v m) = Set.insert k (fst ` set m)"
  by (induction k v m rule: bt_insert.induct) auto

lemma bt_ok_insert [simp, intro]: "bt_ok m \<Longrightarrow> bt_ok (bt_insert k v m)"
  by (induction k v m rule: bt_insert.induct) (auto simp: bt_simps)

lemma bt_get_insert [bt_simps, simp]: "bt_get (bt_insert k v m) = (bt_get m)(k \<mapsto> v)"
  by (induction k v m rule: bt_insert.induct) (auto simp: fun_eq_iff)

lemma bt_get_remove [bt_simps, simp]: "bt_get (bt_remove k m) = (bt_get m)(k := None)"
  unfolding bt_remove_def by (induction m) (auto simp: fun_eq_iff)

lemma bt_ok_remove [simp, intro]: "bt_ok m \<Longrightarrow> bt_ok (bt_remove k m)"
  unfolding bt_remove_def by (induction m) force+

lemma bt_extensional:
  assumes "bt_ok m" and "bt_ok m'" and "bt_get m = bt_get m'"
  shows "m = m'"
proof -
  have "set m = set m'"
    using assms map_of_inject_set bt_ok_distinct by blast
  then have "set (map fst m) = set (map fst m')" by simp
  then have keys: "map fst m = map fst m'"
    using assms(1,2) unfolding bt_ok_def
    by (metis sorted_list_of_set.idem_if_sorted_distinct strict_sorted_iff)
  show ?thesis
  proof (rule nth_equalityI)
    show len: "length m = length m'" using keys by (metis length_map)
    fix i assume i: "i < length m"
    have k: "fst (m ! i) = fst (m' ! i)" using keys i len by (metis nth_map)
    have "bt_get m (fst (m ! i)) = Some (snd (m ! i))"
      using i assms(1) by (simp add: bt_ok_distinct map_of_eq_Some_iff)
    moreover have "bt_get m' (fst (m' ! i)) = Some (snd (m' ! i))"
      using i len assms(2) by (simp add: bt_ok_distinct map_of_eq_Some_iff)
    ultimately show "m ! i = m' ! i" using k assms(3) by (simp add: prod_eq_iff)
  qed
qed

interpretation btree: ordered_map
  "[]" bt_insert bt_remove bt_get "\<lambda>m. m" bt_ok
  by unfold_locales (auto simp: bt_ok_def [symmetric] intro: bt_extensional)

text \<open>\<^verbatim>\<open>into_iter().collect::<BTreeMap<_, _>>()\<close>, the last of equal keys winning.\<close>

definition bt_of_list :: "('k::linorder \<times> 'v) list \<Rightarrow> ('k, 'v) btree" where
  "bt_of_list kvs = foldl (\<lambda>m (k, v). bt_insert k v m) [] kvs"

lemma bt_of_list_insert_all: "bt_of_list kvs = btree.insert_all kvs []"
  by (simp add: bt_of_list_def btree.insert_all_def)

lemma bt_ok_of_list [simp]: "bt_ok (bt_of_list kvs)"
  by (simp add: bt_of_list_insert_all btree.invar_insert_all)

lemma bt_get_of_list: "bt_get (bt_of_list kvs) = map_of (rev kvs)"
  by (simp add: bt_of_list_insert_all btree.get_insert_all)

lemma keys_bt_of_list: "fst ` set (bt_of_list kvs) = fst ` set kvs"
proof -
  have "dom (map_of (bt_of_list kvs)) = dom (map_of (rev kvs))" by (simp add: bt_get_of_list)
  then show ?thesis by (simp add: dom_map_of_conv_image_fst)
qed

lemma bt_of_list_idem: "bt_ok m \<Longrightarrow> bt_of_list m = m"
  by (simp add: bt_of_list_insert_all btree.insert_all_permuted bt_ok_distinct)

lemma bt_of_list_permuted:
  "bt_ok m \<Longrightarrow> distinct (map fst kvs) \<Longrightarrow> set kvs = set m \<Longrightarrow> bt_of_list kvs = m"
  by (simp add: bt_of_list_insert_all btree.insert_all_permuted)

lemma bt_ok_map_values [simp]: "bt_ok (map (\<lambda>(k, v). (k, f k v)) m) \<longleftrightarrow> bt_ok m"
  by (simp add: bt_ok_def comp_def case_prod_beta)

lemma bt_insert_length:
  "bt_ok m \<Longrightarrow> length (bt_insert k v m) = (if bt_contains m k then length m else Suc (length m))"
proof (induction k v m rule: bt_insert.induct)
  case (2 k v k' v' m)
  have "k < k' \<Longrightarrow> map_of m k = None"
    using "2.prems" by (fastforce simp: map_of_eq_None_iff)
  with 2 show ?case by (auto simp: bt_contains_def)
qed (simp add: bt_contains_def)

end
