(* ===== verification/Json_Value.thy ===== *)
theory Json_Value
  imports Ordered_Map
begin

text \<open>
  The JSON trees the program exchanges (\<^verbatim>\<open>serde_json::Value\<close> with \<^verbatim>\<open>arbitrary_precision\<close>: a
  number is its text) and the accessors it uses on them.  An object is an ordered map from keys to
  values; \<open>json_ok\<close> says so of every object inside a tree.
\<close>

datatype json =
    JNull
  | JBool bool
  | JNumber string
  | JString string
  | JArray "json list"
  | JObject "(string \<times> json) list"

type_synonym jobject = "(string \<times> json) list"

lemma size_object_entry [termination_simp]:
  "(k, v) \<in> set m \<Longrightarrow> size v < Suc (size_list (size_prod (\<lambda>x. 0) size) m)"
  by (induction m) auto

fun json_ok :: "json \<Rightarrow> bool" where
  "json_ok (JArray vs) = (\<forall>v \<in> set vs. json_ok v)"
| "json_ok (JObject m) = (bt_ok m \<and> (\<forall>(k, v) \<in> set m. json_ok v))"
| "json_ok _ = True"

text \<open>How deep arrays and objects are nested: a scalar has depth 0.\<close>

fun json_depth :: "json \<Rightarrow> nat" where
  "json_depth (JArray vs) = Suc (fold max (map json_depth vs) 0)"
| "json_depth (JObject m) = Suc (fold max (map (\<lambda>(k, v). json_depth v) m) 0)"
| "json_depth _ = 0"

text \<open>How many values a tree holds, itself included; object keys are not values.\<close>

fun json_nodes :: "json \<Rightarrow> nat" where
  "json_nodes (JArray vs) = Suc (sum_list (map json_nodes vs))"
| "json_nodes (JObject m) = Suc (sum_list (map (\<lambda>(k, v). json_nodes v) m))"
| "json_nodes _ = 1"

lemma fold_max_le_iff: "fold max xs (b :: nat) \<le> n \<longleftrightarrow> b \<le> n \<and> (\<forall>x \<in> set xs. x \<le> n)"
  by (induction xs arbitrary: b) auto

lemma json_depth_array_le:
  "json_depth (JArray vs) \<le> Suc n \<longleftrightarrow> (\<forall>v \<in> set vs. json_depth v \<le> n)"
  by (auto simp: fold_max_le_iff)

lemma json_depth_object_le:
  "json_depth (JObject m) \<le> Suc n \<longleftrightarrow> (\<forall>(k, v) \<in> set m. json_depth v \<le> n)"
  by (auto simp: fold_max_le_iff)

section \<open>Accessors\<close>

fun as_bool :: "json \<Rightarrow> bool option" where
  "as_bool (JBool b) = Some b"
| "as_bool _ = None"

fun json_str :: "json \<Rightarrow> string option" where
  "json_str (JString s) = Some s"
| "json_str _ = None"

fun as_array :: "json \<Rightarrow> json list option" where
  "as_array (JArray vs) = Some vs"
| "as_array _ = None"

fun as_object :: "json \<Rightarrow> jobject option" where
  "as_object (JObject m) = Some m"
| "as_object _ = None"

fun as_u64 :: "json \<Rightarrow> nat option" where
  "as_u64 (JNumber s) = parse_u64 s"
| "as_u64 _ = None"

text \<open>\<^verbatim>\<open>value[key]\<close>: \<open>JNull\<close> where there is no such entry.\<close>

fun jfield :: "json \<Rightarrow> string \<Rightarrow> json" where
  "jfield (JObject m) k = (case bt_get m k of Some v \<Rightarrow> v | None \<Rightarrow> JNull)"
| "jfield _ k = JNull"

text \<open>Comparison of a JSON value with a number (\<^verbatim>\<open>value == n\<close> for an unsigned \<^verbatim>\<open>n\<close>).\<close>

definition is_number :: "json \<Rightarrow> nat \<Rightarrow> bool" where
  "is_number j n \<longleftrightarrow> as_u64 j = Some n"

lemma as_array_Some [simp]: "as_array j = Some vs \<longleftrightarrow> j = JArray vs"
  by (cases j) auto

lemma as_object_Some [simp]: "as_object j = Some m \<longleftrightarrow> j = JObject m"
  by (cases j) auto

lemma json_str_Some [simp]: "json_str j = Some s \<longleftrightarrow> j = JString s"
  by (cases j) auto

text \<open>The decimal text of an unsigned integer.\<close>

fun show_nat :: "nat \<Rightarrow> string" where
  "show_nat n = (if n < 10 then [char_of (48 + n)]
                 else show_nat (n div 10) @ [char_of (48 + n mod 10)])"

declare show_nat.simps [simp del]

lemma show_nat_nonempty [simp]: "show_nat n \<noteq> []"
  by (subst show_nat.simps) simp

lemma digit_value_char_of [simp]: "d < 10 \<Longrightarrow> digit_value (char_of (48 + d :: nat)) = d"
  by (simp add: digit_value_def)

lemma is_ascii_digit_char_of [simp]: "d < 10 \<Longrightarrow> is_ascii_digit (char_of (48 + d :: nat))"
  by (simp add: is_ascii_digit_def)

lemma all_digits_show_nat [simp]: "all_digits (show_nat n)"
proof (induction n rule: show_nat.induct)
  case (1 n)
  then show ?case by (subst show_nat.simps) simp
qed

lemma digits_value_show_nat [simp]: "digits_value (show_nat n) = n"
proof (induction n rule: show_nat.induct)
  case (1 n)
  show ?case
  proof (cases "n < 10")
    case True
    then have "digits_value ([] @ [char_of (48 + n)]) = n" by (simp only: digits_value_snoc) simp
    then show ?thesis using True by (simp add: show_nat.simps)
  next
    case False
    then show ?thesis using "1.IH" by (subst show_nat.simps) simp
  qed
qed

lemma parse_unsigned_show_nat: "n < 2 ^ w \<Longrightarrow> parse_unsigned w (show_nat n) = Some n"
proof -
  assume n: "n < 2 ^ w"
  obtain c r where cr: "show_nat n = c # r" by (cases "show_nat n") auto
  have "is_ascii_digit c" using all_digits_show_nat [of n] cr by simp
  then have "c \<noteq> CHR ''+''" by (auto simp: is_ascii_digit_def byte_of_def)
  then have strip: "(case show_nat n of c # r \<Rightarrow> if c = CHR ''+'' then r else show_nat n | [] \<Rightarrow> [])
      = show_nat n"
    by (simp add: cr)
  show ?thesis
    unfolding parse_unsigned_def strip using n by (simp add: parse_digits_def)
qed

definition json_nat :: "nat \<Rightarrow> json" where
  "json_nat n = JNumber (show_nat n)"

lemma as_u64_json_nat [simp]: "n < 2 ^ 64 \<Longrightarrow> as_u64 (json_nat n) = Some n"
  by (simp add: json_nat_def parse_unsigned_show_nat)

text \<open>\<^verbatim>\<open>json!({...})\<close>: the entries are put in key order.\<close>

definition json_obj :: "(string \<times> json) list \<Rightarrow> json" where
  "json_obj kvs = JObject (bt_of_list kvs)"

lemma jfield_json_obj:
  "jfield (json_obj kvs) k = (case map_of (rev kvs) k of Some v \<Rightarrow> v | None \<Rightarrow> JNull)"
  by (simp add: json_obj_def bt_get_of_list)

lemma json_ok_json_obj: "(\<And>k v. (k, v) \<in> set kvs \<Longrightarrow> json_ok v) \<Longrightarrow> json_ok (json_obj kvs)"
proof -
  assume ok: "\<And>k v. (k, v) \<in> set kvs \<Longrightarrow> json_ok v"
  have "json_ok v" if "(k, v) \<in> set (bt_of_list kvs)" for k v
  proof -
    have "map_of (bt_of_list kvs) k = Some v"
      using that by (simp add: bt_ok_distinct)
    then have "(k, v) \<in> set kvs"
      by (auto simp: bt_get_of_list dest: map_of_SomeD)
    then show ?thesis by (rule ok)
  qed
  then show ?thesis by (auto simp: json_obj_def)
qed

end
