(* ===== verification/Json_Parser.thy ===== *)
theory Json_Parser
  imports Json_Value
begin

text \<open>
  The bounded JSON reader of \<^verbatim>\<open>src/json.rs\<close>: a recursive-descent parser over the bytes of the
  text with a byte limit, a nesting limit, a node limit and, on request, rejection of duplicate
  object keys.  The parser state is the record \<open>parser\<close>, every method is a function from the
  state to an error or a result with the next state.  The decoding of one string token, which the
  program leaves to \<^verbatim>\<open>serde_json::from_str\<close>, is the parameter \<open>strtok\<close>.
\<close>

record limits =
  max_bytes :: nat
  max_depth :: nat
  max_nodes :: nat
  reject_duplicate_keys :: bool

datatype json_msg =
    NodesExceed nat
  | NestingExceeds nat
  | ExpectedValue
  | BadStringToken bytes
  | ControlCharacter
  | UnterminatedString
  | BadIntegerPart
  | FractionWithoutDigit
  | ExponentWithoutDigit
  | ExpectedCommaOrBracket
  | KeyMustBeString
  | DuplicateKey string
  | ExpectedColon
  | ExpectedCommaOrBrace
  | ExpectedLiteral string
  | TrailingCharacters

datatype json_error = PayloadExceeds nat | DecodeFailed nat json_msg

record parser =
  p_text :: bytes
  p_at :: nat
  p_nodes :: nat
  p_limits :: limits

definition parse_error :: "parser \<Rightarrow> json_msg \<Rightarrow> json_error" where
  "parse_error p m = DecodeFailed (p_at p) m"

text \<open>The byte under the cursor, and moving the cursor.\<close>

definition cur :: "parser \<Rightarrow> char option" where
  "cur p = get_byte (p_text p) (p_at p)"

definition bump :: "nat \<Rightarrow> parser \<Rightarrow> parser" where
  "bump n p = p\<lparr>p_at := p_at p + n\<rparr>"

text \<open>How far the cursor is from the end of the text: the measure of every loop below.\<close>

definition remaining :: "parser \<Rightarrow> nat" where
  "remaining p = length (p_text p) - p_at p"

lemma cur_Some_less: "cur p = Some b \<Longrightarrow> p_at p < length (p_text p)"
  by (auto simp: cur_def get_byte_def split: if_splits)

lemma bump_simps [simp]:
  "p_text (bump n p) = p_text p" "p_at (bump n p) = p_at p + n"
  "p_nodes (bump n p) = p_nodes p" "p_limits (bump n p) = p_limits p"
  by (simp_all add: bump_def)

lemma remaining_bump: "cur p = Some b \<Longrightarrow> 0 < n \<Longrightarrow> remaining (bump n p) < remaining p"
  by (auto simp: remaining_def dest: cur_Some_less)

section \<open>Scanning\<close>

definition is_json_ws :: "char \<Rightarrow> bool" where
  "is_json_ws c \<longleftrightarrow> byte_of c \<in> {32, 9, 13, 10}"

text \<open>\<^verbatim>\<open>while matches!(bytes.get(at), Some(..)) { at += 1 }\<close>.\<close>

function skip_while :: "(char \<Rightarrow> bool) \<Rightarrow> parser \<Rightarrow> parser" where
  "skip_while P p =
     (case cur p of
        Some b \<Rightarrow> if P b then skip_while P (bump 1 p) else p
      | None \<Rightarrow> p)"
  by pat_completeness auto
termination
  by (relation "measure (\<lambda>(P, p). remaining p)") (auto simp: remaining_bump)

declare skip_while.simps [simp del]

definition skip_ws :: "parser \<Rightarrow> parser" where
  "skip_ws p = skip_while is_json_ws p"

definition skip_digits :: "parser \<Rightarrow> parser" where
  "skip_digits p = skip_while is_ascii_digit p"

definition cur_is :: "parser \<Rightarrow> (char \<Rightarrow> bool) \<Rightarrow> bool" where
  "cur_is p P \<longleftrightarrow> (case cur p of Some b \<Rightarrow> P b | None \<Rightarrow> False)"

section \<open>Strings, literals and numbers\<close>

text \<open>
  The body of a string: to the closing quote, a backslash skipping the byte after it.  The token,
  quotes included, is handed to \<open>strtok\<close>.
\<close>

function string_loop ::
    "(bytes \<Rightarrow> string option) \<Rightarrow> nat \<Rightarrow> parser \<Rightarrow> json_error + string \<times> parser" where
  "string_loop strtok start p =
     (case cur p of
        None \<Rightarrow> Inl (parse_error p UnterminatedString)
      | Some b \<Rightarrow>
          if b = CHR 0x22 then
            (let q = bump 1 p
             in case strtok (slice (p_text q) start (p_at q)) of
                  None \<Rightarrow> Inl (parse_error q (BadStringToken (slice (p_text q) start (p_at q))))
                | Some s \<Rightarrow> Inr (s, q))
          else if b = CHR 0x5C then
            string_loop strtok start (p\<lparr>p_at := min (p_at p + 2) (length (p_text p))\<rparr>)
          else if byte_of b \<le> 0x1F then Inl (parse_error p ControlCharacter)
          else string_loop strtok start (bump 1 p))"
  by pat_completeness auto
termination
  by (relation "measure (\<lambda>(f, s, p). remaining p)")
    (auto simp: remaining_bump remaining_def dest: cur_Some_less)

declare string_loop.simps [simp del]

definition parse_string ::
    "(bytes \<Rightarrow> string option) \<Rightarrow> parser \<Rightarrow> json_error + string \<times> parser" where
  "parse_string strtok p = string_loop strtok (p_at p) (bump 1 p)"

definition parse_literal :: "string \<Rightarrow> parser \<Rightarrow> json_error + parser" where
  "parse_literal lit p =
     (if starts_with (drop (p_at p) (p_text p)) lit
      then Inr (bump (length lit) p)
      else Inl (parse_error p (ExpectedLiteral lit)))"

definition integer_part :: "parser \<Rightarrow> json_error + parser" where
  "integer_part p =
     (case cur p of
        None \<Rightarrow> Inl (parse_error p BadIntegerPart)
      | Some b \<Rightarrow>
          if b = CHR ''0'' then
            (let q = bump 1 p
             in if cur_is q is_ascii_digit then Inl (parse_error q BadIntegerPart) else Inr q)
          else if is_ascii_digit b then Inr (skip_digits (bump 1 p))
          else Inl (parse_error p BadIntegerPart))"

definition fraction_part :: "parser \<Rightarrow> json_error + parser" where
  "fraction_part p =
     (if cur p = Some (CHR ''.'') then
        (let q = bump 1 p
         in if cur_is q is_ascii_digit then Inr (skip_digits q)
            else Inl (parse_error q FractionWithoutDigit))
      else Inr p)"

definition exponent_part :: "parser \<Rightarrow> json_error + parser" where
  "exponent_part p =
     (if cur p = Some (CHR ''e'') \<or> cur p = Some (CHR ''E'') then
        (let q = bump 1 p;
             r = (if cur q = Some (CHR ''+'') \<or> cur q = Some (CHR ''-'') then bump 1 q else q)
         in if cur_is r is_ascii_digit then Inr (skip_digits r)
            else Inl (parse_error r ExponentWithoutDigit))
      else Inr p)"

definition parse_number :: "parser \<Rightarrow> json_error + json \<times> parser" where
  "parse_number p =
     (let start = p_at p;
          p1 = (if cur p = Some (CHR ''-'') then bump 1 p else p)
      in case integer_part p1 of
           Inl e \<Rightarrow> Inl e
         | Inr p2 \<Rightarrow> (case fraction_part p2 of
             Inl e \<Rightarrow> Inl e
           | Inr p3 \<Rightarrow> (case exponent_part p3 of
               Inl e \<Rightarrow> Inl e
             | Inr p4 \<Rightarrow> Inr (JNumber (slice (p_text p4) start (p_at p4)), p4))))"

section \<open>What a step of the parser keeps\<close>

text \<open>
  \<open>moves p q\<close>: the text and the limits are the same, the cursor did not go back, no node was
  forgotten, and a cursor inside the text stays inside it.
\<close>

definition moves :: "parser \<Rightarrow> parser \<Rightarrow> bool" where
  "moves p q \<longleftrightarrow> p_text q = p_text p \<and> p_limits q = p_limits p \<and> p_at p \<le> p_at q
     \<and> p_nodes p \<le> p_nodes q
     \<and> (p_at p \<le> length (p_text p) \<longrightarrow> p_at q \<le> length (p_text p))"

lemma moves_refl [simp, intro]: "moves p p"
  by (simp add: moves_def)

lemma moves_trans [trans]: "moves p q \<Longrightarrow> moves q r \<Longrightarrow> moves p r"
  by (auto simp: moves_def)

lemma moves_bump: "cur p = Some b \<Longrightarrow> moves p (bump 1 p)"
  by (auto simp: moves_def dest: cur_Some_less)

lemma moves_skip_while: "moves p (skip_while P p)"
proof (induction P p rule: skip_while.induct)
  case (1 P p)
  show ?case
  proof (cases "cur_is p P")
    case True
    then obtain b where b: "cur p = Some b" "P b"
      by (auto simp: cur_is_def split: option.splits)
    then show ?thesis
      using 1 moves_trans [OF moves_bump] by (simp add: skip_while.simps [of P p])
  next
    case False
    then show ?thesis
      by (auto simp: cur_is_def skip_while.simps [of P p] split: option.splits)
  qed
qed

lemma skip_while_nodes [simp]: "p_nodes (skip_while P p) = p_nodes p"
proof (induction P p rule: skip_while.induct)
  case (1 P p)
  then show ?case by (simp add: skip_while.simps [of P p] split: option.split)
qed

lemma skip_while_stops: "\<not> cur_is (skip_while P p) P"
proof (induction P p rule: skip_while.induct)
  case (1 P p)
  then show ?case
    by (subst skip_while.simps) (auto simp: cur_is_def split: option.split)
qed

lemma skip_ws_nodes [simp]: "p_nodes (skip_ws p) = p_nodes p"
  and skip_digits_nodes [simp]: "p_nodes (skip_digits p) = p_nodes p"
  by (simp_all add: skip_ws_def skip_digits_def)

lemma moves_skip_ws: "moves p (skip_ws p)"
  and moves_skip_digits: "moves p (skip_digits p)"
  by (simp_all add: skip_ws_def skip_digits_def moves_skip_while)

lemma moves_string_loop:
  "string_loop f start p = Inr (s, q) \<Longrightarrow> moves p q \<and> p_at p < p_at q \<and> p_nodes q = p_nodes p"
proof (induction f start p rule: string_loop.induct)
  case (1 f start p)
  from "1.prems" obtain b where b: "cur p = Some b"
    by (subst (asm) string_loop.simps) (auto split: option.splits)
  consider "b = CHR 0x22" | "b = CHR 0x5C" | "b \<noteq> CHR 0x22" "b \<noteq> CHR 0x5C"
    by blast
  then show ?case
  proof cases
    case 1
    then have "q = bump 1 p"
      using b "1.prems" by (subst (asm) string_loop.simps) (auto simp: Let_def split: option.splits)
    then show ?thesis using moves_bump [OF b] by simp
  next
    case 2
    let ?p = "p\<lparr>p_at := min (p_at p + 2) (length (p_text p))\<rparr>"
    have "string_loop f start ?p = Inr (s, q)"
      using b 2 "1.prems" by (subst (asm) string_loop.simps) simp
    then have "moves ?p q \<and> p_at ?p < p_at q \<and> p_nodes q = p_nodes ?p"
      using "1.IH"(1) [OF b] 2 by simp
    moreover have "moves p ?p" using cur_Some_less [OF b] by (simp add: moves_def)
    moreover have "p_at p \<le> p_at ?p" using cur_Some_less [OF b] by simp
    ultimately show ?thesis using moves_trans by (auto simp: moves_def)
  next
    case 3
    then have "\<not> byte_of b \<le> 0x1F" and "string_loop f start (bump 1 p) = Inr (s, q)"
      using b "1.prems" by (subst (asm) string_loop.simps, simp split: if_splits)+
    then have "moves (bump 1 p) q \<and> p_at (bump 1 p) < p_at q
        \<and> p_nodes q = p_nodes (bump 1 p)"
      using "1.IH"(2) [OF b] 3 by simp
    then show ?thesis using moves_trans [OF moves_bump [OF b]] by auto
  qed
qed

lemma moves_parse_string:
  assumes "parse_string f p = Inr (s, q)" and "cur p = Some b"
  shows "moves p q \<and> p_at p < p_at q \<and> p_nodes q = p_nodes p"
  using assms moves_string_loop [of f "p_at p" "bump 1 p" s q] moves_trans [OF moves_bump]
  by (fastforce simp: parse_string_def)

lemma moves_parse_literal:
  assumes "parse_literal lit p = Inr q"
  shows "moves p q \<and> p_nodes q = p_nodes p"
proof -
  have q: "q = bump (length lit) p" and sw: "starts_with (drop (p_at p) (p_text p)) lit"
    using assms by (auto simp: parse_literal_def split: if_splits)
  from sw have "length lit \<le> length (p_text p) - p_at p"
    by (metis length_append length_drop le_add1 starts_with_iff)
  then show ?thesis by (auto simp: q moves_def)
qed

lemma moves_integer_part: "integer_part p = Inr q \<Longrightarrow> moves p q \<and> p_nodes q = p_nodes p"
  using moves_trans [OF moves_bump moves_skip_digits] moves_bump
  by (auto simp: integer_part_def Let_def split: option.splits if_splits)

lemma cur_is_Some: "cur_is p P \<Longrightarrow> \<exists>b. cur p = Some b \<and> P b"
  by (auto simp: cur_is_def split: option.splits)

lemma moves_fraction_part: "fraction_part p = Inr q \<Longrightarrow> moves p q \<and> p_nodes q = p_nodes p"
  using moves_trans [OF moves_bump moves_skip_digits]
  by (auto simp: fraction_part_def Let_def split: if_splits)

lemma moves_exponent_part: "exponent_part p = Inr q \<Longrightarrow> moves p q \<and> p_nodes q = p_nodes p"
proof -
  assume e: "exponent_part p = Inr q"
  let ?a = "bump 1 p"
  let ?r = "if cur ?a = Some (CHR ''+'') \<or> cur ?a = Some (CHR ''-'') then bump 1 ?a else ?a"
  show ?thesis
  proof (cases "cur p = Some (CHR ''e'') \<or> cur p = Some (CHR ''E'')")
    case True
    then have q: "q = skip_digits ?r"
      using e by (auto simp: exponent_part_def Let_def split: if_splits)
    have "moves p ?a" using True moves_bump by auto
    also have "moves ?a ?r" using moves_bump [of ?a] by auto
    also have "moves ?r (skip_digits ?r)" by (rule moves_skip_digits)
    finally show ?thesis by (simp add: q)
  next
    case False
    then show ?thesis using e by (simp add: exponent_part_def)
  qed
qed

lemma parse_number_parts:
  assumes "parse_number p = Inr (v, q)"
  obtains p1 p2 p3 where
    "p1 = (if cur p = Some (CHR ''-'') then bump 1 p else p)"
    "integer_part p1 = Inr p2" "fraction_part p2 = Inr p3" "exponent_part p3 = Inr q"
    "v = JNumber (slice (p_text q) (p_at p) (p_at q))"
  using assms by (auto simp: parse_number_def Let_def split: sum.splits)

lemma parse_number_is_number: "parse_number p = Inr (v, q) \<Longrightarrow> \<exists>s. v = JNumber s"
  by (erule parse_number_parts) blast

lemma moves_parse_number:
  assumes "parse_number p = Inr (v, q)"
  shows "moves p q \<and> p_nodes q = p_nodes p"
proof -
  obtain p1 p2 p3 where p1: "p1 = (if cur p = Some (CHR ''-'') then bump 1 p else p)"
    and p2: "integer_part p1 = Inr p2" and p3: "fraction_part p2 = Inr p3"
    and p4: "exponent_part p3 = Inr q"
    using assms by (rule parse_number_parts)
  have "moves p p1" and n: "p_nodes p1 = p_nodes p" using moves_bump by (auto simp: p1)
  note this(1)
  also have "moves p1 p2" using moves_integer_part [OF p2] by simp
  also have "moves p2 p3" using moves_fraction_part [OF p3] by simp
  also have "moves p3 q" using moves_exponent_part [OF p4] by simp
  finally show ?thesis
    using n moves_integer_part [OF p2] moves_fraction_part [OF p3] moves_exponent_part [OF p4]
    by simp
qed

section \<open>Values, arrays and objects\<close>

definition count_node :: "parser \<Rightarrow> parser" where
  "count_node p = p\<lparr>p_nodes := Suc (p_nodes p)\<rparr>"

lemma count_node_simps [simp]:
  "p_text (count_node p) = p_text p" "p_at (count_node p) = p_at p"
  "p_nodes (count_node p) = Suc (p_nodes p)" "p_limits (count_node p) = p_limits p"
  by (simp_all add: count_node_def)

text \<open>\<^verbatim>\<open>self.at += 1; self.skip_ws();\<close> after an opening bracket or brace.\<close>

definition open_bracket :: "parser \<Rightarrow> parser" where
  "open_bracket p = skip_ws (bump 1 p)"

text \<open>
  The head of a member: \<^verbatim>\<open>skip_ws\<close>, a key (checked against the keys seen so far when duplicates
  are rejected), \<^verbatim>\<open>skip_ws\<close>, a colon.  The result is the key, the keys seen, and the state after
  the colon.
\<close>

definition member_key ::
    "(bytes \<Rightarrow> string option) \<Rightarrow> string set \<Rightarrow> parser \<Rightarrow> json_error + (string \<times> string set) \<times> parser"
  where
  "member_key strtok keys p =
     (let p1 = skip_ws p
      in if cur p1 \<noteq> Some (CHR 0x22) then Inl (parse_error p1 KeyMustBeString)
         else case parse_string strtok p1 of
           Inl e \<Rightarrow> Inl e
         | Inr (key, p2) \<Rightarrow>
             if reject_duplicate_keys (p_limits p2) \<and> key \<in> keys
             then Inl (parse_error p2 (DuplicateKey key))
             else
               (let keys' = (if reject_duplicate_keys (p_limits p2) then insert key keys else keys);
                    p3 = skip_ws p2
                in if cur p3 \<noteq> Some (CHR '':'') then Inl (parse_error p3 ExpectedColon)
                   else Inr ((key, keys'), bump 1 p3)))"

function (sequential)
  parse_value :: "(bytes \<Rightarrow> string option) \<Rightarrow> nat \<Rightarrow> parser \<Rightarrow> json_error + json \<times> parser"
  and array_loop ::
    "(bytes \<Rightarrow> string option) \<Rightarrow> nat \<Rightarrow> json list \<Rightarrow> parser \<Rightarrow> json_error + json \<times> parser"
  and object_loop ::
    "(bytes \<Rightarrow> string option) \<Rightarrow> nat \<Rightarrow> jobject \<Rightarrow> string set \<Rightarrow> parser \<Rightarrow> json_error + json \<times> parser"
where
  "parse_value strtok depth p0 =
     (let p = count_node (skip_ws p0)
      in if p_nodes p > max_nodes (p_limits p)
         then Inl (parse_error p (NodesExceed (max_nodes (p_limits p))))
         else case cur p of
           None \<Rightarrow> Inl (parse_error p ExpectedValue)
         | Some b \<Rightarrow>
             if b = CHR ''{'' then
               (if depth \<ge> max_depth (p_limits p)
                then Inl (parse_error p (NestingExceeds (max_depth (p_limits p))))
                else let q = open_bracket p
                     in if cur q = Some (CHR ''}'') then Inr (JObject [], bump 1 q)
                        else object_loop strtok (Suc depth) [] {} q)
             else if b = CHR ''['' then
               (if depth \<ge> max_depth (p_limits p)
                then Inl (parse_error p (NestingExceeds (max_depth (p_limits p))))
                else let q = open_bracket p
                     in if cur q = Some (CHR '']'') then Inr (JArray [], bump 1 q)
                        else array_loop strtok (Suc depth) [] q)
             else if b = CHR 0x22 then
               (case parse_string strtok p of
                  Inl e \<Rightarrow> Inl e | Inr (s, q) \<Rightarrow> Inr (JString s, q))
             else if b = CHR ''t'' then
               (case parse_literal ''true'' p of Inl e \<Rightarrow> Inl e | Inr q \<Rightarrow> Inr (JBool True, q))
             else if b = CHR ''f'' then
               (case parse_literal ''false'' p of Inl e \<Rightarrow> Inl e | Inr q \<Rightarrow> Inr (JBool False, q))
             else if b = CHR ''n'' then
               (case parse_literal ''null'' p of Inl e \<Rightarrow> Inl e | Inr q \<Rightarrow> Inr (JNull, q))
             else if b = CHR ''-'' \<or> is_ascii_digit b then parse_number p
             else Inl (parse_error p ExpectedValue))"
| "array_loop strtok depth vs p =
     (case parse_value strtok depth p of
        Inl e \<Rightarrow> Inl e
      | Inr (v, p1) \<Rightarrow>
          (let p2 = skip_ws p1
           in if cur p2 = Some (CHR '','') then array_loop strtok depth (vs @ [v]) (bump 1 p2)
              else if cur p2 = Some (CHR '']'') then Inr (JArray (vs @ [v]), bump 1 p2)
              else Inl (parse_error p2 ExpectedCommaOrBracket)))"
| "object_loop strtok depth m keys p =
     (case member_key strtok keys p of
        Inl e \<Rightarrow> Inl e
      | Inr ((key, keys'), p1) \<Rightarrow>
          (case parse_value strtok depth p1 of
             Inl e \<Rightarrow> Inl e
           | Inr (v, p2) \<Rightarrow>
               (let m' = bt_insert key v m; p3 = skip_ws p2
                in if cur p3 = Some (CHR '','')
                   then object_loop strtok depth m' keys' (bump 1 p3)
                   else if cur p3 = Some (CHR ''}'') then Inr (JObject m', bump 1 p3)
                   else Inl (parse_error p3 ExpectedCommaOrBrace))))"
  by pat_completeness auto

lemma moves_member_key:
  assumes "member_key strtok keys p = Inr ((key, keys'), q)"
  shows "moves p q \<and> p_at p < p_at q \<and> p_nodes q = p_nodes p \<and> remaining q < remaining p"
proof -
  let ?p1 = "skip_ws p"
  have c1: "cur ?p1 = Some (CHR 0x22)"
    using assms by (simp add: member_key_def Let_def split: if_splits)
  with assms obtain p2 where p2: "parse_string strtok ?p1 = Inr (key, p2)"
    by (auto simp: member_key_def Let_def split: sum.splits if_splits)
  with assms c1 have c3: "cur (skip_ws p2) = Some (CHR '':'')" and q: "q = bump 1 (skip_ws p2)"
    by (auto simp: member_key_def Let_def split: if_splits)
  note s = moves_parse_string [OF p2 c1]
  have "moves p ?p1" by (rule moves_skip_ws)
  also have "moves ?p1 p2" using s by simp
  also have "moves p2 (skip_ws p2)" by (rule moves_skip_ws)
  also have "moves (skip_ws p2) q" unfolding q by (rule moves_bump [OF c3])
  finally have m: "moves p q" .
  have "p_at p \<le> p_at ?p1" using moves_skip_ws [of p] by (simp add: moves_def)
  moreover have "p_at p2 \<le> p_at q" using moves_skip_ws [of p2] by (simp add: q moves_def)
  ultimately have lt: "p_at p < p_at q" using s by simp
  have "p_at p < length (p_text p)"
    using cur_Some_less [OF c1] moves_skip_ws [of p] by (simp add: moves_def)
  then have "remaining q < remaining p"
    using m lt by (auto simp: remaining_def moves_def intro: diff_less_mono2)
  with m s lt show ?thesis by (simp add: q)
qed

text \<open>
  Whatever a value or a loop returns, its cursor has not moved back (proved first for the calls that
  are known to end, as termination itself needs it).
\<close>

lemma moves_count_skip: "moves p (count_node (skip_ws p))"
  using moves_skip_ws [of p] by (auto simp: moves_def)

lemma moves_open_bracket: "cur p = Some b \<Longrightarrow> moves p (open_bracket p)"
  unfolding open_bracket_def using moves_trans [OF moves_bump moves_skip_ws] by blast

lemma at_open_bracket: "p_at p < p_at (open_bracket p)"
  using moves_skip_ws [of "bump 1 p"] by (simp add: open_bracket_def moves_def)

lemma remaining_less:
  "moves p q \<Longrightarrow> p_at p < p_at q \<Longrightarrow> p_at p < length (p_text p) \<Longrightarrow> remaining q < remaining p"
  by (auto simp: remaining_def moves_def intro: diff_less_mono2)

lemma remaining_le: "moves p q \<Longrightarrow> remaining q \<le> remaining p"
  by (auto simp: remaining_def moves_def)

lemma remaining_open_bracket:
  "cur p = Some b \<Longrightarrow> remaining (open_bracket p) < remaining p"
  by (blast intro: remaining_less moves_open_bracket at_open_bracket cur_Some_less)

lemma parse_moves_dom:
  "parse_value_array_loop_object_loop_dom (Inl (f, d, p)) \<Longrightarrow>
     parse_value f d p = Inr (v, q) \<Longrightarrow> moves p q"
  "parse_value_array_loop_object_loop_dom (Inr (Inl (f, d, vs, p))) \<Longrightarrow>
     array_loop f d vs p = Inr (v, q) \<Longrightarrow> moves p q"
  "parse_value_array_loop_object_loop_dom (Inr (Inr (f, d, m, ks, p))) \<Longrightarrow>
     object_loop f d m ks p = Inr (v, q) \<Longrightarrow> moves p q"
proof (induction f d p and f d vs p and f d m ks p arbitrary: v q and v q and v q
    rule: parse_value_array_loop_object_loop.pinduct)
  case (1 f d p0)
  let ?p = "count_node (skip_ws p0)"
  note ev = "1.prems" [unfolded parse_value.psimps [OF "1.hyps"] Let_def]
  have nodes: "\<not> max_nodes (p_limits ?p) < p_nodes ?p" using ev by (simp split: if_splits)
  then obtain b where b: "cur ?p = Some b"
    using ev by (auto split: if_splits option.splits)
  have bracket: "moves ?p r" if "moves (open_bracket ?p) r" for r
    using moves_trans [OF moves_open_bracket [OF b] that] .
  have close: "moves ?p (bump 1 (open_bracket ?p))" if "cur (open_bracket ?p) = Some c" for c
    using bracket [OF moves_bump [OF that]] .
  note IH_obj = "1.IH"(1) [OF refl nodes b] and IH_arr = "1.IH"(2) [OF refl nodes b]
  have "moves ?p q"
  proof (cases "b = CHR ''{'' \<or> b = CHR ''[''")
    case True
    then show ?thesis
      using ev nodes b IH_obj [OF _ _ refl] IH_arr [OF _ _ _ refl] bracket close
      by (auto split: if_splits)
  next
    case False
    then show ?thesis
      using ev nodes b moves_parse_string [OF _ b] moves_parse_literal moves_parse_number
      by (auto split: if_splits sum.splits)
  qed
  then show ?case by (rule moves_trans [OF moves_count_skip])
next
  case (2 f d vs p)
  note ev = "2.prems" [unfolded array_loop.psimps [OF "2.hyps"] Let_def]
  obtain v1 p1 where v1: "parse_value f d p = Inr (v1, p1)"
    using ev by (auto split: sum.splits)
  have "moves p p1" by (rule "2.IH"(1) [OF v1])
  also have "moves p1 (skip_ws p1)" by (rule moves_skip_ws)
  finally have m: "moves p (skip_ws p1)" .
  show ?case
  proof (cases "cur (skip_ws p1) = Some (CHR '','')")
    case True
    then have "moves (bump 1 (skip_ws p1)) q"
      using ev v1 "2.IH"(2) [OF v1 refl refl] by simp
    then show ?thesis using m moves_bump [OF True] moves_trans by blast
  next
    case False
    then have "q = bump 1 (skip_ws p1)" and "cur (skip_ws p1) = Some (CHR '']'')"
      using ev v1 by (auto split: if_splits)
    then show ?thesis using m moves_bump moves_trans by blast
  qed
next
  case (3 f d m ks p)
  note ev = "3.prems" [unfolded object_loop.psimps [OF "3.hyps"] Let_def]
  obtain key ks' p1 where k: "member_key f ks p = Inr ((key, ks'), p1)"
    using ev by (auto split: sum.splits)
  obtain v1 p2 where v1: "parse_value f d p1 = Inr (v1, p2)"
    using ev k by (auto split: sum.splits)
  have "moves p p1" using moves_member_key [OF k] by simp
  also have "moves p1 p2" by (rule "3.IH"(1) [OF k refl refl v1])
  also have "moves p2 (skip_ws p2)" by (rule moves_skip_ws)
  finally have mv: "moves p (skip_ws p2)" .
  show ?case
  proof (cases "cur (skip_ws p2) = Some (CHR '','')")
    case True
    then have "moves (bump 1 (skip_ws p2)) q"
      using ev k v1 "3.IH"(2) [OF k refl refl v1 refl refl refl] by simp
    then show ?thesis using mv moves_bump [OF True] moves_trans by blast
  next
    case False
    then have "q = bump 1 (skip_ws p2)" and "cur (skip_ws p2) = Some (CHR ''}'')"
      using ev k v1 by (auto split: if_splits)
    then show ?thesis using mv moves_bump moves_trans by blast
  qed
qed

lemma remaining_after_bracket:
  "cur (count_node (skip_ws p)) = Some b \<Longrightarrow>
     remaining (open_bracket (count_node (skip_ws p))) < remaining p"
  using remaining_open_bracket remaining_le [OF moves_count_skip] order.strict_trans2 by blast

lemma remaining_after_comma:
  "moves p p1 \<Longrightarrow> cur (skip_ws p1) = Some b \<Longrightarrow> remaining (bump 1 (skip_ws p1)) < remaining p"
  using remaining_bump [of "skip_ws p1" b 1] remaining_le [OF moves_skip_ws, of p1]
    remaining_le [of p p1] by simp

lemma remaining_after_member:
  "member_key f ks p = Inr ((k, ks'), p1) \<Longrightarrow> moves p1 p2 \<Longrightarrow> cur (skip_ws p2) = Some b \<Longrightarrow>
     remaining (bump 1 (skip_ws p2)) < remaining p"
  using remaining_after_comma [of p1 p2 b] moves_member_key [of f ks p k ks' p1] by simp

text \<open>
  Termination: every bracket, key and comma consumes a byte, and a value is below the loop that
  calls it at the same position.
\<close>

termination parse_value
proof (relation "measure (\<lambda>x. case x of
      Inl (f, d, p) \<Rightarrow> 2 * remaining p
    | Inr (Inl (f, d, vs, p)) \<Rightarrow> Suc (2 * remaining p)
    | Inr (Inr (f, d, m, ks, p)) \<Rightarrow> Suc (2 * remaining p))", goal_cases)
  case 1
  show ?case by simp
next
  case 2
  then show ?case using remaining_after_bracket by fastforce
next
  case 3
  then show ?case using remaining_after_bracket by fastforce
next
  case 4
  then show ?case by simp
next
  case (5 f d vs p)
  then show ?case
    by (auto dest!: remaining_after_comma [OF parse_moves_dom(1)])
next
  case 6
  then show ?case using moves_member_key by fastforce
next
  case (7 f d m ks p)
  then show ?case
    by (auto dest!: remaining_after_member [OF _ parse_moves_dom(1)])
qed

declare parse_value.simps [simp del] array_loop.simps [simp del] object_loop.simps [simp del]

lemmas parse_simps = parse_value.simps array_loop.simps object_loop.simps
lemmas parse_induct = parse_value_array_loop_object_loop.induct

text \<open>\<^verbatim>\<open>json::parse\<close>.\<close>

definition parse :: "(bytes \<Rightarrow> string option) \<Rightarrow> string \<Rightarrow> limits \<Rightarrow> json_error + json" where
  "parse strtok s lims =
     (if length s > max_bytes lims then Inl (PayloadExceeds (max_bytes lims))
      else case parse_value strtok 0 \<lparr>p_text = s, p_at = 0, p_nodes = 0, p_limits = lims\<rparr> of
        Inl e \<Rightarrow> Inl e
      | Inr (v, p) \<Rightarrow>
          (let q = skip_ws p
           in if p_at q \<noteq> length s then Inl (parse_error q TrailingCharacters) else Inr v))"

section \<open>Inversion of the parser\<close>

text \<open>
  The ways a value can be accepted, each with the state before its first byte, so that inductions
  over the parser need not unfold it.
\<close>

lemma parse_value_cases:
  assumes "parse_value f d p0 = Inr (v, q)"
  obtains (scalar) b p where "p = count_node (skip_ws p0)" "p_nodes p \<le> max_nodes (p_limits p)"
      "cur p = Some b" "moves p q" "p_nodes q = p_nodes p" "json_depth v = 0" "json_nodes v = 1"
      "json_ok v"
    | (no_elements) p where "p = count_node (skip_ws p0)" "p_nodes p \<le> max_nodes (p_limits p)"
      "cur p = Some (CHR ''['')" "d < max_depth (p_limits p)"
      "cur (open_bracket p) = Some (CHR '']'')" "v = JArray []" "q = bump 1 (open_bracket p)"
    | (elements) p where "p = count_node (skip_ws p0)" "p_nodes p \<le> max_nodes (p_limits p)"
      "cur p = Some (CHR ''['')" "d < max_depth (p_limits p)"
      "cur (open_bracket p) \<noteq> Some (CHR '']'')"
      "array_loop f (Suc d) [] (open_bracket p) = Inr (v, q)"
    | (no_members) p where "p = count_node (skip_ws p0)" "p_nodes p \<le> max_nodes (p_limits p)"
      "cur p = Some (CHR ''{'')" "d < max_depth (p_limits p)"
      "cur (open_bracket p) = Some (CHR ''}'')" "v = JObject []" "q = bump 1 (open_bracket p)"
    | (members) p where "p = count_node (skip_ws p0)" "p_nodes p \<le> max_nodes (p_limits p)"
      "cur p = Some (CHR ''{'')" "d < max_depth (p_limits p)"
      "cur (open_bracket p) \<noteq> Some (CHR ''}'')"
      "object_loop f (Suc d) [] {} (open_bracket p) = Inr (v, q)"
proof -
  let ?p = "count_node (skip_ws p0)"
  note ev = assms [unfolded parse_value.simps Let_def]
  have nodes: "p_nodes ?p \<le> max_nodes (p_limits ?p)" using ev by (simp split: if_splits)
  then obtain b where b: "cur ?p = Some b"
    using ev by (auto split: if_splits option.splits)
  consider "b = CHR ''{''" | "b = CHR ''[''" | "b \<noteq> CHR ''{''" "b \<noteq> CHR ''[''" by blast
  then show thesis
  proof cases
    case 1
    then have depth: "d < max_depth (p_limits ?p)" using ev nodes b by (simp split: if_splits)
    show thesis
    proof (cases "cur (open_bracket ?p) = Some (CHR ''}'')")
      case True
      with ev nodes b 1 depth have "v = JObject []" "q = bump 1 (open_bracket ?p)" by simp_all
      then show thesis using no_members [OF refl nodes] b 1 depth True by simp
    next
      case False
      with ev nodes b 1 depth have "object_loop f (Suc d) [] {} (open_bracket ?p) = Inr (v, q)"
        by simp
      then show thesis using members [OF refl nodes] b 1 depth False by simp
    qed
  next
    case 2
    then have depth: "d < max_depth (p_limits ?p)" using ev nodes b by (simp split: if_splits)
    show thesis
    proof (cases "cur (open_bracket ?p) = Some (CHR '']'')")
      case True
      with ev nodes b 2 depth have "v = JArray []" "q = bump 1 (open_bracket ?p)" by simp_all
      then show thesis using no_elements [OF refl nodes] b 2 depth True by simp
    next
      case False
      with ev nodes b 2 depth have "array_loop f (Suc d) [] (open_bracket ?p) = Inr (v, q)"
        by simp
      then show thesis using elements [OF refl nodes] b 2 depth False by simp
    qed
  next
    case 3
    consider s where "parse_string f ?p = Inr (s, q)" "v = JString s"
      | "parse_literal ''true'' ?p = Inr q" "v = JBool True"
      | "parse_literal ''false'' ?p = Inr q" "v = JBool False"
      | "parse_literal ''null'' ?p = Inr q" "v = JNull"
      | "parse_number ?p = Inr (v, q)"
      using ev nodes b 3 by (auto split: if_splits sum.splits prod.splits)
    then have "moves ?p q \<and> p_nodes q = p_nodes ?p \<and> json_depth v = 0 \<and> json_nodes v = 1 \<and> json_ok v"
    proof cases
      case 1
      then show ?thesis using moves_parse_string [OF 1(1) b] by simp
    next
      case 5
      then show ?thesis using moves_parse_number [OF 5] parse_number_is_number [OF 5] by auto
    qed (simp_all add: moves_parse_literal)
    then show thesis using scalar [OF refl nodes b] by blast
  qed
qed

lemma array_loop_cases:
  assumes "array_loop f d vs p = Inr (r, q)"
  obtains (last) v p1 where "parse_value f d p = Inr (v, p1)"
      "cur (skip_ws p1) = Some (CHR '']'')" "r = JArray (vs @ [v])" "q = bump 1 (skip_ws p1)"
    | (more) v p1 where "parse_value f d p = Inr (v, p1)"
      "cur (skip_ws p1) = Some (CHR '','')"
      "array_loop f d (vs @ [v]) (bump 1 (skip_ws p1)) = Inr (r, q)"
  using assms [unfolded array_loop.simps [of f d vs p] Let_def]
  by (auto split: sum.splits if_splits)

lemma object_loop_cases:
  assumes "object_loop f d m ks p = Inr (r, q)"
  obtains (last) k ks' p1 v p2 where "member_key f ks p = Inr ((k, ks'), p1)"
      "parse_value f d p1 = Inr (v, p2)" "cur (skip_ws p2) = Some (CHR ''}'')"
      "r = JObject (bt_insert k v m)" "q = bump 1 (skip_ws p2)"
    | (more) k ks' p1 v p2 where "member_key f ks p = Inr ((k, ks'), p1)"
      "parse_value f d p1 = Inr (v, p2)" "cur (skip_ws p2) = Some (CHR '','')"
      "object_loop f d (bt_insert k v m) ks' (bump 1 (skip_ws p2)) = Inr (r, q)"
  using assms [unfolded object_loop.simps [of f d m ks p] Let_def]
  by (auto split: sum.splits if_splits)

text \<open>
  Induction over accepted input: a property of (depth, start, value, end), one of an array loop with
  the elements read so far and one of an object loop with the members and keys read so far.
\<close>

lemma parse_accept_induct [consumes 1, case_names scalar no_elements elements no_members members
    last_element more_elements last_member more_members]:
  assumes acc: "parse_value f d p0 = Inr (v, q)"
    and scalar: "\<And>d p0 b p v q. p = count_node (skip_ws p0) \<Longrightarrow>
      p_nodes p \<le> max_nodes (p_limits p) \<Longrightarrow> cur p = Some b \<Longrightarrow> moves p q \<Longrightarrow>
      p_nodes q = p_nodes p \<Longrightarrow> json_depth v = 0 \<Longrightarrow> json_nodes v = 1 \<Longrightarrow> json_ok v \<Longrightarrow> V d p0 v q"
    and no_elements: "\<And>d p0 p. p = count_node (skip_ws p0) \<Longrightarrow>
      p_nodes p \<le> max_nodes (p_limits p) \<Longrightarrow> cur p = Some (CHR ''['') \<Longrightarrow>
      d < max_depth (p_limits p) \<Longrightarrow> cur (open_bracket p) = Some (CHR '']'') \<Longrightarrow>
      V d p0 (JArray []) (bump 1 (open_bracket p))"
    and elements: "\<And>d p0 p v q. p = count_node (skip_ws p0) \<Longrightarrow>
      p_nodes p \<le> max_nodes (p_limits p) \<Longrightarrow> cur p = Some (CHR ''['') \<Longrightarrow>
      d < max_depth (p_limits p) \<Longrightarrow> A (Suc d) [] (open_bracket p) v q \<Longrightarrow> V d p0 v q"
    and no_members: "\<And>d p0 p. p = count_node (skip_ws p0) \<Longrightarrow>
      p_nodes p \<le> max_nodes (p_limits p) \<Longrightarrow> cur p = Some (CHR ''{'') \<Longrightarrow>
      d < max_depth (p_limits p) \<Longrightarrow> cur (open_bracket p) = Some (CHR ''}'') \<Longrightarrow>
      V d p0 (JObject []) (bump 1 (open_bracket p))"
    and members: "\<And>d p0 p v q. p = count_node (skip_ws p0) \<Longrightarrow>
      p_nodes p \<le> max_nodes (p_limits p) \<Longrightarrow> cur p = Some (CHR ''{'') \<Longrightarrow>
      d < max_depth (p_limits p) \<Longrightarrow> B (Suc d) [] {} (open_bracket p) v q \<Longrightarrow> V d p0 v q"
    and last_element: "\<And>d vs p v p1. V d p v p1 \<Longrightarrow> cur (skip_ws p1) = Some (CHR '']'') \<Longrightarrow>
      A d vs p (JArray (vs @ [v])) (bump 1 (skip_ws p1))"
    and more_elements: "\<And>d vs p v p1 r q. V d p v p1 \<Longrightarrow> cur (skip_ws p1) = Some (CHR '','') \<Longrightarrow>
      A d (vs @ [v]) (bump 1 (skip_ws p1)) r q \<Longrightarrow> A d vs p r q"
    and last_member: "\<And>d m ks p k ks' p1 v p2. member_key f ks p = Inr ((k, ks'), p1) \<Longrightarrow>
      V d p1 v p2 \<Longrightarrow> cur (skip_ws p2) = Some (CHR ''}'') \<Longrightarrow>
      B d m ks p (JObject (bt_insert k v m)) (bump 1 (skip_ws p2))"
    and more_members: "\<And>d m ks p k ks' p1 v p2 r q. member_key f ks p = Inr ((k, ks'), p1) \<Longrightarrow>
      V d p1 v p2 \<Longrightarrow> cur (skip_ws p2) = Some (CHR '','') \<Longrightarrow>
      B d (bt_insert k v m) ks' (bump 1 (skip_ws p2)) r q \<Longrightarrow> B d m ks p r q"
  shows "V d p0 v q"
proof -
  have "g = f \<Longrightarrow> parse_value g d p = Inr (v, q) \<Longrightarrow> V d p v q"
    and "g = f \<Longrightarrow> array_loop g d vs p = Inr (r, q) \<Longrightarrow> A d vs p r q"
    and "g = f \<Longrightarrow> object_loop g d m ks p = Inr (r, q) \<Longrightarrow> B d m ks p r q"
    for g d p v q vs m ks r
  proof (induction g d p and g d vs p and g d m ks p arbitrary: v q and r q and r q
      rule: parse_induct)
    case (1 g d p0)
    note IH_obj = "1.IH"(1) [OF refl _ _ _ _ refl] and IH_arr = "1.IH"(2) [OF refl _ _ _ _ _ refl]
    from \<open>parse_value g d p0 = Inr (v, q)\<close> show ?case
    proof (cases rule: parse_value_cases)
      case (scalar b p)
      then show ?thesis by (rule assms(2))
    next
      case (no_elements p)
      then show ?thesis using assms(3) by blast
    next
      case (elements p)
      then have "A (Suc d) [] (open_bracket p) v q" using IH_arr \<open>g = f\<close> by auto
      with elements show ?thesis using assms(4) by blast
    next
      case (no_members p)
      then show ?thesis using assms(5) by blast
    next
      case (members p)
      then have "B (Suc d) [] {} (open_bracket p) v q" using IH_obj \<open>g = f\<close> by auto
      with members show ?thesis using assms(6) by blast
    qed
  next
    case (2 g d vs p)
    from \<open>array_loop g d vs p = Inr (r, q)\<close> show ?case
    proof (cases rule: array_loop_cases)
      case (last v p1)
      then show ?thesis using "2.IH"(1) \<open>g = f\<close> last_element by blast
    next
      case (more v p1)
      then show ?thesis
        using "2.IH"(1) "2.IH"(2) [OF more(1) refl refl] \<open>g = f\<close> more_elements by blast
    qed
  next
    case (3 g d m ks p)
    from \<open>object_loop g d m ks p = Inr (r, q)\<close> show ?case
    proof (cases rule: object_loop_cases)
      case (last k ks' p1 v p2)
      then show ?thesis using "3.IH"(1) [OF last(1) refl refl] \<open>g = f\<close> last_member by blast
    next
      case (more k ks' p1 v p2)
      then show ?thesis
        using "3.IH"(1) [OF more(1) refl refl] "3.IH"(2) [OF more(1) refl refl more(2) refl refl refl]
          \<open>g = f\<close> more_members by blast
    qed
  qed
  then show ?thesis using acc by blast
qed

section \<open>Bounds of an accepted value\<close>

lemma sum_nodes_insert_le:
  "sum_list (map (\<lambda>(k, v). json_nodes v) (bt_insert k v m))
     \<le> json_nodes v + sum_list (map (\<lambda>(k, v). json_nodes v) m)"
  by (induction k v m rule: bt_insert.induct) auto

lemma sum_nodes_insert_new:
  "bt_ok m \<Longrightarrow> k \<notin> fst ` set m \<Longrightarrow>
     sum_list (map (\<lambda>(k, v). json_nodes v) (bt_insert k v m))
       = json_nodes v + sum_list (map (\<lambda>(k, v). json_nodes v) m)"
  by (induction k v m rule: bt_insert.induct) auto

lemma entries_bt_insert: "(k', v') \<in> set (bt_insert k v m) \<Longrightarrow> (k', v') = (k, v) \<or> (k', v') \<in> set m"
  by (induction k v m rule: bt_insert.induct) (auto split: if_splits)

definition good_value :: "limits \<Rightarrow> nat \<Rightarrow> json \<Rightarrow> bool" where
  "good_value l d v \<longleftrightarrow> json_ok v \<and> d + json_depth v \<le> max_depth l"

lemma good_array:
  assumes "0 < d" "d \<le> max_depth l" and vs: "\<forall>v \<in> set vs. good_value l d v"
  shows "good_value l (d - 1) (JArray vs)"
proof -
  have "json_depth (JArray vs) \<le> Suc (max_depth l - d)"
    unfolding json_depth_array_le using vs by (auto simp: good_value_def)
  then show ?thesis using assms by (auto simp: good_value_def simp del: json_depth.simps)
qed

lemma good_insert:
  "good_value l d v \<Longrightarrow> \<forall>(k, v) \<in> set m. good_value l d v \<Longrightarrow>
     \<forall>(k', v') \<in> set (bt_insert k v m). good_value l d v'"
  using entries_bt_insert by fastforce

lemma good_object:
  assumes "0 < d" "d \<le> max_depth l" "bt_ok m" and m: "\<forall>(k, v) \<in> set m. good_value l d v"
  shows "good_value l (d - 1) (JObject m)"
proof -
  have "json_depth (JObject m) \<le> Suc (max_depth l - d)"
    unfolding json_depth_object_le using m by (auto simp: good_value_def)
  then show ?thesis using assms by (auto simp: good_value_def simp del: json_depth.simps)
qed

lemma limits_skip_ws [simp]: "p_limits (skip_ws p) = p_limits p"
  using moves_skip_ws [of p] by (simp add: moves_def)

lemma limits_moves: "moves p q \<Longrightarrow> p_limits q = p_limits p"
  by (simp add: moves_def)

lemma moves_close:
  "moves p p1 \<Longrightarrow> cur (skip_ws p1) = Some b \<Longrightarrow> moves p (bump 1 (skip_ws p1))"
  using moves_trans [OF moves_trans [OF _ moves_skip_ws] moves_bump] by blast

lemma limits_open_bracket [simp]: "p_limits (open_bracket p) = p_limits p"
  using moves_skip_ws [of "bump 1 p"] by (simp add: moves_def open_bracket_def)

lemma nodes_open_bracket [simp]: "p_nodes (open_bracket p) = p_nodes p"
  by (simp add: open_bracket_def)

text \<open>
  The node accounting: what a value holds was counted while it was read (an overwritten duplicate was
  counted too, hence the inequality), the counter stays within the limit, and so does the depth.
\<close>

lemma parse_value_bounds:
  assumes "parse_value f d p = Inr (v, q)" and "d \<le> max_depth (p_limits p)"
  shows "moves p q \<and> good_value (p_limits p) d v
    \<and> p_nodes p + json_nodes v \<le> p_nodes q \<and> p_nodes q \<le> max_nodes (p_limits p)"
proof -
  have "moves p q \<and> (d \<le> max_depth (p_limits p) \<longrightarrow> good_value (p_limits p) d v
    \<and> p_nodes p + json_nodes v \<le> p_nodes q \<and> p_nodes q \<le> max_nodes (p_limits p))"
    using assms(1)
  proof (induction rule: parse_accept_induct [where
        A = "\<lambda>d vs p r q. moves p q \<and> (0 < d \<and> d \<le> max_depth (p_limits p)
          \<and> (\<forall>v \<in> set vs. good_value (p_limits p) d v) \<longrightarrow>
            good_value (p_limits p) (d - 1) r
            \<and> p_nodes p + json_nodes r \<le> Suc (p_nodes q + sum_list (map json_nodes vs))
            \<and> p_nodes q \<le> max_nodes (p_limits p))"
        and B = "\<lambda>d m ks p r q. moves p q \<and> (0 < d \<and> d \<le> max_depth (p_limits p) \<and> bt_ok m
          \<and> (\<forall>(k, v) \<in> set m. good_value (p_limits p) d v) \<longrightarrow>
            good_value (p_limits p) (d - 1) r
            \<and> p_nodes p + json_nodes r \<le> Suc (p_nodes q + sum_list (map (\<lambda>(k, v). json_nodes v) m))
            \<and> p_nodes q \<le> max_nodes (p_limits p))"])
    case (scalar d p0 b p v q)
    then have "moves p0 q" using moves_trans [OF moves_count_skip] by blast
    then show ?case using scalar by (simp add: good_value_def)
  next
    case (no_elements d p0 p)
    have "moves p0 (bump 1 (open_bracket p))"
      using no_elements moves_trans [OF moves_count_skip] moves_trans [OF moves_open_bracket]
        moves_bump by metis
    then show ?case using no_elements by (simp add: good_value_def)
  next
    case (elements d p0 p v q)
    have "moves p0 q"
      using elements moves_trans [OF moves_count_skip] moves_trans [OF moves_open_bracket] by metis
    then show ?case using elements by simp
  next
    case (no_members d p0 p)
    have "moves p0 (bump 1 (open_bracket p))"
      using no_members moves_trans [OF moves_count_skip] moves_trans [OF moves_open_bracket]
        moves_bump by metis
    then show ?case using no_members by (simp add: good_value_def)
  next
    case (members d p0 p v q)
    have "moves p0 q"
      using members moves_trans [OF moves_count_skip] moves_trans [OF moves_open_bracket] by metis
    then show ?case using members by simp
  next
    case (last_element d vs p v p1)
    then show ?case
      using moves_close good_array [of d "p_limits p" "vs @ [v]"] by auto
  next
    case (more_elements d vs p v p1 r q)
    then have "moves p q" using moves_trans [OF moves_close] by blast
    moreover have "p_limits p1 = p_limits p" using more_elements limits_moves by blast
    ultimately show ?case using more_elements by auto
  next
    case (last_member d m ks p k ks' p1 v p2)
    have mv: "moves p p1" and n: "p_nodes p1 = p_nodes p" using moves_member_key [OF last_member(1)] by auto
    have l: "p_limits p1 = p_limits p" using mv by (rule limits_moves)
    have V: "moves p1 p2" "d \<le> max_depth (p_limits p) \<Longrightarrow> good_value (p_limits p) d v
        \<and> p_nodes p + json_nodes v \<le> p_nodes p2 \<and> p_nodes p2 \<le> max_nodes (p_limits p)"
      using last_member.IH l n by simp_all
    have "moves p (bump 1 (skip_ws p2))"
      using V(1) last_member.hyps(2) moves_trans [OF mv moves_close] by blast
    moreover have "good_value (p_limits p) (d - 1) (JObject (bt_insert k v m))"
      if "0 < d" "d \<le> max_depth (p_limits p)" "bt_ok m" "\<forall>(k, v) \<in> set m. good_value (p_limits p) d v"
      using that V(2) by (intro good_object good_insert bt_ok_insert) simp_all
    ultimately show ?case using V(2) sum_nodes_insert_le [of k v m] by (intro conjI impI) auto
  next
    case (more_members d m ks p k ks' p1 v p2 r q)
    have mv: "moves p p1" and n: "p_nodes p1 = p_nodes p" using moves_member_key [OF more_members(1)] by auto
    have l: "p_limits p1 = p_limits p" using mv by (rule limits_moves)
    have V: "moves p1 p2" "d \<le> max_depth (p_limits p) \<Longrightarrow> good_value (p_limits p) d v
        \<and> p_nodes p + json_nodes v \<le> p_nodes p2 \<and> p_nodes p2 \<le> max_nodes (p_limits p)"
      using more_members.IH(1) l n by simp_all
    have l2: "p_limits p2 = p_limits p" using V(1) l limits_moves by metis
    have "moves p q"
      using V(1) more_members.hyps(2,3) moves_trans [OF mv moves_trans [OF moves_close]] by blast
    moreover have "\<forall>(k', v') \<in> set (bt_insert k v m). good_value (p_limits p) d v'"
      if "d \<le> max_depth (p_limits p)" "\<forall>(k, v) \<in> set m. good_value (p_limits p) d v"
      using that V(2) good_insert by blast
    ultimately show ?case
      using more_members.hyps(3) V(2) sum_nodes_insert_le [of k v m] l2
      by (intro conjI impI) auto
  qed
  then show ?thesis using assms(2) by blast
qed

lemma parse_value_moves: "parse_value f d p = Inr (v, q) \<Longrightarrow> moves p q"
  by (induction rule: parse_accept_induct [where A = "\<lambda>d vs p r q. moves p q"
        and B = "\<lambda>d m ks p r q. moves p q"])
    (blast intro: moves_trans moves_count_skip moves_open_bracket moves_bump moves_close
      dest: moves_member_key)+

text \<open>
  With duplicate keys rejected nothing that was read is lost: the value holds exactly the nodes that
  were counted.
\<close>

lemma member_key_strict:
  assumes "member_key f ks p = Inr ((k, ks'), q)" and "reject_duplicate_keys (p_limits p)"
  shows "k \<notin> ks \<and> ks' = insert k ks"
proof -
  have c1: "cur (skip_ws p) = Some (CHR 0x22)"
    using assms(1) by (simp add: member_key_def Let_def split: if_splits)
  obtain p2 where p2: "parse_string f (skip_ws p) = Inr (k, p2)"
    using assms(1) c1 by (auto simp: member_key_def Let_def split: sum.splits if_splits)
  then have "p_limits p2 = p_limits p"
    using moves_parse_string [OF p2 c1] limits_moves by (metis limits_skip_ws)
  then show ?thesis
    using assms c1 p2 by (auto simp: member_key_def Let_def split: if_splits)
qed

lemma parse_value_strict:
  assumes "parse_value f d p = Inr (v, q)" and "reject_duplicate_keys (p_limits p)"
  shows "p_nodes q = p_nodes p + json_nodes v"
proof -
  have "moves p q \<and> (reject_duplicate_keys (p_limits p) \<longrightarrow> p_nodes q = p_nodes p + json_nodes v)"
    using assms(1)
  proof (induction rule: parse_accept_induct [where
        A = "\<lambda>d vs p r q. moves p q \<and> (reject_duplicate_keys (p_limits p) \<longrightarrow>
            p_nodes p + json_nodes r = Suc (p_nodes q + sum_list (map json_nodes vs)))"
        and B = "\<lambda>d m ks p r q. moves p q \<and> (reject_duplicate_keys (p_limits p) \<and> bt_ok m
          \<and> ks = fst ` set m \<longrightarrow>
            p_nodes p + json_nodes r = Suc (p_nodes q + sum_list (map (\<lambda>(k, v). json_nodes v) m)))"])
    case (scalar d p0 b p v q)
    then show ?case using moves_trans [OF moves_count_skip, of p0 q] by simp
  next
    case (no_elements d p0 p)
    then show ?case
      using moves_trans [OF moves_count_skip moves_trans [OF moves_open_bracket moves_bump], of p0]
      by simp
  next
    case (elements d p0 p v q)
    then show ?case
      using moves_trans [OF moves_count_skip moves_trans [OF moves_open_bracket], of p0 _ q] by simp
  next
    case (no_members d p0 p)
    then show ?case
      using moves_trans [OF moves_count_skip moves_trans [OF moves_open_bracket moves_bump], of p0]
      by simp
  next
    case (members d p0 p v q)
    then show ?case
      using moves_trans [OF moves_count_skip moves_trans [OF moves_open_bracket], of p0 _ q] by simp
  next
    case (last_element d vs p v p1)
    then show ?case using moves_close by auto
  next
    case (more_elements d vs p v p1 r q)
    then have "moves p q" using moves_trans [OF moves_close] by blast
    moreover have "p_limits p1 = p_limits p" using more_elements.IH(1) limits_moves by blast
    ultimately show ?case using more_elements by auto
  next
    case (last_member d m ks p k ks' p1 v p2)
    note mk = moves_member_key [OF last_member.hyps(1)] and st = member_key_strict [OF last_member.hyps(1)]
    have l: "p_limits p1 = p_limits p" using mk limits_moves by blast
    have "moves p (bump 1 (skip_ws p2))"
      using last_member mk moves_trans [OF _ moves_close] by blast
    then show ?case using last_member.IH l mk st sum_nodes_insert_new [of m k v] by auto
  next
    case (more_members d m ks p k ks' p1 v p2 r q)
    note mk = moves_member_key [OF more_members.hyps(1)] and st = member_key_strict [OF more_members.hyps(1)]
    have l: "p_limits p1 = p_limits p" "p_limits p2 = p_limits p"
      using mk more_members.IH(1) limits_moves by metis+
    have "moves p q"
      using more_members mk moves_trans [OF _ moves_trans [OF moves_close]] by blast
    moreover have "p_nodes p + json_nodes r = Suc (p_nodes q + sum_list (map (\<lambda>(k, v). json_nodes v) m))"
      if ok: "reject_duplicate_keys (p_limits p)" "bt_ok m" "ks = fst ` set m"
    proof -
      have "k \<notin> fst ` set m" and ks': "ks' = fst ` set (bt_insert k v m)"
        using st [OF ok(1)] ok(3) by (simp_all add: keys_bt_insert)
      then show ?thesis
        using more_members.IH more_members.hyps(3) l mk ok sum_nodes_insert_new [of m k v] by simp
    qed
    ultimately show ?case by blast
  qed
  then show ?thesis using assms(2) by blast
qed

section \<open>Relaxing the limits\<close>

text \<open>
  Scanning does not look at the limits, so it commutes with changing them; a value accepted under
  some limits is accepted, and is the same value, under more lenient ones.
\<close>

definition relimit :: "limits \<Rightarrow> parser \<Rightarrow> parser" where
  "relimit l p = p\<lparr>p_limits := l\<rparr>"

definition lenient :: "limits \<Rightarrow> limits \<Rightarrow> bool" where
  "lenient l l' \<longleftrightarrow> max_bytes l \<le> max_bytes l' \<and> max_depth l \<le> max_depth l'
     \<and> max_nodes l \<le> max_nodes l' \<and> (reject_duplicate_keys l' \<longrightarrow> reject_duplicate_keys l)"

lemma relimit_fields [simp]:
  "p_text (relimit l p) = p_text p" "p_at (relimit l p) = p_at p" "p_nodes (relimit l p) = p_nodes p"
  "p_limits (relimit l p) = l" "cur (relimit l p) = cur p" "cur_is (relimit l p) P = cur_is p P"
  "remaining (relimit l p) = remaining p" "parse_error (relimit l p) = parse_error p"
  by (simp_all add: relimit_def cur_def cur_is_def remaining_def parse_error_def fun_eq_iff)

lemma relimit_move [simp]:
  "bump n (relimit l p) = relimit l (bump n p)"
  "count_node (relimit l p) = relimit l (count_node p)"
  "(relimit l p)\<lparr>p_at := a\<rparr> = relimit l (p\<lparr>p_at := a\<rparr>)"
  by (simp_all add: relimit_def bump_def count_node_def)

lemma relimit_skip_while [simp]: "skip_while P (relimit l p) = relimit l (skip_while P p)"
proof (induction P p rule: skip_while.induct)
  case (1 P p)
  then show ?case
    by (simp add: skip_while.simps [of P p] skip_while.simps [of P "relimit l p"] split: option.split)
qed

lemma relimit_skip [simp]:
  "skip_ws (relimit l p) = relimit l (skip_ws p)" "skip_digits (relimit l p) = relimit l (skip_digits p)"
  "open_bracket (relimit l p) = relimit l (open_bracket p)"
  by (simp_all add: skip_ws_def skip_digits_def open_bracket_def)

lemma relimit_string_loop [simp]:
  "string_loop f a (relimit l p) = map_sum id (map_prod id (relimit l)) (string_loop f a p)"
proof (induction f a p rule: string_loop.induct)
  case (1 f a p)
  then show ?case
    by (simp add: string_loop.simps [of f a p] string_loop.simps [of f a "relimit l p"] Let_def
        split: option.split)
qed

lemma relimit_scalars [simp]:
  "parse_string f (relimit l p) = map_sum id (map_prod id (relimit l)) (parse_string f p)"
  "parse_literal w (relimit l p) = map_sum id (relimit l) (parse_literal w p)"
  "integer_part (relimit l p) = map_sum id (relimit l) (integer_part p)"
  "fraction_part (relimit l p) = map_sum id (relimit l) (fraction_part p)"
  "exponent_part (relimit l p) = map_sum id (relimit l) (exponent_part p)"
  by (simp_all add: parse_string_def parse_literal_def integer_part_def fraction_part_def
      exponent_part_def Let_def split: option.split)

lemma relimit_parse_number [simp]:
  "parse_number (relimit l p) = map_sum id (map_prod id (relimit l)) (parse_number p)"
proof -
  have start: "(if cur p = Some (CHR ''-'') then bump 1 (relimit l p) else relimit l p)
      = relimit l (if cur p = Some (CHR ''-'') then bump 1 p else p)"
    by simp
  show ?thesis
    unfolding parse_number_def Let_def relimit_fields start
    by (simp split: sum.split)
qed

lemma lenient_member_key:
  assumes "member_key f ks p = Inr ((k, ks1), q)" and "lenient (p_limits p) l"
    and "reject_duplicate_keys l \<longrightarrow> ks' \<subseteq> ks"
  shows "\<exists>ks1'. member_key f ks' (relimit l p) = Inr ((k, ks1'), relimit l q)
    \<and> (reject_duplicate_keys l \<longrightarrow> ks1' \<subseteq> ks1)"
proof -
  have c1: "cur (skip_ws p) = Some (CHR 0x22)"
    using assms(1) by (simp add: member_key_def Let_def split: if_splits)
  obtain p2 where p2: "parse_string f (skip_ws p) = Inr (k, p2)"
    using assms(1) c1 by (auto simp: member_key_def Let_def split: sum.splits if_splits)
  have l2: "p_limits p2 = p_limits p"
    using moves_parse_string [OF p2 c1] limits_moves by (metis limits_skip_ws)
  then show ?thesis
    using assms c1 p2 by (auto simp: member_key_def Let_def lenient_def split: if_splits)
qed

lemma lenient_parse_value:
  "parse_value f d p = Inr (v, q) \<Longrightarrow> lenient (p_limits p) l \<Longrightarrow>
     parse_value f d (relimit l p) = Inr (v, relimit l q)"
  "array_loop f d vs p = Inr (r, q) \<Longrightarrow> lenient (p_limits p) l \<Longrightarrow>
     array_loop f d vs (relimit l p) = Inr (r, relimit l q)"
  "object_loop f d m ks p = Inr (r, q) \<Longrightarrow> lenient (p_limits p) l \<Longrightarrow>
     reject_duplicate_keys l \<longrightarrow> ks' \<subseteq> ks \<Longrightarrow>
     object_loop f d m ks' (relimit l p) = Inr (r, relimit l q)"
proof (induction f d p and f d vs p and f d m ks p arbitrary: v q and r q and r q ks'
    rule: parse_induct)
  case (1 f d p0)
  let ?p = "count_node (skip_ws p0)"
  note ev = "1.prems"(1) [unfolded parse_value.simps Let_def]
  have nodes: "\<not> max_nodes (p_limits ?p) < p_nodes ?p" using ev by (simp split: if_splits)
  then obtain b where b: "cur ?p = Some b"
    using ev by (auto split: if_splits option.splits)
  have nodes': "\<not> max_nodes l < p_nodes ?p" using nodes "1.prems"(2) by (simp add: lenient_def)
  note IH_obj = "1.IH"(1) [OF refl nodes b] and IH_arr = "1.IH"(2) [OF refl nodes b]
  have bracket: "\<not> max_depth (p_limits ?p) \<le> d \<Longrightarrow> \<not> max_depth l \<le> d"
    using "1.prems"(2) by (simp add: lenient_def)
  note unfold = parse_value.simps [of f d "relimit l p0"] Let_def relimit_skip relimit_move
    relimit_fields
  consider "b = CHR ''{''" | "b = CHR ''[''" | "b \<noteq> CHR ''{''" "b \<noteq> CHR ''[''" by blast
  then show ?case
  proof cases
    case 1
    then have depth: "\<not> max_depth (p_limits ?p) \<le> d" using ev nodes b by (simp split: if_splits)
    show ?thesis
    proof (cases "cur (open_bracket ?p) = Some (CHR ''}'')")
      case True
      then show ?thesis using ev nodes nodes' b 1 depth bracket unfolding unfold by simp
    next
      case False
      then have "object_loop f (Suc d) [] {} (relimit l (open_bracket ?p)) = Inr (v, relimit l q)"
        using IH_obj [OF 1 depth refl False] ev nodes b 1 depth "1.prems"(2) by simp
      then show ?thesis using ev nodes nodes' b 1 depth bracket False unfolding unfold by simp
    qed
  next
    case 2
    then have depth: "\<not> max_depth (p_limits ?p) \<le> d" using ev nodes b by (simp split: if_splits)
    show ?thesis
    proof (cases "cur (open_bracket ?p) = Some (CHR '']'')")
      case True
      then show ?thesis using ev nodes nodes' b 2 depth bracket unfolding unfold by simp
    next
      case False
      have "b \<noteq> CHR ''{''" using 2 by simp
      then have "array_loop f (Suc d) [] (relimit l (open_bracket ?p)) = Inr (v, relimit l q)"
        using IH_arr [OF _ 2 depth refl False] ev nodes b 2 depth False "1.prems"(2) by simp
      then show ?thesis using ev nodes nodes' b 2 depth bracket False unfolding unfold by simp
    qed
  next
    case 3
    then show ?thesis
      using ev nodes nodes' b unfolding unfold by (auto split: if_splits sum.splits)
  qed
next
  case (2 f d vs p)
  from "2.prems"(1) show ?case
  proof (cases rule: array_loop_cases)
    case (last v p1)
    then show ?thesis using "2.IH"(1) "2.prems"(2) by (simp add: array_loop.simps [of f d vs "relimit l p"])
  next
    case (more v p1)
    have "p_limits p1 = p_limits p"
      using parse_value_moves [OF more(1)] limits_moves by blast
    then show ?thesis
      using "2.IH"(1) [OF more(1)] "2.IH"(2) [OF more(1) refl refl more(2,3)] "2.prems"(2) more(2)
      by (simp add: array_loop.simps [of f d vs "relimit l p"])
  qed
next
  case (3 f d m ks p)
  note len = "3.prems"(2) and sub = "3.prems"(3)
  from "3.prems"(1) show ?case
  proof (cases rule: object_loop_cases)
    case (last k ks1 p1 v p2)
    then have "p_limits p1 = p_limits p" using moves_member_key limits_moves by metis
    then have "parse_value f d (relimit l p1) = Inr (v, relimit l p2)"
      using "3.IH"(1) [OF last(1) refl refl last(2)] len by simp
    then show ?thesis
      using lenient_member_key [OF last(1) len sub] last
      by (auto simp: object_loop.simps [of f d m ks' "relimit l p"] Let_def)
  next
    case (more k ks1 p1 v p2)
    then have lim: "p_limits p1 = p_limits p" "p_limits p2 = p_limits p"
      using moves_member_key [OF more(1)] parse_value_moves [OF more(2)] limits_moves by metis+
    then have pv: "parse_value f d (relimit l p1) = Inr (v, relimit l p2)"
      using "3.IH"(1) [OF more(1) refl refl more(2)] len by simp
    obtain ks1' where mk: "member_key f ks' (relimit l p) = Inr ((k, ks1'), relimit l p1)"
      and sub1: "reject_duplicate_keys l \<longrightarrow> ks1' \<subseteq> ks1"
      using lenient_member_key [OF more(1) len sub] by blast
    have "object_loop f d (bt_insert k v m) ks1' (relimit l (bump 1 (skip_ws p2)))
        = Inr (r, relimit l q)"
      using "3.IH"(2) [OF more(1) refl refl more(2) refl refl refl more(3,4) _ sub1] len lim by simp
    then show ?thesis
      using mk pv more(3) by (simp add: object_loop.simps [of f d m ks' "relimit l p"] Let_def)
  qed
qed

section \<open>Properties\<close>

lemma parse_Inr:
  "parse f s l = Inr v \<longleftrightarrow> length s \<le> max_bytes l \<and>
     (\<exists>p. parse_value f 0 \<lparr>p_text = s, p_at = 0, p_nodes = 0, p_limits = l\<rparr> = Inr (v, p)
          \<and> p_at (skip_ws p) = length s)"
  by (auto simp: parse_def Let_def split: sum.splits)

text \<open>
  C1. An accepted JSON text is within every limit: its bytes, the nesting depth of its value and the
  number of values in it do not exceed the limits it was parsed with, and every object of the value
  is a well-formed map (ascending keys, none twice).
\<close>

theorem parse_within_limits:
  assumes "parse f s l = Inr v"
  shows "length s \<le> max_bytes l \<and> json_depth v \<le> max_depth l \<and> json_nodes v \<le> max_nodes l
    \<and> json_ok v"
proof -
  obtain p where "length s \<le> max_bytes l"
    and "parse_value f 0 \<lparr>p_text = s, p_at = 0, p_nodes = 0, p_limits = l\<rparr> = Inr (v, p)"
    using assms by (auto simp: parse_Inr)
  then show ?thesis using parse_value_bounds by (fastforce simp: good_value_def)
qed

definition sample_limits :: limits where
  "sample_limits = \<lparr>max_bytes = 64, max_depth = 2, max_nodes = 8, reject_duplicate_keys = True\<rparr>"

text \<open>A stand-in for the token decoder: the bytes between the quotes, without escapes.\<close>

definition sample_strtok :: "bytes \<Rightarrow> string option" where
  "sample_strtok s = Some (butlast (tl s))"

definition sample_text :: string where
  "sample_text = [CHR ''['', CHR ''1'', CHR '','', CHR ''['', CHR ''t'', CHR ''r'', CHR ''u'', CHR ''e'', CHR '']'', CHR '']'']"

lemma parse_sample:
  "parse sample_strtok sample_text sample_limits = Inr (JArray [JNumber ''1'', JArray [JBool True] ])"
  by code_simp

theorem parse_within_limits_witness:
  "json_depth (JArray [JNumber ''1'', JArray [JBool True] ]) \<le> max_depth sample_limits"
  using parse_within_limits [OF parse_sample] by blast

text \<open>
  Relaxing any of the limits, or no longer rejecting duplicate keys, never changes an accepted
  result: the value read under the strict limits is the value read under the lenient ones.
\<close>

theorem parse_lenient:
  assumes "parse f s l = Inr v" and "lenient l l'"
  shows "parse f s l' = Inr v"
proof -
  let ?p = "\<lparr>p_text = s, p_at = 0, p_nodes = 0, p_limits = l\<rparr>"
  obtain p where p: "length s \<le> max_bytes l" "parse_value f 0 ?p = Inr (v, p)"
    "p_at (skip_ws p) = length s"
    using assms(1) by (auto simp: parse_Inr)
  then have "parse_value f 0 (relimit l' ?p) = Inr (v, relimit l' p)"
    using lenient_parse_value(1) assms(2) by fastforce
  then have "parse_value f 0 \<lparr>p_text = s, p_at = 0, p_nodes = 0, p_limits = l'\<rparr> = Inr (v, relimit l' p)"
    by (simp add: relimit_def)
  moreover have "p_at (skip_ws (relimit l' p)) = length s" using p(3) by simp
  ultimately show ?thesis using p(1) assms(2) unfolding parse_Inr lenient_def by (meson le_trans)
qed

theorem parse_lenient_witness:
  "parse sample_strtok sample_text (sample_limits\<lparr>reject_duplicate_keys := False, max_depth := 9\<rparr>)
     = Inr (JArray [JNumber ''1'', JArray [JBool True] ])"
  by (rule parse_lenient [OF parse_sample]) (simp add: lenient_def sample_limits_def)

text \<open>
  With duplicate keys rejected the parser loses nothing: the node counter grows by exactly the
  number of values in the result, so no member was overwritten by a later one of the same key.
\<close>

theorem parse_strict_keeps_every_node:
  assumes "parse_value f d p = Inr (v, q)" and "reject_duplicate_keys (p_limits p)"
  shows "p_nodes q = p_nodes p + json_nodes v"
  using assms by (rule parse_value_strict)

definition sample_state :: parser where
  "sample_state = \<lparr>p_text = sample_text, p_at = 0, p_nodes = 0, p_limits = sample_limits\<rparr>"

lemma parse_value_sample:
  "parse_value sample_strtok 0 sample_state
     = Inr (JArray [JNumber ''1'', JArray [JBool True] ], sample_state\<lparr>p_at := 10, p_nodes := 4\<rparr>)"
  by code_simp

theorem parse_strict_keeps_every_node_witness:
  "json_nodes (JArray [JNumber ''1'', JArray [JBool True] ]) = 4"
  using parse_strict_keeps_every_node [OF parse_value_sample]
  by (simp add: sample_state_def sample_limits_def)

end
