(* ===== verification/Protocol.thy ===== *)
theory Protocol
  imports Json_Parser
begin

text \<open>
  \<^verbatim>\<open>src/protocol.rs\<close>: the values of a model state, their ITF encoding and decoding, the messages
  of a session and their decoding.  Two conversions of \<^verbatim>\<open>num_bigint\<close> are parameters: \<open>bigint_str\<close>
  (\<^verbatim>\<open>BigInt::to_string\<close>) and \<open>bigint_of\<close> (\<^verbatim>\<open>str::parse::<BigInt>\<close>).  An error message is
  kept as a constructor with the data the program formats into it.
\<close>

section \<open>Values and states\<close>

datatype val =
    VInt int
  | VBool bool
  | VStr string
  | VSet "val list"
  | VSeq "val list"
  | VTuple "val list"
  | VMap "(val \<times> val) list"
  | VRecord "(string \<times> val) list"
  | VVariant string val
  | VUnserializable string
  | VNull

text \<open>\<^verbatim>\<open>BTreeMap<String, Value>\<close>.\<close>

type_synonym state = "(string \<times> val) list"

lemma size_record_entry [termination_simp]:
  "(k, v) \<in> set m \<Longrightarrow> size v < Suc (size_list (size_prod (\<lambda>x. 0) size) m)"
  by (induction m) auto

lemma size_map_entry [termination_simp]:
  "(k, v) \<in> set m \<Longrightarrow> size k < Suc (size_list (size_prod size size) m)"
  "(k, v) \<in> set m \<Longrightarrow> size v < Suc (size_list (size_prod size size) m)"
  by (induction m) auto

text \<open>The invariant of the type \<^verbatim>\<open>Value\<close>: every record in it is an ordered map.\<close>

fun val_ok :: "val \<Rightarrow> bool" where
  "val_ok (VSet vs) = (\<forall>v \<in> set vs. val_ok v)"
| "val_ok (VSeq vs) = (\<forall>v \<in> set vs. val_ok v)"
| "val_ok (VTuple vs) = (\<forall>v \<in> set vs. val_ok v)"
| "val_ok (VMap es) = (\<forall>(k, v) \<in> set es. val_ok k \<and> val_ok v)"
| "val_ok (VRecord r) = (bt_ok r \<and> (\<forall>(k, v) \<in> set r. val_ok v))"
| "val_ok (VVariant t v) = val_ok v"
| "val_ok _ = True"

datatype path_segment = Field string | Index nat

datatype diff_hint =
    ValueMismatch "path_segment list" val val
  | Missing "path_segment list" val
  | Extra "path_segment list" val
  | MissingElem "path_segment list" val
  | ExtraElem "path_segment list" val
  | TypeMismatch "path_segment list" val val
  | Truncated "path_segment list"

section \<open>Encoding a value\<close>

fun encode_value :: "(int \<Rightarrow> string) \<Rightarrow> val \<Rightarrow> json" where
  "encode_value bs (VInt n) = JObject [(''#bigint'', JString (bs n))]"
| "encode_value bs (VBool b) = JBool b"
| "encode_value bs (VStr s) = JString s"
| "encode_value bs (VSet items) = JObject [(''#set'', JArray (map (encode_value bs) items))]"
| "encode_value bs (VSeq items) = JArray (map (encode_value bs) items)"
| "encode_value bs (VTuple items) = JObject [(''#tup'', JArray (map (encode_value bs) items))]"
| "encode_value bs (VMap entries) =
     JObject [(''#map'',
       JArray (map (\<lambda>(k, v). JArray [encode_value bs k, encode_value bs v]) entries))]"
| "encode_value bs (VRecord rec) = JObject (bt_of_list (map (\<lambda>(k, v). (k, encode_value bs v)) rec))"
| "encode_value bs (VVariant tag v) =
     JObject [(''tag'', JString tag), (''value'', encode_value bs v)]"
| "encode_value bs (VUnserializable s) = JObject [(''#unserializable'', JString s)]"
| "encode_value bs VNull = JNull"

definition encode_state :: "(int \<Rightarrow> string) \<Rightarrow> state \<Rightarrow> json" where
  "encode_state bs state = JObject (bt_of_list (map (\<lambda>(k, v). (k, encode_value bs v)) state))"

section \<open>Looking into a value\<close>

fun as_int :: "val \<Rightarrow> int option" where
  "as_int (VInt n) = Some n" | "as_int _ = None"

fun as_str :: "val \<Rightarrow> string option" where
  "as_str (VStr s) = Some s" | "as_str _ = None"

fun as_record :: "val \<Rightarrow> state option" where
  "as_record (VRecord r) = Some r" | "as_record _ = None"

definition get_param :: "state \<Rightarrow> string \<Rightarrow> state option" where
  "get_param params var_name =
     (case bt_get params var_name of Some (VRecord r) \<Rightarrow> Some r | _ \<Rightarrow> None)"

text \<open>\<^verbatim>\<open>n.to_i64()\<close>: \<open>None\<close> where the integer does not fit 64 bits.\<close>

definition to_i64 :: "int \<Rightarrow> int option" where
  "to_i64 n = (if - (2 ^ 63) \<le> n \<and> n < 2 ^ 63 then Some n else None)"

definition get_param_int :: "state \<Rightarrow> string \<Rightarrow> string \<Rightarrow> int" where
  "get_param_int params var_name field =
     (case Option.bind (get_param params var_name) (\<lambda>r. bt_get r field) of
        Some (VInt n) \<Rightarrow> (case to_i64 n of Some i \<Rightarrow> i | None \<Rightarrow> 0)
      | _ \<Rightarrow> 0)"

definition show_int :: "int \<Rightarrow> string" where
  "show_int n = (if n < 0 then CHR ''-'' # show_nat (nat (- n)) else show_nat (nat n))"

fun prettify_value :: "(int \<Rightarrow> string) \<Rightarrow> val \<Rightarrow> json" where
  "prettify_value bs (VInt n) =
     (case to_i64 n of None \<Rightarrow> JString (bs n) | Some i \<Rightarrow> JNumber (show_int i))"
| "prettify_value bs (VBool b) = JBool b"
| "prettify_value bs (VStr s) = JString s"
| "prettify_value bs (VSet items) = JArray (map (prettify_value bs) items)"
| "prettify_value bs (VSeq items) = JArray (map (prettify_value bs) items)"
| "prettify_value bs (VTuple items) = JArray (map (prettify_value bs) items)"
| "prettify_value bs (VMap entries) =
     JArray (map (\<lambda>(k, v). JArray [prettify_value bs k, prettify_value bs v]) entries)"
| "prettify_value bs (VRecord rec) =
     JObject (bt_of_list (map (\<lambda>(k, v). (k, prettify_value bs v)) rec))"
| "prettify_value bs (VVariant tag v) =
     JObject [(''tag'', JString tag), (''value'', prettify_value bs v)]"
| "prettify_value bs (VUnserializable s) = JString s"
| "prettify_value bs VNull = JNull"

definition prettify_state :: "(int \<Rightarrow> string) \<Rightarrow> state \<Rightarrow> json" where
  "prettify_state bs state = JObject (bt_of_list (map (\<lambda>(k, v). (k, prettify_value bs v)) state))"

text \<open>Writing a tree as text does not fail for trees of this shape: \<open>render\<close> is total.\<close>

definition prettify_json :: "(json \<Rightarrow> string) \<Rightarrow> (int \<Rightarrow> string) \<Rightarrow> state \<Rightarrow> string" where
  "prettify_json render bs state = render (prettify_state bs state)"

section \<open>Decoding a value\<close>

text \<open>
  What \<^verbatim>\<open>invalid_value\<close> is called with.  \<open>ExponentPanic\<close> is not an error value of the
  program but the unwinding of \<^verbatim>\<open>number_to_bigint\<close> when its 64-bit arithmetic on the exponent
  overflows (the checked arithmetic of a debug or test build); like an error it ends the decoding.
\<close>

datatype itf_error =
    MalformedBigint string
  | MapEntryNotArray
  | MapEntryArity
  | VariantTagNotString
  | BadExponent
  | NotIntegral
  | MalformedInteger
  | ExponentPanic
  | NotAnObject string
  | MissingField string
  | NotAString string
  | HintPathNotArray
  | BadPathSegment
  | HintMissing string
  | HintNotObject
  | HintKindNotString
  | UnknownHintKind string
  | SpecResultWithoutInvalid
  | SpecResultShape
  | NotAnArray string
  | EntriesNotStrings string
  | OutcomeNotObject
  | UnknownOutcome
  | HintsNotArray
  | TracesNotArray
  | ProtoStepNotString
  | BadJobKind
  | BadJobPhase

definition number_to_bigint :: "(string \<Rightarrow> int option) \<Rightarrow> string \<Rightarrow> itf_error + int" where
  "number_to_bigint bigint_of n =
     (let (negative, unsigned) =
            (case strip_prefix n ''-'' of Some rest \<Rightarrow> (True, rest) | None \<Rightarrow> (False, n));
          split = (case split_once (\<lambda>c. c = CHR ''e'' \<or> c = CHR ''E'') unsigned of
             Some (m, e) \<Rightarrow> (m, parse_i64 e) | None \<Rightarrow> (unsigned, Some 0))
      in case snd split of
           None \<Rightarrow> Inl BadExponent
         | Some exponent \<Rightarrow>
             (let (whole, fraction) =
                    (case split_once (\<lambda>c. c = CHR ''.'') (fst split) of
                       Some parts \<Rightarrow> parts | None \<Rightarrow> (fst split, []));
                  digits = whole @ fraction;
                  scale = exponent - int (length fraction);
                  finish = (\<lambda>ds. case bigint_of (if negative then CHR ''-'' # ds else ds) of
                     None \<Rightarrow> Inl MalformedInteger | Some k \<Rightarrow> Inr k)
              in if scale < - (2 ^ 63) then Inl ExponentPanic
                 else if 0 \<le> scale then finish (digits @ replicate (nat scale) (CHR ''0''))
                 else if scale = - (2 ^ 63) then Inl ExponentPanic
                 else
                   (let remove = nat (- scale)
                    in if remove > length digits
                         \<or> \<not> list_all (\<lambda>b. b = CHR ''0'') (drop (length digits - remove) digits)
                       then Inl NotIntegral
                       else
                         (let ds = take (length digits - remove) digits
                          in finish (if ds = [] then ''0'' else ds)))))"

text \<open>\<^verbatim>\<open>obj.get(key).filter(|_| obj.len() == 1)\<close>.\<close>

definition only_field :: "jobject \<Rightarrow> string \<Rightarrow> json option" where
  "only_field obj key = (if length obj = 1 then bt_get obj key else None)"

lemma size_bt_get: "bt_get obj k = Some j \<Longrightarrow> size j < Suc (size_list (size_prod (\<lambda>x. 0) size) obj)"
  by (auto dest!: map_of_SomeD intro: size_object_entry)

lemma size_only_field [termination_simp]:
  "only_field obj k = Some j \<Longrightarrow> size j < Suc (size_list (size_prod (\<lambda>x. 0) size) obj)"
  by (auto simp: only_field_def size_bt_get split: if_splits)

lemma size_only_field_item [termination_simp]:
  assumes "only_field obj k = Some (JArray items)" and "x \<in> set items"
  shows "size x < Suc (size_list (size_prod (\<lambda>x. 0) size) obj)"
proof -
  have "size x \<le> size_list size items" using assms(2) by (simp add: size_list_estimation')
  also have "\<dots> < size (JArray items)" by simp
  also have "\<dots> < Suc (size_list (size_prod (\<lambda>x. 0) size) obj)" using assms(1) by (rule size_only_field)
  finally show ?thesis .
qed

lemma size_only_field_pair [termination_simp]:
  assumes "only_field obj k = Some (JArray items)" and "JArray [x, y] \<in> set items"
  shows "size x < Suc (size_list (size_prod (\<lambda>x. 0) size) obj)"
    and "size y < Suc (size_list (size_prod (\<lambda>x. 0) size) obj)"
  using size_only_field_item [OF assms] by auto

fun array_items :: "json option \<Rightarrow> json list option" where
  "array_items (Some (JArray items)) = Some items"
| "array_items _ = None"

fun string_value :: "json option \<Rightarrow> string option" where
  "string_value (Some (JString s)) = Some s"
| "string_value _ = None"

lemma array_items_Some [simp]: "array_items x = Some items \<longleftrightarrow> x = Some (JArray items)"
  by (cases x rule: array_items.cases) auto

lemma string_value_Some [simp]: "string_value x = Some s \<longleftrightarrow> x = Some (JString s)"
  by (cases x rule: string_value.cases) auto

function walk :: "(string \<Rightarrow> int option) \<Rightarrow> json \<Rightarrow> itf_error + val" where
  "walk bo JNull = Inr VNull"
| "walk bo (JBool b) = Inr (VBool b)"
| "walk bo (JString s) = Inr (VStr s)"
| "walk bo (JNumber n) =
     (case number_to_bigint bo n of Inl e \<Rightarrow> Inl e | Inr k \<Rightarrow> Inr (VInt k))"
| "walk bo (JArray items) =
     (case collect_results (walk bo) items of Inl e \<Rightarrow> Inl e | Inr vs \<Rightarrow> Inr (VSeq vs))"
| "walk bo (JObject obj) =
     (case string_value (only_field obj ''#bigint'') of
        Some raw \<Rightarrow>
          (if raw = [] then Inr VNull
           else case bo raw of None \<Rightarrow> Inl (MalformedBigint raw) | Some k \<Rightarrow> Inr (VInt k))
      | None \<Rightarrow>
     (case array_items (only_field obj ''#tup'') of
        Some items \<Rightarrow>
          (case collect_results (walk bo) items of Inl e \<Rightarrow> Inl e | Inr vs \<Rightarrow> Inr (VTuple vs))
      | None \<Rightarrow>
     (case array_items (only_field obj ''#set'') of
        Some items \<Rightarrow>
          (case collect_results (walk bo) items of Inl e \<Rightarrow> Inl e | Inr vs \<Rightarrow> Inr (VSet vs))
      | None \<Rightarrow>
     (case array_items (only_field obj ''#map'') of
        Some entries \<Rightarrow>
          (case collect_results
                  (\<lambda>entry. case entry of
                     JArray pair \<Rightarrow>
                       (case pair of
                          [k, v] \<Rightarrow>
                            (case walk bo k of
                               Inl e \<Rightarrow> Inl e
                             | Inr k' \<Rightarrow> (case walk bo v of Inl e \<Rightarrow> Inl e | Inr v' \<Rightarrow> Inr (k', v')))
                        | _ \<Rightarrow> Inl MapEntryArity)
                   | _ \<Rightarrow> Inl MapEntryNotArray) entries of
             Inl e \<Rightarrow> Inl e
           | Inr pairs \<Rightarrow> Inr (VMap pairs))
      | None \<Rightarrow>
     (case string_value (only_field obj ''#unserializable'') of
        Some raw \<Rightarrow> Inr (VUnserializable raw)
      | None \<Rightarrow>
        if length obj = 2 \<and> bt_contains obj ''tag'' \<and> bt_contains obj ''value'' then
          (case string_value (bt_get obj ''tag'') of
             None \<Rightarrow> Inl VariantTagNotString
           | Some tag \<Rightarrow>
               (case bt_get obj ''value'' of
                  Some j \<Rightarrow> (case walk bo j of Inl e \<Rightarrow> Inl e | Inr v \<Rightarrow> Inr (VVariant tag v))
                | None \<Rightarrow> Inl VariantTagNotString))
        else
          (case collect_results
                  (\<lambda>(k, iv). case walk bo iv of Inl e \<Rightarrow> Inl e | Inr v \<Rightarrow> Inr (k, v)) obj of
             Inl e \<Rightarrow> Inl e
           | Inr kvs \<Rightarrow> Inr (VRecord (bt_of_list kvs))))))))"
  by pat_completeness auto
termination
proof (relation "measure (\<lambda>(bo, j). size j)", goal_cases)
  case 1
  show ?case by simp
next
  case 2
  then show ?case by (simp add: size_list_estimation' less_Suc_eq_le)
qed (auto simp: size_only_field_item size_only_field_pair size_only_field size_bt_get
       size_object_entry)


declare walk.simps(6) [simp del]

section \<open>Messages\<close>

record apalache_spec = sources :: "string list"

record apalache_config =
  spec_path :: string
  init_predicate :: "string option"
  next_predicate :: "string option"
  const_init :: "string option"
  invariant :: string
  length_bound :: int
  param_vars :: "string option"

record trace_generation_config =
  num_traces :: int
  view :: "string option"

datatype client_message =
    Register apalache_config trace_generation_config "apalache_spec option"
  | RegisterTraces apalache_config "string list"
  | RegisterTraceGen apalache_config trace_generation_config "string option" "apalache_spec option"
  | RegisterValidate apalache_config nat "apalache_spec option"
  | RegisterValidateAsync apalache_config nat "apalache_spec option"
  | RegisterTraceGenAsync apalache_config trace_generation_config "string option" "apalache_spec option"
  | QueryJob string
  | AwaitJob string "nat option"
  | CancelJob string
  | ReportState state

datatype spec_result = Valid | Invalid string

datatype job_kind = KindValidate | KindGenTraces

datatype job_phase = Pending | Running | Done | Failed | Cancelled | Unknown

datatype job_outcome =
    OutcomeValidate spec_result
  | OutcomeGenTraces "string list" "json list"
  | InfraError string

datatype mirror_message =
    MSpecValidated spec_result
  | MInitialState string state
  | MNextStep string state
  | MStepOk
  | MStepMismatch "string option" state state "diff_hint list"
  | MAllStepsDone
  | MGenTracesDone "string list" "json list"
  | MProtocolError string
  | MRegisterError string
  | MJobAccepted string job_kind
  | MJobStatus string job_phase
  | MJobResult string job_outcome

subsection \<open>The errors of the crate\<close>

text \<open>
  \<^verbatim>\<open>lib.rs\<close>'s \<^verbatim>\<open>Error\<close>.  A protocol error is the peer's text, or a message this crate formats
  from a decoding failure.
\<close>

datatype protocol_text =
    PeerText string
  | InvalidItf itf_error
  | InvalidJson json_error

datatype error =
    ESpecInvalid string
  | EProtocolError protocol_text
  | ERegisterFailed string
  | EStepMismatch string state state state "diff_hint list"
  | EUnexpectedMessage string mirror_message
  | EInvalidArgument string
  | ESpecSource string
  | ETransportClosed
  | ETls string
  | ERegistry string
  | EIo string
  | EJson string

section \<open>Encoding a client message\<close>

text \<open>
  What the serialisers derived for the message types hand to \<^verbatim>\<open>serde_json\<close>: the fields in the
  order of the declaration, the tag \<^verbatim>\<open>proto_step\<close> first, an absent optional field left out where
  the type says \<^verbatim>\<open>skip_serializing_if\<close> and \<^verbatim>\<open>null\<close> otherwise.  Writing the tree
  out as text is \<^verbatim>\<open>serde_json::to_string\<close>, the parameter \<open>render\<close>.
\<close>

definition opt_field :: "string \<Rightarrow> ('a \<Rightarrow> json) \<Rightarrow> 'a option \<Rightarrow> (string \<times> json) list" where
  "opt_field k f x = (case x of None \<Rightarrow> [] | Some y \<Rightarrow> [(k, f y)])"

definition strings_json :: "string list \<Rightarrow> json" where
  "strings_json ss = JArray (map JString ss)"

definition spec_json :: "apalache_spec \<Rightarrow> json" where
  "spec_json s = JObject [(''sources'', strings_json (sources s))]"

definition config_json :: "apalache_config \<Rightarrow> json" where
  "config_json c = JObject
     ([(''specPath'', JString (spec_path c))]
      @ opt_field ''initPredicate'' JString (init_predicate c)
      @ opt_field ''nextPredicate'' JString (next_predicate c)
      @ opt_field ''constInit'' JString (const_init c)
      @ [(''invariant'', JString (invariant c)), (''lengthBound'', JNumber (show_int (length_bound c)))]
      @ opt_field ''paramVars'' JString (param_vars c))"

definition trace_config_json :: "trace_generation_config \<Rightarrow> json" where
  "trace_config_json c = JObject
     ([(''numTraces'', JNumber (show_int (num_traces c)))] @ opt_field ''view'' JString (view c))"

fun client_fields :: "(int \<Rightarrow> string) \<Rightarrow> client_message \<Rightarrow> (string \<times> json) list" where
  "client_fields bs (Register c tc s) =
     [(''proto_step'', JString ''register''), (''apalacheConfig'', config_json c),
      (''traceConfig'', trace_config_json tc)] @ opt_field ''spec'' spec_json s"
| "client_fields bs (RegisterTraces c paths) =
     [(''proto_step'', JString ''register_traces''), (''apalacheConfig'', config_json c),
      (''itfTracePaths'', strings_json paths)]"
| "client_fields bs (RegisterTraceGen c tc dest s) =
     [(''proto_step'', JString ''register_trace_gen''), (''apalacheConfig'', config_json c),
      (''traceConfig'', trace_config_json tc),
      (''destPath'', (case dest of None \<Rightarrow> JNull | Some d \<Rightarrow> JString d))]
     @ opt_field ''spec'' spec_json s"
| "client_fields bs (RegisterValidate c bound s) =
     [(''proto_step'', JString ''register_validate''), (''apalacheConfig'', config_json c),
      (''bound'', json_nat bound)] @ opt_field ''spec'' spec_json s"
| "client_fields bs (RegisterValidateAsync c bound s) =
     [(''proto_step'', JString ''register_validate_async''), (''apalacheConfig'', config_json c),
      (''bound'', json_nat bound)] @ opt_field ''spec'' spec_json s"
| "client_fields bs (RegisterTraceGenAsync c tc dest s) =
     [(''proto_step'', JString ''register_trace_gen_async''), (''apalacheConfig'', config_json c),
      (''traceConfig'', trace_config_json tc)]
     @ opt_field ''destPath'' JString dest @ opt_field ''spec'' spec_json s"
| "client_fields bs (QueryJob j) =
     [(''proto_step'', JString ''query_job''), (''jobId'', JString j)]"
| "client_fields bs (AwaitJob j timeout) =
     [(''proto_step'', JString ''await_job''), (''jobId'', JString j)]
     @ opt_field ''timeoutSecs'' json_nat timeout"
| "client_fields bs (CancelJob j) =
     [(''proto_step'', JString ''cancel_job''), (''jobId'', JString j)]"
| "client_fields bs (ReportState s) =
     [(''proto_step'', JString ''report_state''), (''state'', encode_state bs s)]"

definition encode_client_message ::
    "(json \<Rightarrow> string) \<Rightarrow> (int \<Rightarrow> string) \<Rightarrow> client_message \<Rightarrow> string" where
  "encode_client_message render bs msg = render (JObject (client_fields bs msg))"

section \<open>Decoding a mirror message\<close>

definition walk_record ::
    "(string \<Rightarrow> int option) \<Rightarrow> json option \<Rightarrow> string \<Rightarrow> itf_error + state" where
  "walk_record bo v field =
     (case v of
        Some j \<Rightarrow>
          (case walk bo j of
             Inl e \<Rightarrow> Inl e
           | Inr w \<Rightarrow> (case w of VRecord r \<Rightarrow> Inr r | _ \<Rightarrow> Inl (NotAnObject field)))
      | None \<Rightarrow> Inl (MissingField field))"

definition str_field :: "jobject \<Rightarrow> string \<Rightarrow> itf_error + string" where
  "str_field obj key =
     (case Option.bind (bt_get obj key) json_str of
        Some s \<Rightarrow> Inr s | None \<Rightarrow> Inl (NotAString key))"

definition decode_path_segment :: "json \<Rightarrow> itf_error + path_segment" where
  "decode_path_segment part =
     (case part of
        JObject obj \<Rightarrow>
          if length obj = 1 then
            (case bt_get obj ''field'' of
               Some (JString field) \<Rightarrow> Inr (Field field)
             | _ \<Rightarrow> (case Option.bind (bt_get obj ''index'') as_u64 of
                 Some index \<Rightarrow> Inr (Index index)
               | None \<Rightarrow> Inl BadPathSegment))
          else Inl BadPathSegment
      | _ \<Rightarrow> Inl BadPathSegment)"

definition path_segments :: "json option \<Rightarrow> itf_error + path_segment list" where
  "path_segments v =
     (case v of Some (JArray parts) \<Rightarrow> collect_results decode_path_segment parts | _ \<Rightarrow> Inl HintPathNotArray)"

definition hint_value :: "(string \<Rightarrow> int option) \<Rightarrow> jobject \<Rightarrow> string \<Rightarrow> itf_error + val" where
  "hint_value bo obj key =
     (case bt_get obj key of None \<Rightarrow> Inl (HintMissing key) | Some j \<Rightarrow> walk bo j)"

text \<open>The operator \<^verbatim>\<open>?\<close>.\<close>

definition try_ok :: "'e + 'a \<Rightarrow> ('a \<Rightarrow> 'e + 'b) \<Rightarrow> 'e + 'b" where
  "try_ok r f = (case r of Inl e \<Rightarrow> Inl e | Inr x \<Rightarrow> f x)"

lemma try_ok_simps [simp]: "try_ok (Inl e) f = Inl e" "try_ok (Inr x) f = f x"
  by (simp_all add: try_ok_def)

lemma try_ok_Inr [simp]: "try_ok r f = Inr y \<longleftrightarrow> (\<exists>x. r = Inr x \<and> f x = Inr y)"
  by (cases r) auto

lemma try_ok_Inl: "try_ok r f = Inl e \<longleftrightarrow> r = Inl e \<or> (\<exists>x. r = Inr x \<and> f x = Inl e)"
  by (cases r) auto

lemma try_ok_cong [fundef_cong]:
  "r = r' \<Longrightarrow> (\<And>x. r' = Inr x \<Longrightarrow> f x = g x) \<Longrightarrow> try_ok r f = try_ok r' g"
  by (cases r') auto

definition decode_hint :: "(string \<Rightarrow> int option) \<Rightarrow> json \<Rightarrow> itf_error + diff_hint" where
  "decode_hint bo v =
     (case v of
        JObject obj \<Rightarrow>
          (case Option.bind (bt_get obj ''kind'') json_str of
             None \<Rightarrow> Inl HintKindNotString
           | Some kind \<Rightarrow>
               try_ok (path_segments (bt_get obj ''path'')) (\<lambda>path.
                 let expected = hint_value bo obj ''expected''; actual = hint_value bo obj ''actual''
                 in if kind = ''value_mismatch'' then
                      try_ok expected (\<lambda>e. try_ok actual (\<lambda>a. Inr (ValueMismatch path e a)))
                    else if kind = ''missing'' then try_ok expected (\<lambda>e. Inr (Missing path e))
                    else if kind = ''extra'' then try_ok actual (\<lambda>a. Inr (Extra path a))
                    else if kind = ''missing_elem'' then try_ok expected (\<lambda>e. Inr (MissingElem path e))
                    else if kind = ''extra_elem'' then try_ok actual (\<lambda>a. Inr (ExtraElem path a))
                    else if kind = ''type_mismatch'' then
                      try_ok expected (\<lambda>e. try_ok actual (\<lambda>a. Inr (TypeMismatch path e a)))
                    else if kind = ''truncated'' then Inr (Truncated path)
                    else Inl (UnknownHintKind kind)))
      | _ \<Rightarrow> Inl HintNotObject)"

definition decode_spec_result :: "json option \<Rightarrow> itf_error + spec_result" where
  "decode_spec_result v =
     (case v of
        Some (JString s) \<Rightarrow> if s = ''valid'' then Inr Valid else Inl SpecResultShape
      | Some (JObject result) \<Rightarrow>
          (case Option.bind (bt_get result ''invalid'') json_str of
             Some detail \<Rightarrow> Inr (Invalid detail)
           | None \<Rightarrow> Inl SpecResultWithoutInvalid)
      | _ \<Rightarrow> Inl SpecResultShape)"

definition string_array :: "json option \<Rightarrow> string \<Rightarrow> itf_error + string list" where
  "string_array v field =
     (case Option.bind v as_array of
        None \<Rightarrow> Inl (NotAnArray field)
      | Some entries \<Rightarrow>
          collect_results
            (\<lambda>entry. case json_str entry of
               Some s \<Rightarrow> Inr s | None \<Rightarrow> Inl (EntriesNotStrings field)) entries)"

text \<open>The optional array of traces of \<^verbatim>\<open>gen_traces_done\<close> and of a job's outcome.\<close>

definition trace_array :: "json option \<Rightarrow> itf_error + json list" where
  "trace_array v =
     (case v of None \<Rightarrow> Inr [] | Some (JArray traces) \<Rightarrow> Inr traces | Some _ \<Rightarrow> Inl TracesNotArray)"

definition decode_job_outcome :: "json option \<Rightarrow> itf_error + job_outcome" where
  "decode_job_outcome v =
     (case Option.bind v as_object of
        None \<Rightarrow> Inl OutcomeNotObject
      | Some outcome \<Rightarrow>
          (case bt_get outcome ''validate'' of
             Some validate \<Rightarrow>
               try_ok (decode_spec_result (Some validate)) (\<lambda>r. Inr (OutcomeValidate r))
           | None \<Rightarrow>
          (case Option.bind (bt_get outcome ''genTraces'') as_object of
             Some gen \<Rightarrow>
               try_ok (string_array (bt_get gen ''itfTracePaths'') ''itfTracePaths'') (\<lambda>paths.
               try_ok (trace_array (bt_get gen ''itfTraces'')) (\<lambda>traces.
               Inr (OutcomeGenTraces paths traces)))
           | None \<Rightarrow>
          (case Option.bind (bt_get outcome ''error'') json_str of
             Some e \<Rightarrow> Inr (InfraError e)
           | None \<Rightarrow> Inl UnknownOutcome))))"

definition decode_job_kind :: "json option \<Rightarrow> itf_error + job_kind" where
  "decode_job_kind v =
     (case Option.bind v json_str of
        Some s \<Rightarrow>
          if s = ''validate'' then Inr KindValidate
          else if s = ''gen_traces'' then Inr KindGenTraces
          else Inl BadJobKind
      | None \<Rightarrow> Inl BadJobKind)"

definition decode_job_phase :: "json option \<Rightarrow> itf_error + job_phase" where
  "decode_job_phase v =
     (case Option.bind v json_str of
        Some s \<Rightarrow>
          if s = ''pending'' then Inr Pending
          else if s = ''running'' then Inr Running
          else if s = ''done'' then Inr Done
          else if s = ''failed'' then Inr Failed
          else if s = ''cancelled'' then Inr Cancelled
          else if s = ''unknown'' then Inr Unknown
          else Inl BadJobPhase
      | None \<Rightarrow> Inl BadJobPhase)"

definition decode_hints :: "(string \<Rightarrow> int option) \<Rightarrow> json option \<Rightarrow> itf_error + diff_hint list" where
  "decode_hints bo v =
     (case v of
        None \<Rightarrow> Inr []
      | Some (JArray hints) \<Rightarrow> collect_results (decode_hint bo) hints
      | Some _ \<Rightarrow> Inl HintsNotArray)"

definition walk_message :: "(string \<Rightarrow> int option) \<Rightarrow> jobject \<Rightarrow> itf_error + mirror_message" where
  "walk_message bo obj =
     (case Option.bind (bt_get obj ''proto_step'') json_str of
        None \<Rightarrow> Inl ProtoStepNotString
      | Some step \<Rightarrow>
          if step = ''spec_validated'' then
            try_ok (decode_spec_result (bt_get obj ''result'')) (\<lambda>r. Inr (MSpecValidated r))
          else if step = ''initial_state'' then
            try_ok (str_field obj ''action'') (\<lambda>a.
            try_ok (walk_record bo (bt_get obj ''state'') ''state'') (\<lambda>s. Inr (MInitialState a s)))
          else if step = ''next_step'' then
            try_ok (str_field obj ''action'') (\<lambda>a.
            try_ok (walk_record bo (bt_get obj ''parameters'') ''parameters'') (\<lambda>s. Inr (MNextStep a s)))
          else if step = ''step_ok'' then Inr MStepOk
          else if step = ''step_mismatch'' then
            try_ok (walk_record bo (bt_get obj ''expected'') ''expected'') (\<lambda>e.
            try_ok (walk_record bo (bt_get obj ''actual'') ''actual'') (\<lambda>a.
            try_ok (decode_hints bo (bt_get obj ''hints'')) (\<lambda>hs.
            Inr (MStepMismatch (Option.bind (bt_get obj ''action'') json_str) e a hs))))
          else if step = ''all_steps_done'' then Inr MAllStepsDone
          else if step = ''gen_traces_done'' then
            try_ok (string_array (bt_get obj ''itfTracePaths'') ''itfTracePaths'') (\<lambda>paths.
            try_ok (trace_array (bt_get obj ''itfTraces'')) (\<lambda>traces.
            Inr (MGenTracesDone paths traces)))
          else if step = ''protocol_error'' then
            try_ok (str_field obj ''error'') (\<lambda>e. Inr (MProtocolError e))
          else if step = ''register_error'' then
            try_ok (str_field obj ''error'') (\<lambda>e. Inr (MRegisterError e))
          else if step = ''job_accepted'' then
            try_ok (str_field obj ''jobId'') (\<lambda>j.
            try_ok (decode_job_kind (bt_get obj ''kind'')) (\<lambda>k. Inr (MJobAccepted j k)))
          else if step = ''job_status'' then
            try_ok (str_field obj ''jobId'') (\<lambda>j.
            try_ok (decode_job_phase (bt_get obj ''phase'')) (\<lambda>p. Inr (MJobStatus j p)))
          else if step = ''job_result'' then
            try_ok (str_field obj ''jobId'') (\<lambda>j.
            try_ok (decode_job_outcome (bt_get obj ''outcome'')) (\<lambda>r. Inr (MJobResult j r)))
          else Inr (MProtocolError (''unknown proto_step: '' @ step)))"

definition message_limits :: limits where
  "message_limits =
     \<lparr>max_bytes = 2 ^ 64 - 1, max_depth = 128, max_nodes = 16384, reject_duplicate_keys = False\<rparr>"

definition decode_mirror_message ::
    "(bytes \<Rightarrow> string option) \<Rightarrow> (string \<Rightarrow> int option) \<Rightarrow> string \<Rightarrow> error + mirror_message" where
  "decode_mirror_message strtok bo line =
     (case parse strtok line message_limits of
        Inl e \<Rightarrow> Inl (EProtocolError (InvalidJson e))
      | Inr raw \<Rightarrow>
          (case raw of
             JObject obj \<Rightarrow>
               (case walk_message bo obj of
                  Inl e \<Rightarrow> Inl (EProtocolError (InvalidItf e)) | Inr m \<Rightarrow> Inr m)
           | _ \<Rightarrow> Inr (MProtocolError ''expected a JSON object'')))"


section \<open>Shapes of an encoded object\<close>

text \<open>How \<open>walk\<close> reads each shape of object, so that the proofs below need not unfold it.\<close>

lemma walk_bigint:
  "walk bo (JObject [(''#bigint'', JString raw)]) =
     (if raw = [] then Inr VNull
      else case bo raw of None \<Rightarrow> Inl (MalformedBigint raw) | Some k \<Rightarrow> Inr (VInt k))"
  by (simp add: walk.simps(6) only_field_def)

lemma walk_array:
  "walk bo (JArray items) = try_ok (collect_results (walk bo) items) (\<lambda>vs. Inr (VSeq vs))"
  by (simp add: try_ok_def)

declare walk.simps(5) [simp del]

lemma walk_tup:
  "walk bo (JObject [(''#tup'', JArray items)]) =
     try_ok (collect_results (walk bo) items) (\<lambda>vs. Inr (VTuple vs))"
  by (simp add: walk.simps(6) only_field_def try_ok_def)

lemma walk_set:
  "walk bo (JObject [(''#set'', JArray items)]) =
     try_ok (collect_results (walk bo) items) (\<lambda>vs. Inr (VSet vs))"
  by (simp add: walk.simps(6) only_field_def try_ok_def)

definition walk_pair :: "(string \<Rightarrow> int option) \<Rightarrow> json \<Rightarrow> itf_error + val \<times> val" where
  "walk_pair bo entry =
     (case entry of
        JArray pair \<Rightarrow>
          (case pair of
             [k, v] \<Rightarrow> try_ok (walk bo k) (\<lambda>k'. try_ok (walk bo v) (\<lambda>v'. Inr (k', v')))
           | _ \<Rightarrow> Inl MapEntryArity)
      | _ \<Rightarrow> Inl MapEntryNotArray)"

lemma walk_map:
  "walk bo (JObject [(''#map'', JArray entries)]) =
     try_ok (collect_results (walk_pair bo) entries) (\<lambda>ps. Inr (VMap ps))"
  by (simp add: walk.simps(6) only_field_def try_ok_def walk_pair_def [abs_def])

lemma walk_unserializable:
  "walk bo (JObject [(''#unserializable'', JString raw)]) = Inr (VUnserializable raw)"
  by (simp add: walk.simps(6) only_field_def)

lemma walk_variant:
  "walk bo (JObject [(''tag'', t), (''value'', j)]) =
     (case t of JString tag \<Rightarrow> try_ok (walk bo j) (\<lambda>v. Inr (VVariant tag v)) | _ \<Rightarrow> Inl VariantTagNotString)"
  by (cases t) (simp_all add: walk.simps(6) only_field_def try_ok_def bt_contains_def)

text \<open>An object that is none of the tagged shapes is a record.\<close>

definition plain_object :: "jobject \<Rightarrow> bool" where
  "plain_object obj \<longleftrightarrow>
     (case obj of
        [(k, j)] \<Rightarrow>
          \<not> (k \<in> {''#bigint'', ''#unserializable''} \<and> json_str j \<noteq> None)
          \<and> \<not> (k \<in> {''#tup'', ''#set'', ''#map''} \<and> as_array j \<noteq> None)
      | _ \<Rightarrow> map fst obj \<noteq> [''tag'', ''value''])"

definition walk_member :: "(string \<Rightarrow> int option) \<Rightarrow> string \<times> json \<Rightarrow> itf_error + string \<times> val" where
  "walk_member bo e = (case e of (k, j) \<Rightarrow> try_ok (walk bo j) (\<lambda>v. Inr (k, v)))"

lemma two_keys:
  assumes "bt_ok obj" and "length obj = 2" and "bt_contains obj a" and "bt_contains obj b" and "a < b"
  shows "map fst obj = [a, b]"
proof -
  obtain x y where xy: "map fst obj = [x, y]"
    using assms(2) by (cases obj; cases "tl obj") auto
  have "a \<in> set (map fst obj)" "b \<in> set (map fst obj)"
    using assms(3,4) by (auto simp: bt_contains_def map_of_eq_None_iff)
  moreover have "x < y" using assms(1) xy by (simp add: bt_ok_def)
  ultimately show ?thesis using assms(5) xy by auto
qed

lemma only_field_single: "only_field obj k = Some j \<Longrightarrow> obj = [(k, j)]"
  by (cases obj rule: remdups_adj.cases) (auto simp: only_field_def split: if_splits)

lemma walk_plain:
  assumes "bt_ok obj" and "plain_object obj"
  shows "walk bo (JObject obj) =
    try_ok (collect_results (walk_member bo) obj) (\<lambda>kvs. Inr (VRecord (bt_of_list kvs)))"
proof -
  have str: "string_value (only_field obj k) = None" if "k \<in> {''#bigint'', ''#unserializable''}" for k
  proof (rule ccontr)
    assume "string_value (only_field obj k) \<noteq> None"
    then obtain s where "only_field obj k = Some (JString s)" by auto
    then show False using that assms(2) by (auto dest!: only_field_single simp: plain_object_def)
  qed
  have arr: "array_items (only_field obj k) = None" if "k \<in> {''#tup'', ''#set'', ''#map''}" for k
  proof (rule ccontr)
    assume "array_items (only_field obj k) \<noteq> None"
    then obtain s where "only_field obj k = Some (JArray s)" by auto
    then show False using that assms(2) by (auto dest!: only_field_single simp: plain_object_def)
  qed
  have two: "(length obj = 2 \<and> bt_contains obj ''tag'' \<and> bt_contains obj ''value'') = False"
  proof (rule Eq_FalseI [THEN meta_eq_to_obj_eq], rule notI)
    assume "length obj = 2 \<and> bt_contains obj ''tag'' \<and> bt_contains obj ''value''"
    then have "map fst obj = [''tag'', ''value'']" using two_keys [OF assms(1)] by simp
    then show False using assms(2) by (cases obj; cases "tl obj") (auto simp: plain_object_def)
  qed
  have none: "string_value (only_field obj ''#bigint'') = None"
    "string_value (only_field obj ''#unserializable'') = None"
    "array_items (only_field obj ''#tup'') = None" "array_items (only_field obj ''#set'') = None"
    "array_items (only_field obj ''#map'') = None"
    using str arr by blast+
  show ?thesis
    unfolding walk.simps(6) try_ok_def walk_member_def [abs_def]
    by (simp only: none two option.case if_False)
qed

lemma walk_tagged_not_record:
  assumes "\<not> plain_object obj"
  shows "walk bo (JObject obj) \<noteq> Inr (VRecord r)"
proof -
  consider (one) k j where "obj = [(k, j)]" | (two) t j where "obj = [(''tag'', t), (''value'', j)]"
    using assms by (auto simp: plain_object_def split: list.splits)
  then show ?thesis
  proof cases
    case one
    then have "(k \<in> {''#bigint'', ''#unserializable''} \<and> (\<exists>s. j = JString s))
        \<or> (k \<in> {''#tup'', ''#set'', ''#map''} \<and> (\<exists>vs. j = JArray vs))"
      using assms by (auto simp: plain_object_def)
    then show ?thesis
      using one by (auto simp: walk_bigint walk_unserializable walk_tup walk_set walk_map split: option.splits if_splits)
  next
    case two
    then show ?thesis by (auto simp: walk_variant split: json.splits)
  qed
qed


section \<open>Which values survive the wire\<close>

text \<open>
  A record whose fields look like one of the tagged shapes is read back as that shape.  Everything
  else survives: \<open>wire_value\<close> is the exact condition.
\<close>

definition is_seq :: "val \<Rightarrow> bool" where
  "is_seq v \<longleftrightarrow> (case v of VSeq _ \<Rightarrow> True | _ \<Rightarrow> False)"

definition record_plain :: "state \<Rightarrow> bool" where
  "record_plain r \<longleftrightarrow>
     (case r of
        [(k, v)] \<Rightarrow>
          \<not> (k \<in> {''#bigint'', ''#unserializable''} \<and> as_str v \<noteq> None)
          \<and> \<not> (k \<in> {''#tup'', ''#set'', ''#map''} \<and> is_seq v)
      | _ \<Rightarrow> map fst r \<noteq> [''tag'', ''value''])"

fun wire_value :: "val \<Rightarrow> bool" where
  "wire_value (VSet vs) = (\<forall>v \<in> set vs. wire_value v)"
| "wire_value (VSeq vs) = (\<forall>v \<in> set vs. wire_value v)"
| "wire_value (VTuple vs) = (\<forall>v \<in> set vs. wire_value v)"
| "wire_value (VMap es) = (\<forall>(k, v) \<in> set es. wire_value k \<and> wire_value v)"
| "wire_value (VRecord r) = (bt_ok r \<and> record_plain r \<and> (\<forall>(k, v) \<in> set r. wire_value v))"
| "wire_value (VVariant t v) = wire_value v"
| "wire_value _ = True"

lemma json_str_encode: "json_str (encode_value bs v) = as_str v"
  by (cases v) auto

lemma as_array_encode: "as_array (encode_value bs v) \<noteq> None \<longleftrightarrow> is_seq v"
  by (cases v) (auto simp: is_seq_def)

lemma plain_object_encode:
  "plain_object (map (\<lambda>(k, v). (k, encode_value bs v)) r) \<longleftrightarrow> record_plain r"
  using json_str_encode as_array_encode
  by (auto simp: plain_object_def record_plain_def split: list.splits)

lemma wire_value_ok: "wire_value v \<Longrightarrow> val_ok v"
  by (induction v rule: wire_value.induct) auto

lemma collect_map_iff:
  assumes "\<And>x. x \<in> set xs \<Longrightarrow> f (g x) = Inr x \<longleftrightarrow> P x"
  shows "collect_results f (map g xs) = Inr xs \<longleftrightarrow> (\<forall>x \<in> set xs. P x)"
  using assms by (simp add: collect_results_Inr_iff list_all2_map1 list_all2_same)

text \<open>
  The interface of \<^verbatim>\<open>num_bigint\<close> the protocol relies on: a printed integer is not empty and
  reads back as itself.
\<close>

locale bigint_text =
  fixes bs :: "int \<Rightarrow> string" and bo :: "string \<Rightarrow> int option"
  assumes printed: "bs n \<noteq> []" and reads_back: "bo (bs n) = Some n"
begin

lemma walk_encode_iff: "walk bo (encode_value bs v) = Inr v \<longleftrightarrow> wire_value v"
proof (induction v rule: wire_value.induct)
  case (4 es)
  have "collect_results (walk_pair bo)
      (map (\<lambda>(k, v). JArray [encode_value bs k, encode_value bs v]) es) = Inr es
      \<longleftrightarrow> (\<forall>e \<in> set es. case e of (k, v) \<Rightarrow> wire_value k \<and> wire_value v)"
    by (rule collect_map_iff) (use "4.IH" in \<open>auto simp: walk_pair_def\<close>)
  then show ?case by (simp add: walk_map)
next
  case (5 r)
  let ?obj = "map (\<lambda>(k, v). (k, encode_value bs v)) r"
  show ?case
  proof (cases "bt_ok r \<and> record_plain r")
    case True
    then have "collect_results (walk_member bo) ?obj = Inr r \<longleftrightarrow> (\<forall>e \<in> set r. case e of (k, v) \<Rightarrow> wire_value v)"
      by (intro collect_map_iff) (use "5.IH" in \<open>auto simp: walk_member_def\<close>)
    moreover have "collect_results (walk_member bo) ?obj = Inr kvs \<Longrightarrow> bt_of_list kvs = r \<Longrightarrow> kvs = r" for kvs
    proof -
      assume c: "collect_results (walk_member bo) ?obj = Inr kvs" and r: "bt_of_list kvs = r"
      have "map fst kvs = map fst ?obj"
        using c unfolding collect_results_Inr_iff
        by (induction rule: list_all2_induct) (auto simp: walk_member_def)
      also have "\<dots> = map fst r" by auto
      finally have "bt_ok kvs" using True by (simp add: bt_ok_def)
      then show "kvs = r" using r by (simp add: bt_of_list_idem)
    qed
    ultimately show ?thesis
      using True by (auto simp: bt_of_list_idem walk_plain plain_object_encode)
  next
    case False
    have "walk bo (encode_value bs (VRecord r)) \<noteq> Inr (VRecord r)"
    proof (cases "plain_object (bt_of_list ?obj)")
      case True
      have "bt_ok r \<Longrightarrow> False" using True False by (simp add: bt_of_list_idem plain_object_encode)
      then show ?thesis
        using True by (auto simp: walk_plain)
    next
      case False
      then show ?thesis by (simp add: walk_tagged_not_record)
    qed
    then show ?thesis using False by auto
  qed
qed (use printed reads_back in \<open>auto simp: walk_bigint walk_array walk_set walk_tup walk_variant
       walk_unserializable        collect_map_iff split: if_splits\<close>)

lemma walk_encode: "wire_value v \<Longrightarrow> walk bo (encode_value bs v) = Inr v"
  by (simp add: walk_encode_iff)

lemma walk_record_encode:
  "wire_value (VRecord s) \<Longrightarrow> walk_record bo (Some (encode_value bs (VRecord s))) f = Inr s"
  using walk_encode [of "VRecord s"] by (simp add: walk_record_def)

end



text \<open>What the decoder returns is well formed, whatever JSON tree it is given.\<close>

lemma val_ok_record_of:
  assumes "\<And>k v. (k, v) \<in> set kvs \<Longrightarrow> val_ok v"
  shows "val_ok (VRecord (bt_of_list kvs))"
proof -
  have "val_ok v" if "(k, v) \<in> set (bt_of_list kvs)" for k v
  proof -
    have "map_of (bt_of_list kvs) k = Some v" using that by (simp add: bt_ok_distinct)
    then have "(k, v) \<in> set kvs" by (auto simp: bt_get_of_list dest: map_of_SomeD)
    then show ?thesis by (rule assms)
  qed
  then show ?thesis by auto
qed

lemma collect_results_all:
  assumes "collect_results f xs = Inr ys" and "\<And>x y. x \<in> set xs \<Longrightarrow> f x = Inr y \<Longrightarrow> P y"
  shows "\<forall>y \<in> set ys. P y"
  using assms unfolding collect_results_Inr_iff
  by (induction rule: list_all2_induct) auto

lemma walk_object_cases:
  assumes "walk bo (JObject obj) = Inr w"
  obtains (bigint) "w = VNull \<or> (\<exists>k. w = VInt k)"
    | (tup) items vs where "only_field obj ''#tup'' = Some (JArray items)"
        "collect_results (walk bo) items = Inr vs" "w = VTuple vs"
    | (sets) items vs where "only_field obj ''#set'' = Some (JArray items)"
        "collect_results (walk bo) items = Inr vs" "w = VSet vs"
    | (maps) items ps where "only_field obj ''#map'' = Some (JArray items)"
        "collect_results (walk_pair bo) items = Inr ps" "w = VMap ps"
    | (unser) raw where "w = VUnserializable raw"
    | (variant) tag j v where "bt_get obj ''value'' = Some j" "walk bo j = Inr v" "w = VVariant tag v"
    | (recd) kvs where "collect_results (walk_member bo) obj = Inr kvs" "w = VRecord (bt_of_list kvs)"
proof -
  have fold: "(\<lambda>entry. case entry of
                     JArray pair \<Rightarrow>
                       (case pair of
                          [k, v] \<Rightarrow>
                            (case walk bo k of
                               Inl e \<Rightarrow> Inl e
                             | Inr k' \<Rightarrow> (case walk bo v of Inl e \<Rightarrow> Inl e | Inr v' \<Rightarrow> Inr (k', v')))
                        | _ \<Rightarrow> Inl MapEntryArity)
                   | _ \<Rightarrow> Inl MapEntryNotArray) = walk_pair bo"
    "(\<lambda>(k, iv). case walk bo iv of Inl e \<Rightarrow> Inl e | Inr v \<Rightarrow> Inr (k, v)) = walk_member bo"
    by (simp_all add: walk_pair_def [abs_def] walk_member_def [abs_def] try_ok_def)
  show thesis
    using assms [unfolded walk.simps(6) fold]
    by (auto split: option.splits if_splits sum.splits intro: that)
qed

lemma walk_ok: "walk bo j = Inr w \<Longrightarrow> val_ok w"
proof (induction j arbitrary: w rule: measure_induct_rule [where f = size])
  case (less j)
  note IH = less.IH
  have items: "\<forall>v \<in> set vs. val_ok v"
    if "collect_results (walk bo) xs = Inr vs" and "\<And>x. x \<in> set xs \<Longrightarrow> size x < size j" for xs vs
    using that(1) by (rule collect_results_all) (use IH that(2) in blast)
  show ?case
  proof (cases j)
    case (JArray xs)
    then show ?thesis
      using less.prems items [of xs] by (auto simp: walk_array size_list_estimation' less_Suc_eq_le)
  next
    case (JObject obj)
    note j = JObject
    from less.prems [unfolded j] show ?thesis
    proof (cases rule: walk_object_cases)
      case (maps xs ps)
      have "\<forall>p \<in> set ps. case p of (k, v) \<Rightarrow> val_ok k \<and> val_ok v"
        using maps(2)
      proof (rule collect_results_all)
        fix x p assume x: "x \<in> set xs" and p: "walk_pair bo x = Inr p"
        then obtain a b a' b' where "x = JArray [a, b]" "walk bo a = Inr a'" "walk bo b = Inr b'" "p = (a', b')"
          by (auto simp: walk_pair_def split: json.splits list.splits)
        then show "case p of (k, v) \<Rightarrow> val_ok k \<and> val_ok v"
          using IH [of a a'] IH [of b b'] size_only_field_pair [OF maps(1), of a b] x j by simp
      qed
      then show ?thesis using maps by simp
    next
      case (variant tag k v)
      then show ?thesis using IH [of k v] size_bt_get [of obj] j by simp
    next
      case (recd kvs)
      have "\<forall>p \<in> set kvs. case p of (k, v) \<Rightarrow> val_ok v"
        using recd(1)
        by (rule collect_results_all)
          (use IH j in \<open>auto simp: walk_member_def dest: size_object_entry\<close>)
      then show ?thesis using recd val_ok_record_of [of kvs] by auto
    qed (use items size_only_field_item j in auto)
  qed (use less.prems in \<open>auto split: sum.splits\<close>)
qed


section \<open>The number grammar\<close>

text \<open>The text of a JSON number from its parts, and the reading of decimal digits \<open>bigint_of\<close> must offer.\<close>

definition number_text :: "bool \<Rightarrow> string \<Rightarrow> string option \<Rightarrow> string option \<Rightarrow> string" where
  "number_text negative whole fraction exponent =
     (if negative then [CHR ''-''] else []) @ whole
     @ (case fraction of None \<Rightarrow> [] | Some f \<Rightarrow> CHR ''.'' # f)
     @ (case exponent of None \<Rightarrow> [] | Some e \<Rightarrow> CHR ''e'' # e)"

definition reads_decimal :: "(string \<Rightarrow> int option) \<Rightarrow> bool" where
  "reads_decimal bo \<longleftrightarrow>
     (\<forall>ds. ds \<noteq> [] \<and> all_digits ds \<longrightarrow>
        bo ds = Some (int (digits_value ds)) \<and> bo (CHR ''-'' # ds) = Some (- int (digits_value ds)))"

definition int_of_text :: "string \<Rightarrow> int option" where
  "int_of_text s =
     (case s of
        [] \<Rightarrow> None
      | c # r \<Rightarrow> if c = CHR ''-'' then map_option (\<lambda>n. - int n) (parse_digits r)
                 else map_option int (parse_digits s))"

lemma digit_not_special: "is_ascii_digit c \<Longrightarrow> c \<notin> {CHR ''-'', CHR ''+'', CHR ''.'', CHR ''e'', CHR ''E''}"
  by (auto simp: is_ascii_digit_def byte_of_def)

lemma all_digits_in: "all_digits ds \<Longrightarrow> c \<in> set ds \<Longrightarrow> is_ascii_digit c"
  by (simp add: all_digits_def list_all_iff)

lemma reads_decimal_int_of_text: "reads_decimal int_of_text"
  unfolding reads_decimal_def
proof (intro allI impI)
  fix ds assume ds: "ds \<noteq> [] \<and> all_digits ds"
  then obtain c r where "ds = c # r" "is_ascii_digit c" by (cases ds) auto
  then show "int_of_text ds = Some (int (digits_value ds))
      \<and> int_of_text (CHR ''-'' # ds) = Some (- int (digits_value ds))"
    using ds digit_not_special by (auto simp: int_of_text_def parse_digits_def)
qed

lemma int_of_text_show_int: "show_int n \<noteq> [] \<and> int_of_text (show_int n) = Some n"
  using reads_decimal_int_of_text unfolding reads_decimal_def show_int_def by auto

lemma no_special:
  "all_digits ds \<Longrightarrow> \<forall>c \<in> set ds. c \<noteq> CHR ''.''"
  "all_digits ds \<Longrightarrow> \<forall>c \<in> set ds. \<not> (c = CHR ''e'' \<or> c = CHR ''E'')"
  using all_digits_in digit_not_special by blast+

text \<open>How the routine takes the text apart.\<close>

definition scaled_integer ::
    "(string \<Rightarrow> int option) \<Rightarrow> bool \<Rightarrow> string \<Rightarrow> int \<Rightarrow> itf_error + int" where
  "scaled_integer bo negative digits scale =
     (let finish = (\<lambda>ds. case bo (if negative then CHR ''-'' # ds else ds) of
                     None \<Rightarrow> Inl MalformedInteger | Some k \<Rightarrow> Inr k)
      in if scale < - (2 ^ 63) then Inl ExponentPanic
         else if 0 \<le> scale then finish (digits @ replicate (nat scale) (CHR ''0''))
         else if scale = - (2 ^ 63) then Inl ExponentPanic
         else if nat (- scale) > length digits
                 \<or> \<not> list_all (\<lambda>b. b = CHR ''0'') (drop (length digits - nat (- scale)) digits)
              then Inl NotIntegral
              else let ds = take (length digits - nat (- scale)) digits
                   in finish (if ds = [] then ''0'' else ds))"

definition exponent_value :: "string option \<Rightarrow> int option" where
  "exponent_value e = (case e of None \<Rightarrow> Some 0 | Some e \<Rightarrow> parse_i64 e)"

definition fraction_digits :: "string option \<Rightarrow> string" where
  "fraction_digits f = (case f of None \<Rightarrow> [] | Some f \<Rightarrow> f)"

lemma number_to_bigint_parts:
  assumes digits: "whole \<noteq> []" "all_digits whole" "all_digits (fraction_digits f)"
    and x: "exponent_value e = Some x"
  shows "number_to_bigint bo (number_text negative whole f e) =
    scaled_integer bo negative (whole @ fraction_digits f) (x - int (length (fraction_digits f)))"
proof -
  let ?mant = "whole @ (case f of None \<Rightarrow> [] | Some f \<Rightarrow> CHR ''.'' # f)"
  let ?uns = "?mant @ (case e of None \<Rightarrow> [] | Some e \<Rightarrow> CHR ''e'' # e)"
  obtain c r where w: "whole = c # r" "is_ascii_digit c" using digits by (cases whole) auto
  have "\<not> starts_with ?uns ''-''" using w digit_not_special [of c] by auto
  then have sign: "(case strip_prefix (number_text negative whole f e) ''-'' of
      Some rest \<Rightarrow> (True, rest) | None \<Rightarrow> (False, number_text negative whole f e)) = (negative, ?uns)"
    by (cases negative) (simp_all add: number_text_def strip_prefix_def)
  have mant: "\<forall>c \<in> set ?mant. \<not> (c = CHR ''e'' \<or> c = CHR ''E'')"
    using no_special(2) [OF digits(2)] no_special(2) [OF digits(3)]
    by (auto simp: fraction_digits_def split: option.splits)
  have split_none: "split_once P m = None" if "\<forall>c \<in> set m. \<not> P c" for P m
    using that by simp
  define m where "m = ?mant"
  have expo: "(case split_once (\<lambda>c. c = CHR ''e'' \<or> c = CHR ''E'') ?uns of
      Some (m, e) \<Rightarrow> (m, parse_i64 e) | None \<Rightarrow> (?uns, Some 0)) = (?mant, Some x)"
    using mant x unfolding m_def [symmetric]
    by (cases e) (simp_all only: exponent_value_def option.case append_Nil2 split_none prod.case
        split_once_append [of "\<lambda>c. c = CHR ''e'' \<or> c = CHR ''E''" "CHR ''e''" m] simp_thms)
  have frac: "(case split_once (\<lambda>c. c = CHR ''.'') ?mant of
      Some parts \<Rightarrow> parts | None \<Rightarrow> (?mant, [])) = (whole, fraction_digits f)"
    using no_special(1) [OF digits(2)]
    by (cases f) (simp_all only: fraction_digits_def option.case append_Nil2 split_none prod.case
        split_once_append [of "\<lambda>c. c = CHR ''.''" "CHR ''.''" whole] simp_thms)
  show ?thesis
    unfolding number_to_bigint_def sign Let_def prod.case expo snd_conv fst_conv option.case frac
      scaled_integer_def by (rule refl)
qed


text \<open>The integer \<open>k\<close> is the number with these digits, scaled by a power of ten.\<close>

definition denotes :: "bool \<Rightarrow> string \<Rightarrow> int \<Rightarrow> int \<Rightarrow> bool" where
  "denotes negative digits scale k \<longleftrightarrow>
     k * 10 ^ nat (- scale)
       = (if negative then -1 else 1) * int (digits_value digits) * 10 ^ nat scale"

lemma digits_value_less: "all_digits ds \<Longrightarrow> digits_value ds < 10 ^ length ds"
proof (induction ds rule: rev_induct)
  case (snoc c ds)
  then have "digit_value c \<le> 9" "digits_value ds + 1 \<le> 10 ^ length ds"
    by (auto simp: is_ascii_digit_def digit_value_def)
  then show ?case by simp
qed simp

lemma zeros_value: "list_all (\<lambda>b. b = CHR ''0'') ds \<Longrightarrow> digits_value ds = 0"
proof -
  assume "list_all (\<lambda>b. b = CHR ''0'') ds"
  then have "ds = replicate (length ds) (CHR ''0'')" by (simp add: list_all_iff replicate_eqI)
  then show ?thesis using digits_value_replicate_zero by metis
qed

lemma nonzero_value:
  "all_digits ds \<Longrightarrow> \<not> list_all (\<lambda>b. b = CHR ''0'') ds \<Longrightarrow> digits_value ds \<noteq> 0"
proof (induction ds rule: rev_induct)
  case (snoc c ds)
  show ?case
  proof (cases "c = CHR ''0''")
    case True
    then show ?thesis using snoc by simp
  next
    case False
    have "byte_of c \<noteq> 48"
      using False byte_of_inject [of c "CHR ''0''"] by (simp add: byte_of_def)
    then show ?thesis using snoc.prems by (simp add: digit_value_def is_ascii_digit_def)
  qed
qed simp

lemma split_digits_value:
  assumes "r \<le> length ds"
  shows "digits_value ds
    = digits_value (take (length ds - r) ds) * 10 ^ r + digits_value (drop (length ds - r) ds)"
proof -
  have "digits_value (take (length ds - r) ds @ drop (length ds - r) ds)
    = digits_value (take (length ds - r) ds) * 10 ^ r + digits_value (drop (length ds - r) ds)"
    unfolding digits_value_append using assms by simp
  then show ?thesis by simp
qed

lemma all_digits_take_drop:
  "all_digits ds \<Longrightarrow> all_digits (take n ds) \<and> all_digits (drop n ds)"
  by (metis all_digits_append append_take_drop_id)

lemma reads_decimal_signed:
  assumes "reads_decimal bo" and "ds \<noteq> []" and "all_digits ds"
  shows "bo (if negative then CHR ''-'' # ds else ds)
    = Some ((if negative then -1 else 1) * int (digits_value ds))"
  using assms by (auto simp: reads_decimal_def)

lemma signed_multiple_dvd:
  assumes "(k :: int) * 10 ^ r = (if negative then -1 else 1) * int d"
  shows "(10 :: nat) ^ r dvd d"
proof -
  have "int d = (if negative then - k else k) * int (10 ^ r)"
    using assms by (cases negative) auto
  then have "int (10 ^ r) dvd int d" by (metis dvd_triv_right)
  then show ?thesis by (simp only: of_nat_dvd_iff)
qed

lemma scaled_integer_spec:
  assumes bo: "reads_decimal bo" and digits: "digits \<noteq> []" "all_digits digits"
  shows "case scaled_integer bo negative digits scale of
      Inr k \<Rightarrow> denotes negative digits scale k
    | Inl e \<Rightarrow> e = ExponentPanic \<and> scale \<le> - (2 ^ 63)
        \<or> e = NotIntegral \<and> (digits_value digits = 0 \<or> (\<forall>k. \<not> denotes negative digits scale k))"
proof (cases "scale \<le> - (2 ^ 63)")
  case True
  then show ?thesis by (auto simp: scaled_integer_def)
next
  case False
  show ?thesis
  proof (cases "0 \<le> scale")
    case True
    have "bo (if negative then CHR ''-'' # digits @ replicate (nat scale) (CHR ''0'')
          else digits @ replicate (nat scale) (CHR ''0''))
        = Some ((if negative then -1 else 1) * int (digits_value digits * 10 ^ nat scale))"
      using reads_decimal_signed [OF bo, of "digits @ replicate (nat scale) (CHR ''0'')"] digits
      by (simp add: digits_value_append split del: if_split)
    then show ?thesis using True by (simp add: scaled_integer_def denotes_def)
  next
    case neg: False
    define r where "r = nat (- scale)"
    define hi where "hi = take (length digits - r) digits"
    define lo where "lo = drop (length digits - r) digits"
    have r: "r \<noteq> 0" "nat scale = 0" using neg by (simp_all add: r_def)
    have hl: "all_digits hi" "all_digits lo"
      using all_digits_take_drop [OF digits(2)] by (simp_all add: hi_def lo_def)
    have den: "denotes negative digits scale k \<longleftrightarrow>
        k * 10 ^ r = (if negative then -1 else 1) * int (digits_value digits)" for k
      using r by (simp add: denotes_def r_def)
    have res: "scaled_integer bo negative digits scale =
      (if r > length digits \<or> \<not> list_all (\<lambda>b. b = CHR ''0'') lo then Inl NotIntegral
       else Inr ((if negative then -1 else 1) * int (digits_value hi)))"
    proof -
      have "digits_value (if hi = [] then ''0'' else hi) = digits_value hi"
        using zeros_value [of "''0''"] by simp
      moreover have "bo (if negative then CHR ''-'' # (if hi = [] then ''0'' else hi) else if hi = [] then ''0'' else hi)
          = Some ((if negative then -1 else 1) * int (digits_value (if hi = [] then ''0'' else hi)))"
        by (rule reads_decimal_signed [OF bo]) (use hl in \<open>auto simp: is_ascii_digit_def byte_of_def\<close>)
      ultimately have b: "bo (if negative then CHR ''-'' # (if hi = [] then ''0'' else hi) else if hi = [] then ''0'' else hi)
          = Some ((if negative then -1 else 1) * int (digits_value hi))" by metis
      have "scaled_integer bo negative digits scale =
          (if r > length digits \<or> \<not> list_all (\<lambda>b. b = CHR ''0'') lo then Inl NotIntegral
           else case bo (if negative then CHR ''-'' # (if hi = [] then ''0'' else hi)
                         else if hi = [] then ''0'' else hi) of
             None \<Rightarrow> Inl MalformedInteger | Some k \<Rightarrow> Inr k)"
      proof -
        have "(scale < - (2 ^ 63)) = False" "(0 \<le> scale) = False" "(scale = - (2 ^ 63)) = False"
          using False neg by auto
        then show ?thesis
          unfolding scaled_integer_def Let_def r_def hi_def lo_def by (simp only: if_False)
      qed
      then show ?thesis by (simp only: b option.case)
    qed
    show ?thesis
    proof (cases "r > length digits")
      case True
      have "digits_value digits < 10 ^ length digits" by (rule digits_value_less [OF digits(2)])
      also have "(10 :: nat) ^ length digits \<le> 10 ^ r" using True by (intro power_increasing) auto
      finally have "digits_value digits = 0" if "denotes negative digits scale k" for k
        using signed_multiple_dvd [OF that [unfolded den]] nat_dvd_not_less by blast
      then show ?thesis using True by (auto simp: res)
    next
      case False
      then have dv: "digits_value digits = digits_value hi * 10 ^ r + digits_value lo"
        unfolding hi_def lo_def by (intro split_digits_value) simp
      show ?thesis
      proof (cases "list_all (\<lambda>b. b = CHR ''0'') lo")
        case True
        then show ?thesis using False dv zeros_value by (simp add: res den)
      next
        case nz: False
        have "length lo = r" using False by (simp add: lo_def)
        then have lo: "digits_value lo \<noteq> 0" "digits_value lo < 10 ^ r"
          using nonzero_value [OF hl(2) nz] digits_value_less [OF hl(2)] by auto
        have "\<not> denotes negative digits scale k" for k
        proof
          assume "denotes negative digits scale k"
          then have "(10 :: nat) ^ r dvd digits_value digits"
            unfolding den by (rule signed_multiple_dvd)
          then have "(10 :: nat) ^ r dvd digits_value lo" unfolding dv by (simp add: dvd_add_right_iff)
          then show False using lo by (auto dest: nat_dvd_not_less [rotated])
        qed
        then show ?thesis using nz by (simp add: res)
      qed
    qed
  qed
qed


section \<open>The messages on the wire\<close>

text \<open>
  The specification of the decoder: the object the peer sends for each message.  Its fields are
  those of the protocol; an object is kept in key order, as \<^verbatim>\<open>serde_json::Map\<close> does.
\<close>

fun segment_json :: "path_segment \<Rightarrow> json" where
  "segment_json (Field f) = JObject [(''field'', JString f)]"
| "segment_json (Index n) = JObject [(''index'', json_nat n)]"

definition path_json :: "path_segment list \<Rightarrow> json" where
  "path_json path = JArray (map segment_json path)"

definition hint_object ::
    "(int \<Rightarrow> string) \<Rightarrow> string \<Rightarrow> path_segment list \<Rightarrow> val option \<Rightarrow> val option \<Rightarrow> json" where
  "hint_object bs kind path expected actual =
     JObject (opt_field ''actual'' (encode_value bs) actual
       @ opt_field ''expected'' (encode_value bs) expected
       @ [(''kind'', JString kind), (''path'', path_json path)])"

fun hint_json :: "(int \<Rightarrow> string) \<Rightarrow> diff_hint \<Rightarrow> json" where
  "hint_json bs (ValueMismatch p e a) = hint_object bs ''value_mismatch'' p (Some e) (Some a)"
| "hint_json bs (Missing p e) = hint_object bs ''missing'' p (Some e) None"
| "hint_json bs (Extra p a) = hint_object bs ''extra'' p None (Some a)"
| "hint_json bs (MissingElem p e) = hint_object bs ''missing_elem'' p (Some e) None"
| "hint_json bs (ExtraElem p a) = hint_object bs ''extra_elem'' p None (Some a)"
| "hint_json bs (TypeMismatch p e a) = hint_object bs ''type_mismatch'' p (Some e) (Some a)"
| "hint_json bs (Truncated p) = hint_object bs ''truncated'' p None None"

fun spec_result_json :: "spec_result \<Rightarrow> json" where
  "spec_result_json Valid = JString ''valid''"
| "spec_result_json (Invalid d) = JObject [(''invalid'', JString d)]"

fun outcome_json :: "job_outcome \<Rightarrow> json" where
  "outcome_json (OutcomeValidate r) = JObject [(''validate'', spec_result_json r)]"
| "outcome_json (OutcomeGenTraces paths traces) =
     JObject [(''genTraces'',
       JObject [(''itfTracePaths'', strings_json paths), (''itfTraces'', JArray traces)])]"
| "outcome_json (InfraError e) = JObject [(''error'', JString e)]"

definition kind_text :: "job_kind \<Rightarrow> string" where
  "kind_text k = (case k of KindValidate \<Rightarrow> ''validate'' | KindGenTraces \<Rightarrow> ''gen_traces'')"

definition phase_text :: "job_phase \<Rightarrow> string" where
  "phase_text p = (case p of Pending \<Rightarrow> ''pending'' | Running \<Rightarrow> ''running'' | Done \<Rightarrow> ''done''
     | Failed \<Rightarrow> ''failed'' | Cancelled \<Rightarrow> ''cancelled'' | Unknown \<Rightarrow> ''unknown'')"

fun mirror_object :: "(int \<Rightarrow> string) \<Rightarrow> mirror_message \<Rightarrow> jobject" where
  "mirror_object bs (MSpecValidated r) =
     [(''proto_step'', JString ''spec_validated''), (''result'', spec_result_json r)]"
| "mirror_object bs (MInitialState a s) =
     [(''action'', JString a), (''proto_step'', JString ''initial_state''),
      (''state'', encode_value bs (VRecord s))]"
| "mirror_object bs (MNextStep a s) =
     [(''action'', JString a), (''parameters'', encode_value bs (VRecord s)),
      (''proto_step'', JString ''next_step'')]"
| "mirror_object bs MStepOk = [(''proto_step'', JString ''step_ok'')]"
| "mirror_object bs (MStepMismatch a e s hs) =
     opt_field ''action'' JString a
     @ [(''actual'', encode_value bs (VRecord s)), (''expected'', encode_value bs (VRecord e)),
        (''hints'', JArray (map (hint_json bs) hs)), (''proto_step'', JString ''step_mismatch'')]"
| "mirror_object bs MAllStepsDone = [(''proto_step'', JString ''all_steps_done'')]"
| "mirror_object bs (MGenTracesDone paths traces) =
     [(''itfTracePaths'', strings_json paths), (''itfTraces'', JArray traces),
      (''proto_step'', JString ''gen_traces_done'')]"
| "mirror_object bs (MProtocolError e) =
     [(''error'', JString e), (''proto_step'', JString ''protocol_error'')]"
| "mirror_object bs (MRegisterError e) =
     [(''error'', JString e), (''proto_step'', JString ''register_error'')]"
| "mirror_object bs (MJobAccepted j k) =
     [(''jobId'', JString j), (''kind'', JString (kind_text k)),
      (''proto_step'', JString ''job_accepted'')]"
| "mirror_object bs (MJobStatus j p) =
     [(''jobId'', JString j), (''phase'', JString (phase_text p)),
      (''proto_step'', JString ''job_status'')]"
| "mirror_object bs (MJobResult j r) =
     [(''jobId'', JString j), (''outcome'', outcome_json r), (''proto_step'', JString ''job_result'')]"

text \<open>What of a message must survive the value encoding, and an index must be a \<^verbatim>\<open>u64\<close>.\<close>

definition wire_path :: "path_segment list \<Rightarrow> bool" where
  "wire_path path = (\<forall>s \<in> set path. case s of Field f \<Rightarrow> True | Index n \<Rightarrow> n < 2 ^ 64)"

fun wire_hint :: "diff_hint \<Rightarrow> bool" where
  "wire_hint (ValueMismatch p e a) = (wire_path p \<and> wire_value e \<and> wire_value a)"
| "wire_hint (Missing p e) = (wire_path p \<and> wire_value e)"
| "wire_hint (Extra p a) = (wire_path p \<and> wire_value a)"
| "wire_hint (MissingElem p e) = (wire_path p \<and> wire_value e)"
| "wire_hint (ExtraElem p a) = (wire_path p \<and> wire_value a)"
| "wire_hint (TypeMismatch p e a) = (wire_path p \<and> wire_value e \<and> wire_value a)"
| "wire_hint (Truncated p) = wire_path p"

fun wire_message :: "mirror_message \<Rightarrow> bool" where
  "wire_message (MInitialState a s) = wire_value (VRecord s)"
| "wire_message (MNextStep a s) = wire_value (VRecord s)"
| "wire_message (MStepMismatch a e s hs) =
     (wire_value (VRecord e) \<and> wire_value (VRecord s) \<and> (\<forall>h \<in> set hs. wire_hint h))"
| "wire_message _ = True"

declare encode_value.simps(8) [simp del]

interpretation decimal: bigint_text show_int int_of_text
  by unfold_locales (use int_of_text_show_int in blast)+

lemma path_segment_json [simp]:
  "(case s of Field f \<Rightarrow> True | Index n \<Rightarrow> n < 2 ^ 64) \<Longrightarrow> decode_path_segment (segment_json s) = Inr s"
  by (cases s) (simp_all add: decode_path_segment_def)

lemma path_segments_json [simp]: "wire_path p \<Longrightarrow> path_segments (Some (path_json p)) = Inr p"
  using collect_results_map_Inr [of p decode_path_segment segment_json "\<lambda>s. s"]
  by (simp add: path_segments_def path_json_def wire_path_def)

lemma string_array_json [simp]: "string_array (Some (strings_json ss)) f = Inr ss"
  by (simp add: string_array_def strings_json_def collect_results_map_Inr [where h = "\<lambda>s. s", simplified])

lemma decode_spec_result_json [simp]: "decode_spec_result (Some (spec_result_json r)) = Inr r"
  by (cases r) (simp_all add: decode_spec_result_def)

lemma decode_job_outcome_json [simp]: "decode_job_outcome (Some (outcome_json r)) = Inr r"
  by (cases r) (simp_all add: decode_job_outcome_def trace_array_def)

lemma decode_kind_text [simp]: "decode_job_kind (Some (JString (kind_text k))) = Inr k"
  by (cases k) (simp_all add: decode_job_kind_def kind_text_def)

lemma decode_phase_text [simp]: "decode_job_phase (Some (JString (phase_text p))) = Inr p"
  by (cases p) (simp_all add: decode_job_phase_def phase_text_def)

context bigint_text begin

lemma decode_hint_json: "wire_hint h \<Longrightarrow> decode_hint bo (hint_json bs h) = Inr h"
  by (cases h) (simp_all add: decode_hint_def hint_object_def opt_field_def hint_value_def walk_encode)

lemma decode_hints_json:
  "\<forall>h \<in> set hs. wire_hint h \<Longrightarrow> decode_hints bo (Some (JArray (map (hint_json bs) hs))) = Inr hs"
  using collect_results_map_Inr [of hs "decode_hint bo" "hint_json bs" "\<lambda>h. h"]
  by (simp add: decode_hints_def decode_hint_json)

lemma walk_mirror_object: "wire_message m \<Longrightarrow> walk_message bo (mirror_object bs m) = Inr m"
  by (cases m) (simp_all add: walk_message_def str_field_def walk_record_encode decode_hints_json
      trace_array_def opt_field_def split: option.split)

end


text \<open>A decoded message holds only well-formed states, values and JSON trees.\<close>

fun hint_ok :: "diff_hint \<Rightarrow> bool" where
  "hint_ok (ValueMismatch p e a) = (val_ok e \<and> val_ok a)"
| "hint_ok (Missing p e) = val_ok e"
| "hint_ok (Extra p a) = val_ok a"
| "hint_ok (MissingElem p e) = val_ok e"
| "hint_ok (ExtraElem p a) = val_ok a"
| "hint_ok (TypeMismatch p e a) = (val_ok e \<and> val_ok a)"
| "hint_ok (Truncated p) = True"

fun message_ok :: "mirror_message \<Rightarrow> bool" where
  "message_ok (MInitialState a s) = val_ok (VRecord s)"
| "message_ok (MNextStep a s) = val_ok (VRecord s)"
| "message_ok (MStepMismatch a e s hs) =
     (val_ok (VRecord e) \<and> val_ok (VRecord s) \<and> (\<forall>h \<in> set hs. hint_ok h))"
| "message_ok (MGenTracesDone paths traces) = (\<forall>t \<in> set traces. json_ok t)"
| "message_ok (MJobResult j (OutcomeGenTraces paths traces)) = (\<forall>t \<in> set traces. json_ok t)"
| "message_ok _ = True"

lemma walk_record_ok: "walk_record bo v f = Inr s \<Longrightarrow> val_ok (VRecord s)"
  using walk_ok by (fastforce simp: walk_record_def split: option.splits sum.splits val.splits)

lemma hint_value_ok: "hint_value bo obj k = Inr v \<Longrightarrow> val_ok v"
  using walk_ok by (auto simp: hint_value_def split: option.splits)

lemma decode_hint_ok: "decode_hint bo j = Inr h \<Longrightarrow> hint_ok h"
  using hint_value_ok
  by (auto simp: decode_hint_def Let_def split: json.splits option.splits if_splits)

lemma decode_hints_ok: "decode_hints bo v = Inr hs \<Longrightarrow> \<forall>h \<in> set hs. hint_ok h"
  by (auto simp: decode_hints_def split: option.splits json.splits
      dest!: collect_results_all [where P = hint_ok] decode_hint_ok)

lemma object_entry_ok: "json_ok (JObject obj) \<Longrightarrow> bt_get obj k = Some j \<Longrightarrow> json_ok j"
  by (auto dest!: map_of_SomeD)

lemma trace_array_ok:
  "trace_array v = Inr ts \<Longrightarrow> (\<And>j. v = Some j \<Longrightarrow> json_ok j) \<Longrightarrow> \<forall>t \<in> set ts. json_ok t"
  by (auto simp: trace_array_def split: option.splits json.splits)

lemma decode_job_outcome_ok:
  assumes "decode_job_outcome v = Inr r" and "\<And>j. v = Some j \<Longrightarrow> json_ok j"
  shows "message_ok (MJobResult i r)"
proof (cases r)
  case (OutcomeGenTraces paths traces)
  then obtain outcome gen where "v = Some (JObject outcome)"
    and "bt_get outcome ''genTraces'' = Some (JObject gen)"
    and t: "trace_array (bt_get gen ''itfTraces'') = Inr traces"
    using assms(1) by (auto simp: decode_job_outcome_def split: option.splits Option.bind_splits)
  then have gen: "json_ok (JObject gen)" using assms(2) object_entry_ok by blast
  have "\<forall>t \<in> set traces. json_ok t"
    using t by (rule trace_array_ok) (rule object_entry_ok [OF gen])
  then show ?thesis by (simp add: OutcomeGenTraces)
qed simp_all

lemma walk_message_ok:
  assumes "walk_message bo obj = Inr m" and ok: "json_ok (JObject obj)"
  shows "message_ok m"
proof -
  have get: "bt_get obj k = Some j \<Longrightarrow> json_ok j" for k j using ok by (rule object_entry_ok)
  have traces: "trace_array (bt_get obj k) = Inr ts \<Longrightarrow> \<forall>t \<in> set ts. json_ok t" for k ts
    using trace_array_ok get by blast
  have outcome: "decode_job_outcome (bt_get obj k) = Inr r \<Longrightarrow> message_ok (MJobResult i r)" for k r i
    using decode_job_outcome_ok get by blast
  from assms(1) show ?thesis
    unfolding walk_message_def
    by (auto simp del: message_ok.simps val_ok.simps split: option.splits if_splits
        dest: walk_record_ok decode_hints_ok traces outcome)
      (auto simp del: val_ok.simps dest: walk_record_ok decode_hints_ok traces)
qed


section \<open>Properties\<close>

text \<open>
  C4. The value encoding is lossless exactly on the values whose records do not imitate a tagged
  shape: decoding the encoding of a value gives that value back if and only if it is a
  \<open>wire_value\<close>.
\<close>

theorem encoding_lossless_iff:
  assumes "bigint_text bs bo"
  shows "walk bo (encode_value bs v) = Inr v \<longleftrightarrow> wire_value v"
  using assms by (rule bigint_text.walk_encode_iff)

definition sample_value :: val where
  "sample_value = VRecord [(''balance'', VInt (-12)), (''log'', VMap [(VStr ''k'', VSet [VNull])])]"

lemma sample_value_wire: "wire_value sample_value"
  by code_simp

theorem encoding_lossless_iff_witness:
  "walk int_of_text (encode_value show_int sample_value) = Inr sample_value
   \<and> walk int_of_text (encode_value show_int (VRecord [(''tag'', VStr ''t''), (''value'', VNull)]))
       \<noteq> Inr (VRecord [(''tag'', VStr ''t''), (''value'', VNull)])"
  using encoding_lossless_iff [OF decimal.bigint_text_axioms] sample_value_wire
  by (simp add: record_plain_def)


lemma sample_number:
  "number_to_bigint int_of_text (number_text True ''12'' (Some ''50'') (Some ''1'')) = Inr (-125)"
  by code_simp

lemma sample_number_parts: "fraction_digits (Some ''50'') = ''50''" "exponent_value (Some ''1'') = Some 1"
  "is_ascii_digit (CHR ''1'')" "is_ascii_digit (CHR ''2'')" "is_ascii_digit (CHR ''5'')"
  "is_ascii_digit (CHR ''0'')"
  by code_simp+


text \<open>
  C6. A line whose JSON text is the object the protocol prescribes for a message is decoded to that
  message, for every kind of message and all the state values the encoding can carry.
\<close>

theorem message_roundtrip:
  assumes "bigint_text bs bo" and "wire_message m"
    and "parse strtok line message_limits = Inr (JObject (mirror_object bs m))"
  shows "decode_mirror_message strtok bo line = Inr m"
  using bigint_text.walk_mirror_object [OF assms(1,2)] assms(3)
  by (simp add: decode_mirror_message_def)

definition quoted :: "string \<Rightarrow> string" where
  "quoted s = CHR 0x22 # s @ [CHR 0x22]"

definition sample_line :: string where
  "sample_line = ''{'' @ quoted ''proto_step'' @ '':'' @ quoted ''initial_state'' @ '','' @ quoted ''action''
     @ '':'' @ quoted ''init'' @ '','' @ quoted ''state'' @ '':{'' @ quoted ''x'' @ '':{'' @ quoted ''#bigint''
     @ '':'' @ quoted ''-7'' @ ''}}}''"

lemma parse_sample_line:
  "parse sample_strtok sample_line message_limits
     = Inr (JObject (mirror_object show_int (MInitialState ''init'' [(''x'', VInt (-7))])))"
  by code_simp

theorem message_roundtrip_witness:
  "decode_mirror_message sample_strtok int_of_text sample_line
     = Inr (MInitialState ''init'' [(''x'', VInt (-7))])"
  by (rule message_roundtrip [OF decimal.bigint_text_axioms _ parse_sample_line])
    (simp add: record_plain_def is_seq_def)


lemma decode_sample_line:
  "decode_mirror_message sample_strtok int_of_text sample_line
     = Inr (MInitialState ''init'' [(''x'', VInt (-7))])"
  by code_simp


end
