(* ===== verification/Transport.thy ===== *)
theory Transport
  imports Protocol
begin

text \<open>
  \<^verbatim>\<open>src/transport.rs\<close>: the line discipline of a session, the transport object over its three
  kinds of stream, and the admission of a TLS peer.  Operating-system outcomes (a failing write, the
  child's exit status, a failing shutdown) are data of the stream or of the environment; certificate
  parsing, the TLS machinery and SHA-256 are third-party and are parameters.
\<close>

section \<open>Protocol lines\<close>

definition max_protocol_line_bytes :: nat where
  "max_protocol_line_bytes = 65535"

definition newline :: char where
  "newline = CHR 0x0A"

definition validate_protocol_line :: "string \<Rightarrow> error + unit" where
  "validate_protocol_line line =
     (if line = [] then Inl (EInvalidArgument ''protocol line must not be empty'')
      else if newline \<in> set line then
        Inl (EInvalidArgument ''protocol line contains an embedded newline'')
      else if length line > max_protocol_line_bytes then
        Inl (EInvalidArgument ''protocol line exceeds 65535-byte UTF-8 payload limit'')
      else Inr ())"

text \<open>
  \<^verbatim>\<open>String::from_utf8\<close>: how many bytes the code point at the head of the text takes, 0 where
  there is no well-formed one.
\<close>

definition is_cont :: "char \<Rightarrow> bool" where
  "is_cont b \<longleftrightarrow> 0x80 \<le> byte_of b \<and> byte_of b \<le> 0xBF"

definition between :: "nat \<Rightarrow> char \<Rightarrow> nat \<Rightarrow> bool" where
  "between lo b hi \<longleftrightarrow> lo \<le> byte_of b \<and> byte_of b \<le> hi"

fun utf8_width :: "bytes \<Rightarrow> nat" where
  "utf8_width [] = 0"
| "utf8_width (b # bs) =
     (if between 0x00 b 0x7F then 1
      else if between 0xC2 b 0xDF then (case bs of c # _ \<Rightarrow> if is_cont c then 2 else 0 | _ \<Rightarrow> 0)
      else if between 0xE0 b 0xEF then
        (case bs of
           c # d # _ \<Rightarrow>
             if between (if byte_of b = 0xE0 then 0xA0 else 0x80) c
                  (if byte_of b = 0xED then 0x9F else 0xBF) \<and> is_cont d then 3 else 0
         | _ \<Rightarrow> 0)
      else if between 0xF0 b 0xF4 then
        (case bs of
           c # d # e # _ \<Rightarrow>
             if between (if byte_of b = 0xF0 then 0x90 else 0x80) c
                  (if byte_of b = 0xF4 then 0x8F else 0xBF) \<and> is_cont d \<and> is_cont e then 4 else 0
         | _ \<Rightarrow> 0)
      else 0)"

function utf8_valid :: "bytes \<Rightarrow> bool" where
  "utf8_valid bs =
     (if bs = [] then True
      else if utf8_width bs = 0 then False
      else utf8_valid (drop (utf8_width bs) bs))"
  by pat_completeness auto
termination
  by (relation "measure length") auto

declare utf8_valid.simps [simp del]

lemma utf8_valid_ascii: "list_all (\<lambda>b. byte_of b < 0x80) bs \<Longrightarrow> utf8_valid bs"
proof (induction bs)
  case Nil
  then show ?case by (simp add: utf8_valid.simps)
next
  case (Cons b bs)
  then have "utf8_width (b # bs) = 1" by (simp add: between_def)
  then show ?case using Cons by (subst utf8_valid.simps) simp
qed

text \<open>
  A byte stream under a \<^verbatim>\<open>BufReader\<close>: what is still to be read, whether the reads after that
  meet the end of the stream or an error, what has been written, and, where writing will fail, how
  many more bytes are taken before it does.
\<close>

record stream =
  incoming :: bytes
  outgoing :: bytes
  read_fault :: "string option"
  write_fault :: "(nat \<times> string) option"

definition write_all :: "stream \<Rightarrow> bytes \<Rightarrow> (error + unit) \<times> stream" where
  "write_all w bs =
     (case write_fault w of
        None \<Rightarrow> (Inr (), w\<lparr>outgoing := outgoing w @ bs\<rparr>)
      | Some (n, e) \<Rightarrow>
          if length bs \<le> n
          then (Inr (), w\<lparr>outgoing := outgoing w @ bs, write_fault := Some (n - length bs, e)\<rparr>)
          else (Inl (EIo e), w\<lparr>outgoing := outgoing w @ take n bs, write_fault := Some (0, e)\<rparr>))"

definition write_protocol_line :: "stream \<Rightarrow> string \<Rightarrow> (error + unit) \<times> stream" where
  "write_protocol_line w line =
     (case write_all w line of
        (Inl e, w') \<Rightarrow> (Inl e, w')
      | (Inr _, w') \<Rightarrow> write_all w' [newline])"

text \<open>
  \<^verbatim>\<open>reader.take(n).read_until(b'\n')\<close>: the bytes up to and with the first newline, or \<^verbatim>\<open>n\<close>
  bytes, or what is left.
\<close>

fun read_until :: "nat \<Rightarrow> bytes \<Rightarrow> bytes \<times> bytes" where
  "read_until n [] = ([], [])"
| "read_until n (b # bs) =
     (if n = 0 then ([], b # bs)
      else if b = newline then ([b], bs)
      else case read_until (n - 1) bs of (got, rest) \<Rightarrow> (b # got, rest))"

definition strip_cr :: "bytes \<Rightarrow> bytes" where
  "strip_cr bs = (if bs \<noteq> [] \<and> last bs = CHR 0x0D then butlast bs else bs)"

definition line_ended :: "bytes \<Rightarrow> bool" where
  "line_ended got \<longleftrightarrow> got \<noteq> [] \<and> last got = newline"

definition read_protocol_line :: "stream \<Rightarrow> (error + string option) \<times> stream" where
  "read_protocol_line r =
     (let (got, rest) = read_until (max_protocol_line_bytes + 2) (incoming r);
          r' = r\<lparr>incoming := rest\<rparr>;
          at_end = (\<not> line_ended got \<and> length got < max_protocol_line_bytes + 2)
      in case (if at_end then read_fault r else None) of
           Some e \<Rightarrow> (Inl (EIo e), r')
         | None \<Rightarrow>
             if got = [] then (Inr None, r')
             else if \<not> line_ended got then
               (Inl (EIo ''unterminated or oversized protocol line''), r')
             else
               (let line = strip_cr (butlast got)
                in if length line > max_protocol_line_bytes then
                     (Inl (EIo ''protocol line exceeds 65535-byte UTF-8 payload limit''), r')
                   else if utf8_valid line then (Inr (Some line), r')
                   else (Inl (EIo ''protocol line is not UTF-8''), r')))"

section \<open>The transport\<close>

datatype shutdown_outcome = ShutdownDone | NotConnected | ShutdownFails string

text \<open>
  The child behind a stdio transport is its exit status once waited for (an error of \<^verbatim>\<open>wait\<close>,
  or the exit code unless a signal ended it), and whether its standard input is still held.
\<close>

datatype transport_inner =
    Stdio "string + int option" bool stream
  | Tcp shutdown_outcome stream
  | Tls shutdown_outcome stream

fun inner_stream :: "transport_inner \<Rightarrow> stream" where
  "inner_stream (Stdio c i s) = s"
| "inner_stream (Tcp d s) = s"
| "inner_stream (Tls d s) = s"

fun with_stream :: "transport_inner \<Rightarrow> stream \<Rightarrow> transport_inner" where
  "with_stream (Stdio c i _) s = Stdio c i s"
| "with_stream (Tcp d _) s = Tcp d s"
| "with_stream (Tls d _) s = Tls d s"

text \<open>The observer of received lines is the list of the lines it has been given, if there is one.\<close>

record transport =
  t_inner :: transport_inner
  t_closed :: bool
  close_code :: "int option"
  peer_fingerprint :: "string option"
  async_capable :: bool
  received_observer :: "string list option"

definition open_transport :: "transport_inner \<Rightarrow> string option \<Rightarrow> bool \<Rightarrow> transport" where
  "open_transport inner fp async =
     \<lparr>t_inner = inner, t_closed = False, close_code = None, peer_fingerprint = fp,
      async_capable = async, received_observer = None\<rparr>"

definition spawn_mirror ::
    "(string \<Rightarrow> string + (string + int option) \<times> stream) \<Rightarrow> string \<Rightarrow> error + transport" where
  "spawn_mirror spawn bin =
     (case spawn bin of
        Inl e \<Rightarrow> Inl (EIo e)
      | Inr (child, s) \<Rightarrow> Inr (open_transport (Stdio child True s) None False))"

definition connect_mirror ::
    "(string \<Rightarrow> nat \<Rightarrow> string + shutdown_outcome \<times> stream) \<Rightarrow> string \<Rightarrow> nat \<Rightarrow> error + transport" where
  "connect_mirror connect host port =
     (case connect host port of
        Inl e \<Rightarrow> Inl (EIo e)
      | Inr (d, s) \<Rightarrow> Inr (open_transport (Tcp d s) None True))"

definition send :: "transport \<Rightarrow> string \<Rightarrow> (error + unit) \<times> transport" where
  "send t line =
     (case validate_protocol_line line of
        Inl e \<Rightarrow> (Inl e, t)
      | Inr _ \<Rightarrow>
          if t_closed t then (Inl ETransportClosed, t)
          else
            (case t_inner t of
               Stdio c False s \<Rightarrow> (Inl ETransportClosed, t)
             | inner \<Rightarrow>
                 (case write_protocol_line (inner_stream inner) line of
                    (r, s') \<Rightarrow> (r, t\<lparr>t_inner := with_stream inner s'\<rparr>))))"

definition transport_recv :: "transport \<Rightarrow> (error + string option) \<times> transport" where
  "transport_recv t =
     (if t_closed t then (Inl ETransportClosed, t)
      else
        (case read_protocol_line (inner_stream (t_inner t)) of
           (r, s') \<Rightarrow>
             (r, t\<lparr>t_inner := with_stream (t_inner t) s',
                  received_observer :=
                    (case r of
                       Inr (Some line) \<Rightarrow> map_option (\<lambda>seen. seen @ [line]) (received_observer t)
                     | _ \<Rightarrow> received_observer t)\<rparr>)))"

definition shutdown_socket :: "shutdown_outcome \<Rightarrow> error + unit" where
  "shutdown_socket d =
     (case d of ShutdownDone \<Rightarrow> Inr () | NotConnected \<Rightarrow> Inr () | ShutdownFails e \<Rightarrow> Inl (EIo e))"

definition close :: "transport \<Rightarrow> (error + int) \<times> transport" where
  "close t =
     (case close_code t of
        Some code \<Rightarrow> (Inr code, t)
      | None \<Rightarrow>
          (let t' = t\<lparr>t_closed := True\<rparr>
           in case t_inner t of
                Stdio child _ s \<Rightarrow>
                  (let t'' = t'\<lparr>t_inner := Stdio child False s\<rparr>
                   in case child of
                        Inl e \<Rightarrow> (Inl (EIo e), t'')
                      | Inr status \<Rightarrow>
                          (let code = (case status of Some c \<Rightarrow> c | None \<Rightarrow> 0)
                           in (Inr code, t''\<lparr>close_code := Some code\<rparr>)))
              | Tcp d s \<Rightarrow>
                  (case shutdown_socket d of
                     Inl e \<Rightarrow> (Inl e, t') | Inr _ \<Rightarrow> (Inr 0, t'\<lparr>close_code := Some 0\<rparr>))
              | Tls d s \<Rightarrow>
                  (case shutdown_socket d of
                     Inl e \<Rightarrow> (Inl e, t') | Inr _ \<Rightarrow> (Inr 0, t'\<lparr>close_code := Some 0\<rparr>))))"

text \<open>Dropping the transport closes it.\<close>

definition drop_transport :: "transport \<Rightarrow> transport" where
  "drop_transport t = snd (close t)"

definition observe_received :: "transport \<Rightarrow> transport" where
  "observe_received t = t\<lparr>received_observer := Some []\<rparr>"


section \<open>Admitting a TLS peer\<close>

text \<open>What the admission of a TLS peer asks of the file system, the network and \<^verbatim>\<open>rustls\<close>.\<close>

record tls_env =
  file_mode :: "string \<Rightarrow> string + nat"
  open_file :: "string \<Rightarrow> string + bytes"
  pem_certs :: "bytes \<Rightarrow> string + bytes list"
  pem_private_key :: "bytes \<Rightarrow> string + bytes option"
  add_root :: "bytes \<Rightarrow> string option"
  client_auth :: "bytes list \<Rightarrow> bytes list \<Rightarrow> bytes \<Rightarrow> string option"
  server_name_ok :: "string \<Rightarrow> bool"
  new_client :: "string \<Rightarrow> string option"
  tcp_connect :: "string \<Rightarrow> nat \<Rightarrow> string + shutdown_outcome \<times> stream"
  handshake_io :: "string option list"
  peer_certificates :: "bytes list option"
  sha256 :: "bytes \<Rightarrow> bytes"

record tls_options =
  ca_path :: string
  cert_path :: string
  key_path :: string
  tls_pin :: "string option"
  server_name :: "string option"

fun octal_digits :: "nat \<Rightarrow> nat \<Rightarrow> string" where
  "octal_digits 0 n = []"
| "octal_digits (Suc w) n = octal_digits w (n div 8) @ [char_of (48 + n mod 8)]"

text \<open>\<^verbatim>\<open>mode & 0o7777\<close> are the low 12 bits.\<close>

definition assert_private_key_mode :: "tls_env \<Rightarrow> string \<Rightarrow> error + unit" where
  "assert_private_key_mode env path =
     (case file_mode env path of
        Inl e \<Rightarrow> Inl (EIo e)
      | Inr mode \<Rightarrow>
          if mode mod 4096 \<noteq> 384 then
            Inl (EInvalidArgument
              (''client key '' @ path @ '' has mode '' @ octal_digits 4 (mode mod 4096)
               @ ''; chmod 0600 is required''))
          else Inr ())"

definition load_certificates :: "tls_env \<Rightarrow> string \<Rightarrow> string \<Rightarrow> error + bytes list" where
  "load_certificates env path label =
     (case open_file env path of
        Inl e \<Rightarrow> Inl (EIo e)
      | Inr file \<Rightarrow>
          (case pem_certs env file of
             Inl e \<Rightarrow> Inl (ETls (''cannot parse '' @ label @ '' certificate file: '' @ e))
           | Inr certs \<Rightarrow> Inr certs))"

definition load_private_key :: "tls_env \<Rightarrow> string \<Rightarrow> error + bytes" where
  "load_private_key env path =
     (case open_file env path of
        Inl e \<Rightarrow> Inl (EIo e)
      | Inr file \<Rightarrow>
          (case pem_private_key env file of
             Inl e \<Rightarrow> Inl (EIo e)
           | Inr None \<Rightarrow> Inl (ETls ''client key file contains no private key'')
           | Inr (Some key) \<Rightarrow> Inr key))"

definition normalize_fingerprint :: "string \<Rightarrow> error + string" where
  "normalize_fingerprint pin =
     (let normalized = to_ascii_lowercase (filter (\<lambda>c. c \<noteq> CHR '':'') (trim pin))
      in if length normalized \<noteq> 64 \<or> \<not> list_all is_ascii_hexdigit normalized
         then Inl (EInvalidArgument ''certificate pin must be 64 hexadecimal SHA-256 characters'')
         else Inr normalized)"

definition hex_digit :: "nat \<Rightarrow> char" where
  "hex_digit n = (if n < 10 then char_of (48 + n) else char_of (87 + n))"

definition hex_byte :: "char \<Rightarrow> string" where
  "hex_byte b = [hex_digit (byte_of b div 16), hex_digit (byte_of b mod 16)]"

definition sha256_hex :: "tls_env \<Rightarrow> bytes \<Rightarrow> string" where
  "sha256_hex env bs = concat (map hex_byte (sha256 env bs))"

fun add_roots :: "tls_env \<Rightarrow> bytes list \<Rightarrow> error + unit" where
  "add_roots env [] = Inr ()"
| "add_roots env (c # cs) =
     (case add_root env c of
        Some e \<Rightarrow> Inl (ETls (''invalid CA certificate: '' @ e)) | None \<Rightarrow> add_roots env cs)"

text \<open>\<^verbatim>\<open>while connection.is_handshaking()\<close>: the results of the calls of \<^verbatim>\<open>complete_io\<close>.\<close>

fun run_handshake :: "string option list \<Rightarrow> error + unit" where
  "run_handshake [] = Inr ()"
| "run_handshake (Some e # _) = Inl (ETls (''TLS handshake failed: '' @ e))"
| "run_handshake (None # rest) = run_handshake rest"

definition some_error :: "(string \<Rightarrow> error) \<Rightarrow> string option \<Rightarrow> error + unit" where
  "some_error f x = (case x of Some e \<Rightarrow> Inl (f e) | None \<Rightarrow> Inr ())"

definition guard :: "bool \<Rightarrow> error \<Rightarrow> error + unit" where
  "guard b e = (if b then Inr () else Inl e)"

definition check_pin :: "string option \<Rightarrow> string \<Rightarrow> error + unit" where
  "check_pin p fingerprint =
     (case p of
        None \<Rightarrow> Inr ()
      | Some pin \<Rightarrow>
          try_ok (normalize_fingerprint pin) (\<lambda>expected.
          guard (fingerprint = expected)
            (ETls (''certificate fingerprint mismatch: expected '' @ expected @ '', got '' @ fingerprint))))"

definition peer_leaf :: "tls_env \<Rightarrow> error + bytes" where
  "peer_leaf env =
     (case peer_certificates env of
        Some (leaf # _) \<Rightarrow> Inr leaf
      | _ \<Rightarrow> Inl (ETls ''TLS peer did not present a certificate''))"

definition connect_tls_mirror :: "tls_env \<Rightarrow> string \<Rightarrow> nat \<Rightarrow> tls_options \<Rightarrow> error + transport" where
  "connect_tls_mirror env host port options =
     try_ok (assert_private_key_mode env (key_path options)) (\<lambda>_.
     try_ok (load_certificates env (ca_path options) ''CA'') (\<lambda>ca_certs.
     try_ok (add_roots env ca_certs) (\<lambda>_.
     try_ok (guard (ca_certs \<noteq> []) (ETls ''CA file contains no certificates'')) (\<lambda>_.
     try_ok (load_certificates env (cert_path options) ''client'') (\<lambda>client_certs.
     try_ok (guard (client_certs \<noteq> []) (ETls ''client certificate file contains no certificates'')) (\<lambda>_.
     try_ok (load_private_key env (key_path options)) (\<lambda>client_key.
     try_ok (some_error (\<lambda>e. ETls (''invalid client certificate/key: '' @ e))
               (client_auth env ca_certs client_certs client_key)) (\<lambda>_.
     let verify_name = (case server_name options of Some n \<Rightarrow> n | None \<Rightarrow> host) in
     try_ok (guard (server_name_ok env verify_name)
               (EInvalidArgument (''invalid TLS server name: '' @ verify_name))) (\<lambda>_.
     try_ok (some_error (\<lambda>e. ETls (''cannot create TLS client: '' @ e)) (new_client env verify_name)) (\<lambda>_.
     try_ok (case tcp_connect env host port of Inl e \<Rightarrow> Inl (EIo e) | Inr c \<Rightarrow> Inr c) (\<lambda>(d, s).
     try_ok (run_handshake (handshake_io env)) (\<lambda>_.
     try_ok (peer_leaf env) (\<lambda>leaf.
     let fingerprint = sha256_hex env leaf in
     try_ok (check_pin (tls_pin options) fingerprint) (\<lambda>_.
     Inr (open_transport (Tls d s) (Some fingerprint) True)))))))))))))))"


section \<open>Reading what was written\<close>

lemma read_until_split: "read_until n bs = (got, rest) \<Longrightarrow> bs = got @ rest \<and> length got \<le> n"
  by (induction n bs arbitrary: got rule: read_until.induct) (fastforce split: if_splits prod.splits)+

lemma read_until_line:
  "newline \<notin> set line \<Longrightarrow> length line < n \<Longrightarrow> read_until n (line @ newline # rest) = (line @ [newline], rest)"
  by (induction line arbitrary: n) auto

lemma read_until_no_newline: "read_until n bs = (got, rest) \<Longrightarrow> newline \<notin> set (butlast got)"
  by (induction n bs arbitrary: got rule: read_until.induct) (auto split: if_splits prod.splits)

text \<open>A line the transport takes and gives back unchanged.\<close>

definition faithful_line :: "string \<Rightarrow> bool" where
  "faithful_line line \<longleftrightarrow>
     validate_protocol_line line = Inr () \<and> utf8_valid line \<and> last line \<noteq> CHR 0x0D"

lemma validate_Inr:
  "validate_protocol_line line = Inr u \<longleftrightarrow>
     line \<noteq> [] \<and> newline \<notin> set line \<and> length line \<le> max_protocol_line_bytes"
  by (auto simp: validate_protocol_line_def)

lemma read_faithful_line:
  assumes "faithful_line line" and "incoming r = line @ newline # rest"
  shows "read_protocol_line r = (Inr (Some line), r\<lparr>incoming := rest\<rparr>)"
proof -
  have "read_until (max_protocol_line_bytes + 2) (incoming r) = (line @ [newline], rest)"
    unfolding assms(2) by (rule read_until_line) (use assms(1) in \<open>auto simp: faithful_line_def validate_Inr\<close>)
  moreover have "length line \<le> max_protocol_line_bytes" "utf8_valid line" "strip_cr line = line"
    using assms(1) by (auto simp: faithful_line_def validate_Inr strip_cr_def)
  ultimately show ?thesis
    by (simp add: read_protocol_line_def line_ended_def)
qed

lemma read_line_cases:
  assumes "read_protocol_line r = (Inr (Some line), r')"
  obtains eol where "incoming r = line @ eol @ incoming r'"
    and "eol = [newline] \<or> eol = [CHR 0x0D, newline]"
    and "newline \<notin> set line" and "length line \<le> max_protocol_line_bytes" and "utf8_valid line"
    and "r' = r\<lparr>incoming := incoming r'\<rparr>"
proof -
  obtain got rest where g: "read_until (max_protocol_line_bytes + 2) (incoming r) = (got, rest)"
    by (cases "read_until (max_protocol_line_bytes + 2) (incoming r)") blast
  have got: "got \<noteq> []" "last got = newline" "line = strip_cr (butlast got)"
    and ok: "length line \<le> max_protocol_line_bytes" "utf8_valid line" "r' = r\<lparr>incoming := rest\<rparr>"
    using assms g
    by (auto simp: read_protocol_line_def line_ended_def Let_def split: option.splits if_splits)
  have no: "newline \<notin> set (butlast got)" by (rule read_until_no_newline [OF g])
  have split: "incoming r = butlast got @ [newline] @ rest"
    using read_until_split [OF g] got by (metis append.assoc append_butlast_last_id)
  show thesis
  proof (cases "butlast got \<noteq> [] \<and> last (butlast got) = CHR 0x0D")
    case True
    then have b: "butlast got = line @ [CHR 0x0D]"
      using got(3) by (metis append_butlast_last_id strip_cr_def)
    show thesis
    proof (rule that [of "[CHR 0x0D, newline]"])
      show "incoming r = line @ [CHR 0x0D, newline] @ incoming r'" using split b ok(3) by simp
      show "newline \<notin> set line" using no b by simp
    qed (use ok in simp_all)
  next
    case False
    then have b: "butlast got = line" using got(3) by (auto simp: strip_cr_def)
    show thesis
    proof (rule that [of "[newline]"])
      show "incoming r = line @ [newline] @ incoming r'" using split b ok(3) by simp
      show "newline \<notin> set line" using no b by simp
    qed (use ok in simp_all)
  qed
qed

lemma write_no_fault:
  "write_fault w = None \<Longrightarrow>
     write_protocol_line w line = (Inr (), w\<lparr>outgoing := outgoing w @ line @ [newline]\<rparr>)"
  by (simp add: write_protocol_line_def write_all_def)


section \<open>The channel a session runs on\<close>

abbreviation t_stream :: "transport \<Rightarrow> stream" where
  "t_stream t \<equiv> inner_stream (t_inner t)"

definition pending :: "transport \<Rightarrow> nat" where
  "pending t = length (incoming (t_stream t))"

text \<open>
  What the client relies on: a received line consumes input, sending does not touch it, and a closed
  channel refuses both directions for good.
\<close>

locale line_channel =
  fixes snd_line :: "'t \<Rightarrow> string \<Rightarrow> (error + unit) \<times> 't"
    and rcv_line :: "'t \<Rightarrow> (error + string option) \<times> 't"
    and close_line :: "'t \<Rightarrow> (error + int) \<times> 't"
    and unread :: "'t \<Rightarrow> nat"
    and is_closed :: "'t \<Rightarrow> bool"
    and invar :: "'t \<Rightarrow> bool"
  assumes rcv_consumes: "rcv_line t = (Inr (Some line), t') \<Longrightarrow> unread t' < unread t"
    and rcv_unread: "unread (snd (rcv_line t)) \<le> unread t"
    and snd_unread: "unread (snd (snd_line t line)) = unread t"
    and close_closes: "invar t \<Longrightarrow> is_closed (snd (close_line t))"
    and invar_close: "invar t \<Longrightarrow> invar (snd (close_line t))"
    and invar_rcv: "invar t \<Longrightarrow> invar (snd (rcv_line t))"
    and invar_snd: "invar t \<Longrightarrow> invar (snd (snd_line t line))"
    and closed_rcv: "is_closed t \<Longrightarrow> rcv_line t = (Inl ETransportClosed, t)"
    and closed_snd: "is_closed t \<Longrightarrow> \<exists>e. snd_line t line = (Inl e, t)"
begin

lemma exchange_consumes:
  "rcv_line t = (Inr (Some line), t1) \<Longrightarrow> unread (snd (snd_line t1 reply)) < unread t"
  by (simp add: snd_unread rcv_consumes)

lemma after_close: "invar t \<Longrightarrow> fst (rcv_line (snd (close_line t))) = Inl ETransportClosed"
  by (simp add: closed_rcv close_closes)

text \<open>A line-driven loop cannot take more steps than there are bytes to read.\<close>

fun received :: "nat \<Rightarrow> 't \<Rightarrow> string list" where
  "received 0 t = []"
| "received (Suc n) t = (case rcv_line t of (Inr (Some line), t') \<Rightarrow> line # received n t' | _ \<Rightarrow> [])"

lemma received_bounded: "length (received n t) \<le> unread t"
proof (induction n arbitrary: t)
  case (Suc n)
  show ?case
  proof (cases "\<exists>line t'. rcv_line t = (Inr (Some line), t')")
    case True
    then obtain line t' where r: "rcv_line t = (Inr (Some line), t')" by blast
    have "length (received n t') \<le> unread t'" by (rule Suc.IH)
    then show ?thesis using rcv_consumes [OF r] r by simp
  next
    case False
    then show ?thesis by (auto split: prod.splits sum.splits option.splits)
  qed
qed simp

lemma received_closed: "is_closed t \<Longrightarrow> received n t = []"
  by (cases n) (simp_all add: closed_rcv)

end

lemma inner_with_stream [simp]: "inner_stream (with_stream i s) = s"
  by (cases i) auto

lemma write_all_incoming: "incoming (snd (write_all w bs)) = incoming w"
  by (simp add: write_all_def split: option.split prod.split)

lemma write_line_incoming: "incoming (snd (write_protocol_line w line)) = incoming w"
proof (cases "write_all w line")
  case (Pair x w')
  then have "incoming w' = incoming w" using write_all_incoming [of w line] by simp
  then show ?thesis using Pair write_all_incoming [of w' "[newline]"]
    by (simp add: write_protocol_line_def split: sum.split)
qed

lemma send_unread: "incoming (t_stream (snd (send t line))) = incoming (t_stream t)"
  using write_line_incoming
  by (auto simp: send_def split: sum.splits transport_inner.splits prod.splits bool.splits)
    (metis snd_conv)+

lemma recv_incoming:
  assumes "t_closed t = False"
  shows "transport_recv t = (r, t') \<Longrightarrow>
    read_protocol_line (t_stream t) = (r, t_stream t') \<and> t_closed t' = t_closed t"
  using assms by (auto simp: transport_recv_def split: prod.splits)

lemma read_line_suffix:
  assumes "read_protocol_line r = (x, r')"
  shows "length (incoming r') \<le> length (incoming r)"
proof -
  obtain got rest where g: "read_until (max_protocol_line_bytes + 2) (incoming r) = (got, rest)"
    by (cases "read_until (max_protocol_line_bytes + 2) (incoming r)") blast
  then have "incoming r' = rest"
    using assms by (auto simp: read_protocol_line_def Let_def split: option.splits if_splits)
  then show ?thesis using read_until_split [OF g] by simp
qed

text \<open>A close code is only ever set on a closed transport: the invariant of the type.\<close>

definition transport_ok :: "transport \<Rightarrow> bool" where
  "transport_ok t \<longleftrightarrow> (close_code t \<noteq> None \<longrightarrow> t_closed t)"

lemma transport_ok_close: "transport_ok t \<Longrightarrow> transport_ok (snd (close t)) \<and> t_closed (snd (close t))"
  by (auto simp: transport_ok_def close_def Let_def
      split: option.splits transport_inner.splits sum.splits)

lemma transport_ok_send: "transport_ok t \<Longrightarrow> transport_ok (snd (send t line))"
  by (auto simp: transport_ok_def send_def
      split: option.splits transport_inner.splits sum.splits prod.splits bool.splits)

lemma transport_ok_recv: "transport_ok t \<Longrightarrow> transport_ok (snd (transport_recv t))"
  by (auto simp: transport_ok_def transport_recv_def split: prod.splits)


lemma recv_consumes:
  assumes "transport_recv t = (Inr (Some line), t')"
  shows "pending t' < pending t"
proof -
  have open_t: "t_closed t = False" using assms by (auto simp: transport_recv_def)
  have "read_protocol_line (t_stream t) = (Inr (Some line), t_stream t')"
    using recv_incoming [OF open_t assms] by simp
  then show ?thesis by (rule read_line_cases) (auto simp: pending_def)
qed

lemma recv_pending: "pending (snd (transport_recv t)) \<le> pending t"
proof (cases "t_closed t")
  case False
  then show ?thesis
    using recv_incoming [of t "fst (transport_recv t)" "snd (transport_recv t)"] read_line_suffix
    by (fastforce simp: pending_def)
qed (simp add: transport_recv_def)

lemma closed_send: "t_closed t \<Longrightarrow> \<exists>e. send t line = (Inl e, t)"
  by (auto simp: send_def split: sum.split)

interpretation channel: line_channel send transport_recv close pending t_closed transport_ok
proof unfold_locales
  show "transport_recv t = (Inr (Some line), t') \<Longrightarrow> pending t' < pending t" for t line t'
    by (rule recv_consumes)
  show "pending (snd (transport_recv t)) \<le> pending t" for t by (rule recv_pending)
  show "pending (snd (send t line)) = pending t" for t line by (simp add: pending_def send_unread)
  show "t_closed t \<Longrightarrow> transport_recv t = (Inl ETransportClosed, t)" for t
    by (simp add: transport_recv_def)
  show "t_closed t \<Longrightarrow> \<exists>e. send t line = (Inl e, t)" for t line by (rule closed_send)
qed (auto simp: transport_ok_close transport_ok_recv transport_ok_send)

section \<open>Sequences of lines\<close>

fun send_all :: "transport \<Rightarrow> string list \<Rightarrow> (error + unit) \<times> transport" where
  "send_all t [] = (Inr (), t)"
| "send_all t (line # lines) =
     (case send t line of (Inl e, t') \<Rightarrow> (Inl e, t') | (Inr _, t') \<Rightarrow> send_all t' lines)"

fun recv_all :: "nat \<Rightarrow> transport \<Rightarrow> (error + string option list) \<times> transport" where
  "recv_all 0 t = (Inr [], t)"
| "recv_all (Suc n) t =
     (case transport_recv t of
        (Inl e, t') \<Rightarrow> (Inl e, t')
      | (Inr x, t') \<Rightarrow>
          (case recv_all n t' of (Inl e, t'') \<Rightarrow> (Inl e, t'') | (Inr xs, t'') \<Rightarrow> (Inr (x # xs), t'')))"

definition wire_lines :: "string list \<Rightarrow> bytes" where
  "wire_lines lines = concat (map (\<lambda>line. line @ [newline]) lines)"

definition can_write :: "transport \<Rightarrow> bool" where
  "can_write t \<longleftrightarrow> \<not> t_closed t \<and> write_fault (t_stream t) = None
     \<and> (case t_inner t of Stdio _ held _ \<Rightarrow> held | _ \<Rightarrow> True)"

lemma send_ready:
  assumes "can_write t" and "validate_protocol_line line = Inr ()"
  obtains t' where "send t line = (Inr (), t')" and "can_write t'"
    and "outgoing (t_stream t') = outgoing (t_stream t) @ line @ [newline]"
proof -
  have w: "write_protocol_line (t_stream t) line
      = (Inr (), (t_stream t)\<lparr>outgoing := outgoing (t_stream t) @ line @ [newline]\<rparr>)"
    by (rule write_no_fault) (use assms(1) in \<open>simp add: can_write_def\<close>)
  let ?t = "t\<lparr>t_inner := with_stream (t_inner t)
    ((t_stream t)\<lparr>outgoing := outgoing (t_stream t) @ line @ [newline]\<rparr>)\<rparr>"
  have "send t line = (Inr (), ?t)"
    using assms w by (cases "t_inner t") (auto simp: send_def can_write_def split: bool.splits)
  moreover have "can_write ?t" using assms(1) by (cases "t_inner t") (auto simp: can_write_def)
  ultimately show thesis by (rule that) simp
qed

lemma send_all_ready:
  assumes "can_write t" and "\<forall>line \<in> set lines. validate_protocol_line line = Inr ()"
  shows "\<exists>t'. send_all t lines = (Inr (), t')
    \<and> outgoing (t_stream t') = outgoing (t_stream t) @ wire_lines lines"
  using assms
proof (induction lines arbitrary: t)
  case Nil
  then show ?case by (simp add: wire_lines_def)
next
  case (Cons line lines)
  then obtain t' where t': "send t line = (Inr (), t')" "can_write t'"
    "outgoing (t_stream t') = outgoing (t_stream t) @ line @ [newline]"
    by (auto elim: send_ready)
  obtain t'' where "send_all t' lines = (Inr (), t'')"
    "outgoing (t_stream t'') = outgoing (t_stream t') @ wire_lines lines"
    using Cons.IH [OF t'(2)] Cons.prems by auto
  then show ?case using t' by (simp add: wire_lines_def)
qed

lemma recv_all_lines:
  assumes "\<not> t_closed u" and "read_fault (t_stream u) = None"
    and "incoming (t_stream u) = wire_lines lines"
    and "\<forall>line \<in> set lines. faithful_line line"
  shows "fst (recv_all (Suc (length lines)) u) = Inr (map Some lines @ [None])"
  using assms
proof (induction lines arbitrary: u)
  case Nil
  then have "read_protocol_line (t_stream u) = (Inr None, t_stream u)"
    by (simp add: wire_lines_def read_protocol_line_def numeral_eq_Suc)
  then show ?case using Nil by (simp add: transport_recv_def)
next
  case (Cons line lines)
  have inc: "incoming (t_stream u) = line @ newline # wire_lines lines"
    using Cons.prems(3) by (simp add: wire_lines_def)
  have "read_protocol_line (t_stream u) = (Inr (Some line), (t_stream u)\<lparr>incoming := wire_lines lines\<rparr>)"
    by (rule read_faithful_line [OF _ inc]) (use Cons.prems(4) in simp)
  then obtain u' where u': "transport_recv u = (Inr (Some line), u')" "t_closed u' = t_closed u"
    "t_stream u' = (t_stream u)\<lparr>incoming := wire_lines lines\<rparr>"
    using Cons.prems(1) by (auto simp: transport_recv_def)
  have "fst (recv_all (Suc (length lines)) u') = Inr (map Some lines @ [None])"
    by (rule Cons.IH) (use Cons.prems u' in auto)
  then show ?case
    using u'(1) by (subst recv_all.simps(2)) (auto split: sum.splits prod.splits simp del: recv_all.simps)
qed


lemma close_streams:
  "incoming (t_stream (snd (close t))) = incoming (t_stream t)"
  "outgoing (t_stream (snd (close t))) = outgoing (t_stream t)"
  by (auto simp: close_def Let_def split: option.splits transport_inner.splits sum.splits)

lemma close_async [simp]: "async_capable (snd (close t)) = async_capable t"
  by (auto simp: close_def Let_def split: option.splits transport_inner.splits sum.splits)

section \<open>Fingerprints\<close>

lemma hexdigit_lower_fixed: "is_lower_hex c \<Longrightarrow> to_ascii_lowercase_byte c = c"
  by (auto simp: to_ascii_lowercase_byte_def is_lower_hex_def is_ascii_upper_def is_ascii_digit_def)

lemma hexdigit_no_upper: "is_ascii_hexdigit (to_ascii_lowercase_byte c) \<Longrightarrow> is_lower_hex (to_ascii_lowercase_byte c)"
  by (simp add: hexdigit_lowercase lowercase_hexdigit)

lemma normalize_fingerprint_shape:
  "normalize_fingerprint pin = Inr fp \<Longrightarrow> length fp = 64 \<and> list_all is_lower_hex fp"
  using hexdigit_no_upper
  by (fastforce simp: normalize_fingerprint_def Let_def to_ascii_lowercase_def list_all_iff split: if_splits)

lemma run_handshake_Inr: "run_handshake ios = Inr u \<longleftrightarrow> set ios \<subseteq> {None}"
  by (induction ios rule: run_handshake.induct) auto

lemma some_error_Inr [simp]: "some_error f x = Inr u \<longleftrightarrow> x = None"
  by (auto simp: some_error_def split: option.splits)

lemma guard_Inr [simp]: "guard b e = Inr u \<longleftrightarrow> b"
  by (simp add: guard_def)

lemma check_pin_Inr:
  "check_pin p fp = Inr u \<longleftrightarrow> (\<forall>pin. p = Some pin \<longrightarrow> normalize_fingerprint pin = Inr fp)"
  by (auto simp: check_pin_def split: option.splits)

lemma peer_leaf_Inr: "peer_leaf env = Inr leaf \<longleftrightarrow> (\<exists>rest. peer_certificates env = Some (leaf # rest))"
  by (auto simp: peer_leaf_def split: option.splits list.splits)

section \<open>Properties\<close>

text \<open>
  C8. The line discipline is transparent: lines sent one after the other over a transport that can
  write are all accepted, and a reader of exactly those bytes receives the same lines in the same
  order and then a clean end of the stream.
\<close>

theorem lines_roundtrip:
  assumes "can_write t" and "outgoing (t_stream t) = []"
    and "\<forall>line \<in> set lines. faithful_line line"
    and "\<not> t_closed u" and "read_fault (t_stream u) = None"
    and "incoming (t_stream u) = outgoing (t_stream (snd (send_all t lines)))"
  shows "fst (send_all t lines) = Inr ()
    \<and> fst (recv_all (Suc (length lines)) u) = Inr (map Some lines @ [None])"
proof -
  obtain t' where "send_all t lines = (Inr (), t')" "outgoing (t_stream t') = wire_lines lines"
    using send_all_ready [OF assms(1), of lines] assms(2,3) by (auto simp: faithful_line_def)
  then show ?thesis using recv_all_lines [OF assms(4,5) _ assms(3)] assms(6) by simp
qed

definition sample_stream :: "bytes \<Rightarrow> stream" where
  "sample_stream bs = \<lparr>incoming = bs, outgoing = [], read_fault = None, write_fault = None\<rparr>"

definition sample_transport :: "bytes \<Rightarrow> transport" where
  "sample_transport bs = open_transport (Tcp ShutdownDone (sample_stream bs)) None True"

theorem lines_roundtrip_witness:
  "fst (recv_all 3 (sample_transport (outgoing (t_stream (snd (send_all (sample_transport []) [''ab'', ''c'']))))))
     = Inr [Some ''ab'', Some ''c'', None]"
proof -
  have "\<forall>line \<in> set [''ab'', ''c'']. faithful_line line" by code_simp
  then show ?thesis
    using lines_roundtrip [of "sample_transport []" "[''ab'', ''c'']"
        "sample_transport (outgoing (t_stream (snd (send_all (sample_transport []) [''ab'', ''c'']))))"]
    by (simp add: sample_transport_def sample_stream_def open_transport_def can_write_def numeral_eq_Suc
        del: recv_all.simps send_all.simps)
qed

text \<open>
  C9. A received line is bounded and exact: it has at most 65535 bytes, is valid UTF-8 without a
  newline, and the bytes taken from the stream are the line and one line terminator, nothing more.
\<close>

theorem received_line_exact:
  assumes "read_protocol_line r = (Inr (Some line), r')"
  shows "length line \<le> 65535 \<and> newline \<notin> set line \<and> utf8_valid line
    \<and> (incoming r = line @ [newline] @ incoming r'
       \<or> incoming r = line @ [CHR 0x0D, newline] @ incoming r')"
  using assms by (rule read_line_cases) (auto simp: max_protocol_line_bytes_def)

lemma read_sample:
  "read_protocol_line (sample_stream [CHR ''a'', CHR 0x0D, CHR 0x0A, CHR ''b''])
     = (Inr (Some ''a''), sample_stream ''b'')"
  by code_simp

theorem received_line_exact_witness:
  "newline \<notin> set ''a'' \<and> utf8_valid ''a''"
  using received_line_exact [OF read_sample] by blast

text \<open>
  C10. Closing is final and idempotent: after \<open>close\<close>, whatever it returned, nothing is received
  and no line is written, the bytes of the stream stay as they are, and a close that succeeded gives
  the same code again without touching the transport.
\<close>

theorem close_final:
  assumes "transport_ok t" and "close t = (r, t')"
  shows "transport_recv t' = (Inl ETransportClosed, t')
    \<and> (\<exists>e. send t' line = (Inl e, t'))
    \<and> incoming (t_stream t') = incoming (t_stream t) \<and> outgoing (t_stream t') = outgoing (t_stream t)
    \<and> (\<forall>code. r = Inr code \<longrightarrow> close t' = (Inr code, t'))"
proof -
  have closed: "t_closed t'" using transport_ok_close [OF assms(1)] assms(2) by simp
  have "incoming (t_stream t') = incoming (t_stream t) \<and> outgoing (t_stream t') = outgoing (t_stream t)
      \<and> (\<forall>code. r = Inr code \<longrightarrow> close_code t' = Some code)"
    using assms(2)
    by (auto simp: close_def Let_def split: option.splits transport_inner.splits sum.splits)
  then show ?thesis
    using channel.closed_rcv [OF closed] channel.closed_snd [OF closed] by (auto simp: close_def)
qed

theorem close_final_witness:
  "send (snd (close (sample_transport ''abc''))) ''x'' = (Inl ETransportClosed, snd (close (sample_transport ''abc'')))"
proof -
  let ?t = "sample_transport ''abc''"
  have "transport_ok ?t" by (simp add: transport_ok_def sample_transport_def open_transport_def)
  then have "\<exists>e. send (snd (close ?t)) ''x'' = (Inl e, snd (close ?t))"
    using close_final [of ?t "fst (close ?t)" "snd (close ?t)" "''x''"] by simp
  moreover have "fst (send (snd (close ?t)) ''x'') = Inl ETransportClosed" by code_simp
  ultimately show ?thesis by auto
qed

text \<open>
  C11. A TLS connection is only handed out with a private key of mode 0600, after a handshake
  without errors, with the fingerprint of the certificate the peer presented; and when a pin is
  configured, its normal form, 64 lowercase hexadecimal digits, is that fingerprint.
\<close>

theorem tls_admission:
  assumes "connect_tls_mirror env host port options = Inr t"
  shows "\<exists>mode leaf rest.
      file_mode env (key_path options) = Inr mode \<and> mode mod 8 ^ 4 = 6 * 8 ^ 2
    \<and> set (handshake_io env) \<subseteq> {None}
    \<and> peer_certificates env = Some (leaf # rest) \<and> peer_fingerprint t = Some (sha256_hex env leaf)
    \<and> (\<forall>p. tls_pin options = Some p \<longrightarrow>
          normalize_fingerprint p = Inr (sha256_hex env leaf)
        \<and> length (sha256_hex env leaf) = 64 \<and> list_all is_lower_hex (sha256_hex env leaf))"
proof -
  have key: "\<exists>mode. file_mode env (key_path options) = Inr mode \<and> mode mod 8 ^ 4 = 6 * 8 ^ 2"
    using assms by (auto simp: connect_tls_mirror_def assert_private_key_mode_def split: sum.splits if_splits)
  obtain leaf where "set (handshake_io env) \<subseteq> {None}" "peer_leaf env = Inr leaf"
    "check_pin (tls_pin options) (sha256_hex env leaf) = Inr ()"
    "peer_fingerprint t = Some (sha256_hex env leaf)"
    using assms
    by (auto simp: connect_tls_mirror_def Let_def run_handshake_Inr open_transport_def split: prod.splits)
  then show ?thesis
    using key normalize_fingerprint_shape unfolding peer_leaf_Inr check_pin_Inr by metis
qed

definition sample_env :: tls_env where
  "sample_env =
     \<lparr>file_mode = (\<lambda>_. Inr 0x8180), open_file = (\<lambda>_. Inr []), pem_certs = (\<lambda>_. Inr [ [CHR ''c''] ]),
      pem_private_key = (\<lambda>_. Inr (Some ''k'')), add_root = (\<lambda>_. None), client_auth = (\<lambda>_ _ _. None),
      server_name_ok = (\<lambda>_. True), new_client = (\<lambda>_. None),
      tcp_connect = (\<lambda>_ _. Inr (ShutdownDone, sample_stream [])), handshake_io = [None, None],
      peer_certificates = Some [''leaf''], sha256 = (\<lambda>_. replicate 32 (CHR 0xAB))\<rparr>"

definition sample_options :: tls_options where
  "sample_options =
     \<lparr>ca_path = ''ca'', cert_path = ''cert'', key_path = ''key'',
      tls_pin = Some (concat (replicate 32 ''AB:'')), server_name = None\<rparr>"

lemma connect_sample:
  "connect_tls_mirror sample_env ''host'' 443 sample_options
     = Inr (open_transport (Tls ShutdownDone (sample_stream []))
              (Some (concat (replicate 32 ''ab''))) True)"
  by code_simp

theorem tls_admission_witness:
  "list_all is_lower_hex (sha256_hex sample_env ''leaf'')"
  using tls_admission [OF connect_sample] by (auto simp: sample_env_def sample_options_def)

end
