(* ===== verification/Client.thy ===== *)
theory Client
  imports Transport
begin

text \<open>
  \<^verbatim>\<open>src/client.rs\<close>: the sessions a client runs over a transport (trace replay, trace
  generation, validation) and the asynchronous jobs on a borrowed one.  A transport that goes out of
  scope is dropped, which closes it.  The state computer is a function on a state of its own; a
  panic of it is its \<open>Inl\<close>, and unwinds through the session.
\<close>

section \<open>The environment of a session\<close>

text \<open>The conversions of \<^verbatim>\<open>serde_json\<close> and \<^verbatim>\<open>num_bigint\<close>.\<close>

record wire =
  w_strtok :: "bytes \<Rightarrow> string option"
  w_bigint_of :: "string \<Rightarrow> int option"
  w_bigint_str :: "int \<Rightarrow> string"
  w_render :: "json \<Rightarrow> string"

definition encode_message :: "wire \<Rightarrow> client_message \<Rightarrow> string" where
  "encode_message w m = encode_client_message (w_render w) (w_bigint_str w) m"

definition decode_message :: "wire \<Rightarrow> string \<Rightarrow> error + mirror_message" where
  "decode_message w line = decode_mirror_message (w_strtok w) (w_bigint_of w) line"

datatype failure = Failure error | Panic string

type_synonym 'c computer = "'c \<Rightarrow> string \<Rightarrow> state \<Rightarrow> state \<Rightarrow> (string + state) \<times> 'c"

record preset_computer =
  states :: "state list"
  preset_index :: nat

definition preset_compute :: "preset_computer computer" where
  "preset_compute c action params prev =
     (if preset_index c \<ge> length (states c) then (Inl ''preset_client exhausted'', c)
      else (Inr (states c ! preset_index c), c\<lparr>preset_index := preset_index c + 1\<rparr>))"

definition preset_client :: "state list \<Rightarrow> preset_computer" where
  "preset_client ss = \<lparr>states = ss, preset_index = 0\<rparr>"

record gen_traces_result =
  itf_trace_paths :: "string list"
  itf_traces :: "json list"

record job_accepted =
  accepted_id :: string
  accepted_kind :: job_kind

datatype job_reply = Status string job_phase | Result string job_outcome

section \<open>Receiving and replaying\<close>

definition recv :: "wire \<Rightarrow> transport \<Rightarrow> (error + mirror_message) \<times> transport" where
  "recv w t =
     (case transport_recv t of
        (Inl e, t') \<Rightarrow> (Inl e, t')
      | (Inr (Some line), t') \<Rightarrow> (decode_message w line, t')
      | (Inr None, t') \<Rightarrow> (Inl ETransportClosed, t'))"

lemma recv_consumes_input: "recv w t = (Inr m, t') \<Longrightarrow> pending t' < pending t"
  by (auto simp: recv_def dest: channel.rcv_consumes split: prod.splits sum.splits option.splits)

lemma send_keeps_input: "send t line = (r, t') \<Longrightarrow> pending t' = pending t"
  using channel.snd_unread [of t line] by simp

definition encode_report_state :: "wire \<Rightarrow> state \<Rightarrow> string" where
  "encode_report_state w s = encode_message w (ReportState s)"

text \<open>The variables of the stepping loop.\<close>

record stepping =
  cur_state :: state
  last_param :: state
  last_action :: string

definition initial_stepping :: stepping where
  "initial_stepping = \<lparr>cur_state = [], last_param = [], last_action = []\<rparr>"

text \<open>
  \<^verbatim>\<open>run_stepping_loop\<close> is generic in the error type: \<open>from\<close> is its \<^verbatim>\<open>From<Error>\<close>, and
  the computer fails with that type.
\<close>

function run_stepping_loop ::
    "wire \<Rightarrow> (error \<Rightarrow> 'e) \<Rightarrow> ('c \<Rightarrow> string \<Rightarrow> state \<Rightarrow> state \<Rightarrow> ('e + state) \<times> 'c)
     \<Rightarrow> stepping \<Rightarrow> 'c \<Rightarrow> transport \<Rightarrow> ('e + unit) \<times> 'c \<times> transport" where
  "run_stepping_loop w from_error compute v c t =
     (case recv w t of
        (Inl e, t1) \<Rightarrow> (Inl (from_error e), c, t1)
      | (Inr m, t1) \<Rightarrow>
          (case m of
             MInitialState action from_mirror \<Rightarrow>
               (case compute c action from_mirror [] of
                  (Inl e, c1) \<Rightarrow> (Inl e, c1, t1)
                | (Inr st, c1) \<Rightarrow>
                    (case send t1 (encode_report_state w st) of
                       (Inl e, t2) \<Rightarrow> (Inl (from_error e), c1, t2)
                     | (Inr _, t2) \<Rightarrow>
                         run_stepping_loop w from_error compute
                           (v\<lparr>last_action := action, cur_state := st\<rparr>) c1 t2))
           | MNextStep action parameters \<Rightarrow>
               (case compute c action parameters (cur_state v) of
                  (Inl e, c1) \<Rightarrow> (Inl e, c1, t1)
                | (Inr st, c1) \<Rightarrow>
                    (case send t1 (encode_report_state w st) of
                       (Inl e, t2) \<Rightarrow> (Inl (from_error e), c1, t2)
                     | (Inr _, t2) \<Rightarrow>
                         run_stepping_loop w from_error compute
                           (v\<lparr>last_action := action, last_param := parameters, cur_state := st\<rparr>) c1 t2))
           | MStepOk \<Rightarrow> run_stepping_loop w from_error compute v c t1
           | MAllStepsDone \<Rightarrow> (Inr (), c, t1)
           | MStepMismatch action expected actual hints \<Rightarrow>
               (Inl (from_error (EStepMismatch
                  (case action of Some a \<Rightarrow> a | None \<Rightarrow> last_action v) (last_param v)
                  expected actual hints)), c, t1)
           | MProtocolError e \<Rightarrow> (Inl (from_error (EProtocolError (PeerText e))), c, t1)
           | MRegisterError e \<Rightarrow> (Inl (from_error (ERegisterFailed e)), c, t1)
           | other \<Rightarrow> (Inl (from_error (EUnexpectedMessage ''unexpected message: '' other)), c, t1)))"
  by pat_completeness auto
termination
  by (relation "measure (\<lambda>(w, f, cmp, v, c, t). pending t)")
    (auto dest!: recv_consumes_input [OF sym] send_keeps_input [OF sym])

declare run_stepping_loop.simps [simp del]

definition lift_compute ::
    "'c computer \<Rightarrow> 'c \<Rightarrow> string \<Rightarrow> state \<Rightarrow> state \<Rightarrow> (failure + state) \<times> 'c" where
  "lift_compute compute c action params prev =
     (case compute c action params prev of
        (Inl p, c') \<Rightarrow> (Inl (Panic p), c') | (Inr s, c') \<Rightarrow> (Inr s, c'))"

definition run_main_loop ::
    "wire \<Rightarrow> 'c computer \<Rightarrow> 'c \<Rightarrow> transport \<Rightarrow> (failure + unit) \<times> 'c \<times> transport" where
  "run_main_loop w compute c t =
     (case recv w t of
        (Inl e, t1) \<Rightarrow> (Inl (Failure e), c, t1)
      | (Inr m, t1) \<Rightarrow>
          (case m of
             MSpecValidated Valid \<Rightarrow>
               run_stepping_loop w Failure (lift_compute compute) initial_stepping c t1
           | MSpecValidated (Invalid s) \<Rightarrow> (Inl (Failure (ESpecInvalid s)), c, t1)
           | MProtocolError e \<Rightarrow> (Inl (Failure (EProtocolError (PeerText e))), c, t1)
           | MRegisterError e \<Rightarrow> (Inl (Failure (ERegisterFailed e)), c, t1)
           | other \<Rightarrow> (Inl (Failure (EUnexpectedMessage ''expected spec_validated, got '' other)), c, t1)))"

text \<open>
  \<^verbatim>\<open>main_loop\<close> closes the transport after the loop, and the drop at the end of the scope closes
  it again; after a panic only the drop does.
\<close>

definition main_loop ::
    "wire \<Rightarrow> 'c computer \<Rightarrow> 'c \<Rightarrow> transport \<Rightarrow> (failure + unit) \<times> 'c \<times> transport" where
  "main_loop w compute c t =
     (case run_main_loop w compute c t of
        (Inl (Panic p), c', t') \<Rightarrow> (Inl (Panic p), c', drop_transport t')
      | (r, c', t') \<Rightarrow> (r, c', drop_transport (snd (close t'))))"

definition run_gen_traces_loop :: "wire \<Rightarrow> transport \<Rightarrow> (error + gen_traces_result) \<times> transport" where
  "run_gen_traces_loop w t =
     (case recv w t of
        (Inl e, t1) \<Rightarrow> (Inl e, t1)
      | (Inr m, t1) \<Rightarrow>
          (case m of
             MGenTracesDone paths traces \<Rightarrow> (Inr \<lparr>itf_trace_paths = paths, itf_traces = traces\<rparr>, t1)
           | MProtocolError e \<Rightarrow> (Inl (EProtocolError (PeerText e)), t1)
           | MRegisterError e \<Rightarrow> (Inl (ERegisterFailed e), t1)
           | other \<Rightarrow> (Inl (EUnexpectedMessage ''expected gen_traces_done, got '' other), t1)))"

definition gen_traces_loop :: "wire \<Rightarrow> transport \<Rightarrow> (error + gen_traces_result) \<times> transport" where
  "gen_traces_loop w t =
     (case run_gen_traces_loop w t of (r, t') \<Rightarrow> (r, drop_transport (snd (close t'))))"

section \<open>The sessions\<close>

definition run_client_with_transport ::
    "wire \<Rightarrow> transport \<Rightarrow> apalache_config \<Rightarrow> trace_generation_config \<Rightarrow> 'c computer \<Rightarrow> 'c
     \<Rightarrow> apalache_spec option \<Rightarrow> (failure + unit) \<times> 'c \<times> transport" where
  "run_client_with_transport w t config trace_config compute c spec =
     (case send t (encode_message w (Register config trace_config spec)) of
        (Inl e, t1) \<Rightarrow> (Inl (Failure e), c, drop_transport t1)
      | (Inr _, t1) \<Rightarrow> main_loop w compute c t1)"

definition run_client_with_traces_transport ::
    "wire \<Rightarrow> transport \<Rightarrow> apalache_config \<Rightarrow> string list \<Rightarrow> 'c computer \<Rightarrow> 'c
     \<Rightarrow> (failure + unit) \<times> 'c \<times> transport" where
  "run_client_with_traces_transport w t config trace_paths compute c =
     (case send t (encode_message w (RegisterTraces config trace_paths)) of
        (Inl e, t1) \<Rightarrow> (Inl (Failure e), c, drop_transport t1)
      | (Inr _, t1) \<Rightarrow> main_loop w compute c t1)"

definition run_client_gen_traces_transport ::
    "wire \<Rightarrow> transport \<Rightarrow> apalache_config \<Rightarrow> string \<Rightarrow> trace_generation_config
     \<Rightarrow> apalache_spec option \<Rightarrow> (error + gen_traces_result) \<times> transport" where
  "run_client_gen_traces_transport w t config dest_path trace_config spec =
     (case send t (encode_message w (RegisterTraceGen config trace_config (Some dest_path) spec)) of
        (Inl e, t1) \<Rightarrow> (Inl e, drop_transport t1)
      | (Inr _, t1) \<Rightarrow> gen_traces_loop w t1)"

definition bound_error :: error where
  "bound_error = EInvalidArgument ''validate bound must be in [1, 100]''"

definition bound_ok :: "nat \<Rightarrow> bool" where
  "bound_ok bound \<longleftrightarrow> 1 \<le> bound \<and> bound \<le> 100"

definition run_client_validate_transport ::
    "wire \<Rightarrow> transport \<Rightarrow> apalache_config \<Rightarrow> nat \<Rightarrow> apalache_spec option \<Rightarrow> (error + unit) \<times> transport" where
  "run_client_validate_transport w t config bound spec =
     (if \<not> bound_ok bound then (Inl bound_error, drop_transport t)
      else
        (case send t (encode_message w (RegisterValidate config bound spec)) of
           (Inl e, t1) \<Rightarrow> (Inl e, drop_transport t1)
         | (Inr _, t1) \<Rightarrow>
             (case recv w t1 of
                (Inl e, t2) \<Rightarrow> (Inl e, drop_transport t2)
              | (Inr m, t2) \<Rightarrow>
                  ((case m of
                      MSpecValidated Valid \<Rightarrow> Inr ()
                    | MSpecValidated (Invalid detail) \<Rightarrow> Inl (ESpecInvalid detail)
                    | MProtocolError e \<Rightarrow> Inl (EProtocolError (PeerText e))
                    | MRegisterError e \<Rightarrow> Inl (ERegisterFailed e)
                    | other \<Rightarrow> Inl (EUnexpectedMessage ''expected spec_validated, got '' other)),
                   drop_transport (snd (close t2))))))"


text \<open>The variants that start the mirror themselves.\<close>

type_synonym spawner = "string \<Rightarrow> string + (string + int option) \<times> stream"

definition run_client_with_inline_spec ::
    "wire \<Rightarrow> spawner \<Rightarrow> string \<Rightarrow> apalache_config \<Rightarrow> trace_generation_config \<Rightarrow> 'c computer \<Rightarrow> 'c
     \<Rightarrow> apalache_spec option \<Rightarrow> (failure + unit) \<times> 'c \<times> transport option" where
  "run_client_with_inline_spec w spawn bin config trace_config compute c spec =
     (case spawn_mirror spawn bin of
        Inl e \<Rightarrow> (Inl (Failure e), c, None)
      | Inr t \<Rightarrow>
          (case run_client_with_transport w t config trace_config compute c spec of
             (r, c', t') \<Rightarrow> (r, c', Some t')))"

definition run_client ::
    "wire \<Rightarrow> spawner \<Rightarrow> string \<Rightarrow> apalache_config \<Rightarrow> trace_generation_config \<Rightarrow> 'c computer \<Rightarrow> 'c
     \<Rightarrow> (failure + unit) \<times> 'c \<times> transport option" where
  "run_client w spawn bin config trace_config compute c =
     run_client_with_inline_spec w spawn bin config trace_config compute c None"

definition run_client_with_traces ::
    "wire \<Rightarrow> spawner \<Rightarrow> string \<Rightarrow> apalache_config \<Rightarrow> string list \<Rightarrow> 'c computer \<Rightarrow> 'c
     \<Rightarrow> (failure + unit) \<times> 'c \<times> transport option" where
  "run_client_with_traces w spawn bin config trace_paths compute c =
     (case spawn_mirror spawn bin of
        Inl e \<Rightarrow> (Inl (Failure e), c, None)
      | Inr t \<Rightarrow>
          (case run_client_with_traces_transport w t config trace_paths compute c of
             (r, c', t') \<Rightarrow> (r, c', Some t')))"

definition run_client_gen_traces_with_inline_spec ::
    "wire \<Rightarrow> spawner \<Rightarrow> string \<Rightarrow> apalache_config \<Rightarrow> string \<Rightarrow> trace_generation_config
     \<Rightarrow> apalache_spec option \<Rightarrow> (error + gen_traces_result) \<times> transport option" where
  "run_client_gen_traces_with_inline_spec w spawn bin config dest_path trace_config spec =
     (case spawn_mirror spawn bin of
        Inl e \<Rightarrow> (Inl e, None)
      | Inr t \<Rightarrow>
          (case run_client_gen_traces_transport w t config dest_path trace_config spec of
             (r, t') \<Rightarrow> (r, Some t')))"

definition run_client_gen_traces ::
    "wire \<Rightarrow> spawner \<Rightarrow> string \<Rightarrow> apalache_config \<Rightarrow> string \<Rightarrow> trace_generation_config
     \<Rightarrow> (error + gen_traces_result) \<times> transport option" where
  "run_client_gen_traces w spawn bin config dest_path trace_config =
     run_client_gen_traces_with_inline_spec w spawn bin config dest_path trace_config None"

definition run_client_validate ::
    "wire \<Rightarrow> spawner \<Rightarrow> string \<Rightarrow> apalache_config \<Rightarrow> nat \<Rightarrow> apalache_spec option
     \<Rightarrow> (error + unit) \<times> transport option" where
  "run_client_validate w spawn bin config bound spec =
     (if \<not> bound_ok bound then (Inl bound_error, None)
      else
        (case spawn_mirror spawn bin of
           Inl e \<Rightarrow> (Inl e, None)
         | Inr t \<Rightarrow>
             (case run_client_validate_transport w t config bound spec of (r, t') \<Rightarrow> (r, Some t'))))"

section \<open>Asynchronous jobs\<close>

definition async_error :: error where
  "async_error = EInvalidArgument ''async jobs require a TCP or mTLS server-mode transport''"

definition assert_async_capable :: "transport \<Rightarrow> error + unit" where
  "assert_async_capable t = (if async_capable t then Inr () else Inl async_error)"

text \<open>\<^verbatim>\<open>let _ = t.close()\<close>.\<close>

definition closed_now :: "transport \<Rightarrow> transport" where
  "closed_now t = snd (close t)"

definition send_job :: "transport \<Rightarrow> string \<Rightarrow> (error + unit) \<times> transport" where
  "send_job t line =
     (case send t line of (Inl e, t') \<Rightarrow> (Inl e, closed_now t') | (Inr u, t') \<Rightarrow> (Inr u, t'))"

definition recv_job :: "wire \<Rightarrow> transport \<Rightarrow> (error + mirror_message) \<times> transport" where
  "recv_job w t =
     (case recv w t of (Inl e, t') \<Rightarrow> (Inl e, closed_now t') | (Inr m, t') \<Rightarrow> (Inr m, t'))"

definition accept_job ::
    "job_kind \<Rightarrow> mirror_message \<Rightarrow> transport \<Rightarrow> (error + job_accepted) \<times> transport" where
  "accept_job wanted m t =
     (case m of
        MJobAccepted job kind \<Rightarrow>
          if kind = wanted then (Inr \<lparr>accepted_id = job, accepted_kind = kind\<rparr>, t)
          else (Inl (EUnexpectedMessage ''expected job_accepted, got '' m), closed_now t)
      | MRegisterError e \<Rightarrow> (Inl (ERegisterFailed e), t)
      | MProtocolError e \<Rightarrow> (Inl (EProtocolError (PeerText e)), closed_now t)
      | other \<Rightarrow> (Inl (EUnexpectedMessage ''expected job_accepted, got '' other), closed_now t))"

definition submit_validate_async ::
    "wire \<Rightarrow> transport \<Rightarrow> apalache_config \<Rightarrow> nat \<Rightarrow> apalache_spec option
     \<Rightarrow> (error + job_accepted) \<times> transport" where
  "submit_validate_async w t config bound spec =
     (if \<not> bound_ok bound then (Inl bound_error, t)
      else if \<not> async_capable t then (Inl async_error, t)
      else
        (case send_job t (encode_message w (RegisterValidateAsync config bound spec)) of
           (Inl e, t1) \<Rightarrow> (Inl e, t1)
         | (Inr _, t1) \<Rightarrow>
             (case recv_job w t1 of
                (Inl e, t2) \<Rightarrow> (Inl e, t2)
              | (Inr m, t2) \<Rightarrow> accept_job KindValidate m t2)))"

definition submit_trace_gen_async ::
    "wire \<Rightarrow> transport \<Rightarrow> apalache_config \<Rightarrow> trace_generation_config \<Rightarrow> string option
     \<Rightarrow> apalache_spec option \<Rightarrow> (error + job_accepted) \<times> transport" where
  "submit_trace_gen_async w t config trace_config dest_path spec =
     (case assert_async_capable t of
        Inl e \<Rightarrow> (Inl e, t)
      | Inr _ \<Rightarrow>
          (case send_job t (encode_message w (RegisterTraceGenAsync config trace_config dest_path spec)) of
             (Inl e, t1) \<Rightarrow> (Inl e, t1)
           | (Inr _, t1) \<Rightarrow>
               (case recv_job w t1 of
                  (Inl e, t2) \<Rightarrow> (Inl e, t2)
                | (Inr m, t2) \<Rightarrow> accept_job KindGenTraces m t2)))"

definition decode_job_reply ::
    "transport \<Rightarrow> mirror_message \<Rightarrow> string \<Rightarrow> (error + job_reply) \<times> transport" where
  "decode_job_reply t m expected_id =
     (let unexpected =
            (Inl (EUnexpectedMessage ''expected job_status or job_result, got '' m), closed_now t)
      in case m of
           MJobStatus job phase \<Rightarrow>
             if job = expected_id then (Inr (Status job phase), t) else unexpected
         | MJobResult job outcome \<Rightarrow>
             if job = expected_id then (Inr (Result job outcome), t) else unexpected
         | MRegisterError e \<Rightarrow> (Inl (ERegisterFailed e), t)
         | MProtocolError e \<Rightarrow> (Inl (EProtocolError (PeerText e)), closed_now t)
         | _ \<Rightarrow> unexpected)"

text \<open>The common body of \<^verbatim>\<open>query_job\<close>, \<^verbatim>\<open>await_job\<close> and \<^verbatim>\<open>cancel_job\<close>.\<close>

definition job_exchange ::
    "wire \<Rightarrow> transport \<Rightarrow> string \<Rightarrow> client_message \<Rightarrow> (error + job_reply) \<times> transport" where
  "job_exchange w t job request =
     (case assert_async_capable t of
        Inl e \<Rightarrow> (Inl e, t)
      | Inr _ \<Rightarrow>
          (case send_job t (encode_message w request) of
             (Inl e, t1) \<Rightarrow> (Inl e, t1)
           | (Inr _, t1) \<Rightarrow>
               (case recv_job w t1 of
                  (Inl e, t2) \<Rightarrow> (Inl e, t2)
                | (Inr m, t2) \<Rightarrow> decode_job_reply t2 m job)))"

definition query_job :: "wire \<Rightarrow> transport \<Rightarrow> string \<Rightarrow> (error + job_reply) \<times> transport" where
  "query_job w t job = job_exchange w t job (QueryJob job)"

definition await_job ::
    "wire \<Rightarrow> transport \<Rightarrow> string \<Rightarrow> nat option \<Rightarrow> (error + job_reply) \<times> transport" where
  "await_job w t job timeout_secs = job_exchange w t job (AwaitJob job timeout_secs)"

definition cancel_job :: "wire \<Rightarrow> transport \<Rightarrow> string \<Rightarrow> (error + job_reply) \<times> transport" where
  "cancel_job w t job = job_exchange w t job (CancelJob job)"

section \<open>The replay a session performs\<close>

text \<open>
  What the stepping loop is meant to do, said on messages instead of bytes: the states it reports
  and how it ends.  The end of the messages is the end of the stream.
\<close>

fun replay ::
    "(error \<Rightarrow> 'e) \<Rightarrow> ('c \<Rightarrow> string \<Rightarrow> state \<Rightarrow> state \<Rightarrow> ('e + state) \<times> 'c)
     \<Rightarrow> stepping \<Rightarrow> 'c \<Rightarrow> mirror_message list \<Rightarrow> ('e + unit) \<times> 'c \<times> state list" where
  "replay f compute v c [] = (Inl (f ETransportClosed), c, [])"
| "replay f compute v c (m # ms) =
     (case m of
        MInitialState action params \<Rightarrow>
          (case compute c action params [] of
             (Inl e, c1) \<Rightarrow> (Inl e, c1, [])
           | (Inr st, c1) \<Rightarrow>
               (case replay f compute (v\<lparr>last_action := action, cur_state := st\<rparr>) c1 ms of
                  (r, c2, reports) \<Rightarrow> (r, c2, st # reports)))
      | MNextStep action params \<Rightarrow>
          (case compute c action params (cur_state v) of
             (Inl e, c1) \<Rightarrow> (Inl e, c1, [])
           | (Inr st, c1) \<Rightarrow>
               (case replay f compute
                       (v\<lparr>last_action := action, last_param := params, cur_state := st\<rparr>) c1 ms of
                  (r, c2, reports) \<Rightarrow> (r, c2, st # reports)))
      | MStepOk \<Rightarrow> replay f compute v c ms
      | MAllStepsDone \<Rightarrow> (Inr (), c, [])
      | MStepMismatch action expected actual hints \<Rightarrow>
          (Inl (f (EStepMismatch (case action of Some a \<Rightarrow> a | None \<Rightarrow> last_action v) (last_param v)
             expected actual hints)), c, [])
      | MProtocolError e \<Rightarrow> (Inl (f (EProtocolError (PeerText e))), c, [])
      | MRegisterError e \<Rightarrow> (Inl (f (ERegisterFailed e)), c, [])
      | other \<Rightarrow> (Inl (f (EUnexpectedMessage ''unexpected message: '' other)), c, []))"


text \<open>A transport ready for a session whose peer sends the given lines and then ends the stream.\<close>

definition session_ready :: "transport \<Rightarrow> string list \<Rightarrow> bool" where
  "session_ready t lines \<longleftrightarrow>
     can_write t \<and> read_fault (t_stream t) = None \<and> incoming (t_stream t) = wire_lines lines
     \<and> (\<forall>line \<in> set lines. faithful_line line)"

lemma session_ready_send:
  assumes "session_ready t lines" and "validate_protocol_line line = Inr ()"
  obtains t' where "send t line = (Inr (), t')" and "session_ready t' lines"
    and "outgoing (t_stream t') = outgoing (t_stream t) @ line @ [newline]"
proof -
  obtain t' where t': "send t line = (Inr (), t')" "can_write t'"
    "outgoing (t_stream t') = outgoing (t_stream t) @ line @ [newline]"
    using send_ready assms by (metis session_ready_def)
  moreover have "incoming (t_stream t') = incoming (t_stream t)"
    using send_unread [of t line] t'(1) by simp
  moreover have "read_fault (t_stream t') = read_fault (t_stream t)"
    using t'(1) assms
    by (auto simp: send_def session_ready_def can_write_def write_no_fault
        split: sum.splits transport_inner.splits bool.splits)
  ultimately show thesis using assms(1) by (intro that) (auto simp: session_ready_def)
qed

lemma session_ready_recv:
  assumes "session_ready t (line # lines)"
  obtains t' where "transport_recv t = (Inr (Some line), t')" and "session_ready t' lines"
    and "outgoing (t_stream t') = outgoing (t_stream t)"
proof -
  let ?s = "(t_stream t)\<lparr>incoming := wire_lines lines\<rparr>"
  have "read_protocol_line (t_stream t) = (Inr (Some line), ?s)"
    by (rule read_faithful_line) (use assms in \<open>auto simp: session_ready_def wire_lines_def\<close>)
  then obtain t' where t': "transport_recv t = (Inr (Some line), t')" "t_closed t' = t_closed t"
    "t_inner t' = with_stream (t_inner t) ?s"
    using assms by (auto simp: transport_recv_def session_ready_def can_write_def)
  have "can_write t'"
    using assms t' by (cases "t_inner t") (auto simp: session_ready_def can_write_def)
  then have "session_ready t' lines" using assms t' by (auto simp: session_ready_def)
  then show thesis using t' by (intro that [of t']) auto
qed

lemma session_ready_end:
  assumes "session_ready t []"
  obtains t' where "transport_recv t = (Inr None, t')" and "outgoing (t_stream t') = outgoing (t_stream t)"
proof -
  have "read_protocol_line (t_stream t) = (Inr None, t_stream t)"
    using assms by (simp add: session_ready_def wire_lines_def read_protocol_line_def line_ended_def)
  then show thesis
    using assms that by (auto simp: transport_recv_def session_ready_def can_write_def)
qed

lemma stepping_loop_replays:
  assumes "session_ready t lines" and "map (decode_message w) lines = map Inr ms"
    and "replay f compute v c ms = (r, c', reports)"
    and "\<forall>s \<in> set reports. validate_protocol_line (encode_report_state w s) = Inr ()"
  shows "\<exists>t'. run_stepping_loop w f compute v c t = (r, c', t')
    \<and> outgoing (t_stream t') = outgoing (t_stream t) @ wire_lines (map (encode_report_state w) reports)"
  using assms
proof (induction ms arbitrary: t lines v c r c' reports)
  case Nil
  then obtain t' where t': "transport_recv t = (Inr None, t')" "outgoing (t_stream t') = outgoing (t_stream t)"
    by (auto elim: session_ready_end)
  then have "recv w t = (Inl ETransportClosed, t')" by (simp add: recv_def)
  then show ?case using t' Nil by (auto simp: run_stepping_loop.simps [of w f] wire_lines_def)
next
  case (Cons m ms)
  obtain line rest where lines: "lines = line # rest" "decode_message w line = Inr m"
    "map (decode_message w) rest = map Inr ms"
    using Cons.prems(2) by (cases lines) auto
  obtain t1 where t1: "transport_recv t = (Inr (Some line), t1)" "session_ready t1 rest"
    "outgoing (t_stream t1) = outgoing (t_stream t)"
    using Cons.prems(1) unfolding lines(1) by (rule session_ready_recv)
  have r: "recv w t = (Inr m, t1)" using t1(1) lines(2) by (simp add: recv_def)
  note loop = run_stepping_loop.simps [of w f compute v c t, unfolded r, simplified]
  have report: ?case
    if next_loop: "run_stepping_loop w f compute v c t =
        (case send t1 (encode_report_state w st) of
           (Inl e, t2) \<Rightarrow> (Inl (f e), c1, t2)
         | (Inr _, t2) \<Rightarrow> run_stepping_loop w f compute v1 c1 t2)"
      and next_replay: "replay f compute v1 c1 ms = (r, c', rest_reports)" "reports = st # rest_reports"
    for v1 c1 st rest_reports
  proof -
    have "validate_protocol_line (encode_report_state w st) = Inr ()"
      using Cons.prems(4) next_replay(2) by simp
    then obtain t2 where t2: "send t1 (encode_report_state w st) = (Inr (), t2)" "session_ready t2 rest"
      "outgoing (t_stream t2) = outgoing (t_stream t1) @ encode_report_state w st @ [newline]"
      by (rule session_ready_send [OF t1(2)])
    show ?thesis
      using Cons.IH [OF t2(2) lines(3) next_replay(1)] Cons.prems(4) next_replay(2) next_loop t2 t1(3)
      by (auto simp: wire_lines_def)
  qed
  show ?case
  proof (cases m)
    case (MInitialState a s)
    obtain x c1 where x: "compute c a s [] = (x, c1)" by fastforce
    show ?thesis
    proof (cases x)
      case (Inl e)
      then show ?thesis
        using Cons.prems(3) t1(3) x loop by (simp add: MInitialState wire_lines_def)
    next
      case (Inr st)
      let ?v = "v\<lparr>last_action := a, cur_state := st\<rparr>"
      obtain rest_reports where "replay f compute ?v c1 ms = (r, c', rest_reports)" "reports = st # rest_reports"
        using Cons.prems(3) x Inr MInitialState by (auto split: prod.splits)
      moreover have "run_stepping_loop w f compute v c t =
          (case send t1 (encode_report_state w st) of
             (Inl e, t2) \<Rightarrow> (Inl (f e), c1, t2)
           | (Inr _, t2) \<Rightarrow> run_stepping_loop w f compute ?v c1 t2)"
        using loop x Inr by (simp add: MInitialState)
      ultimately show ?thesis using report by blast
    qed
  next
    case (MNextStep a s)
    obtain x c1 where x: "compute c a s (cur_state v) = (x, c1)" by fastforce
    show ?thesis
    proof (cases x)
      case (Inl e)
      then show ?thesis
        using Cons.prems(3) t1(3) x loop by (simp add: MNextStep wire_lines_def)
    next
      case (Inr st)
      let ?v = "v\<lparr>last_action := a, last_param := s, cur_state := st\<rparr>"
      obtain rest_reports where "replay f compute ?v c1 ms = (r, c', rest_reports)" "reports = st # rest_reports"
        using Cons.prems(3) x Inr MNextStep by (auto split: prod.splits)
      moreover have "run_stepping_loop w f compute v c t =
          (case send t1 (encode_report_state w st) of
             (Inl e, t2) \<Rightarrow> (Inl (f e), c1, t2)
           | (Inr _, t2) \<Rightarrow> run_stepping_loop w f compute ?v c1 t2)"
        using loop x Inr by (simp add: MNextStep)
      ultimately show ?thesis using report by blast
    qed
  next
    case MStepOk
    then show ?thesis
      using Cons.IH [OF t1(2) lines(3) _ Cons.prems(4)] Cons.prems(3) loop t1(3) by simp
  qed (use Cons.prems(3) loop t1(3) in \<open>auto simp: wire_lines_def\<close>)
qed


section \<open>How a session ends\<close>

lemma drop_closes: "transport_ok t \<Longrightarrow> t_closed (drop_transport t)"
  by (simp add: drop_transport_def transport_ok_close)

lemma drop_closed_closes: "transport_ok t \<Longrightarrow> t_closed (drop_transport (snd (close t)))"
  by (simp add: drop_transport_def transport_ok_close)

lemma drop_outgoing: "outgoing (t_stream (drop_transport t)) = outgoing (t_stream t)"
  by (simp add: drop_transport_def close_streams)

lemma send_ok: "send t line = (r, t') \<Longrightarrow> transport_ok t \<Longrightarrow> transport_ok t'"
  using transport_ok_send [of t line] by simp

lemma recv_ok: "recv w t = (r, t') \<Longrightarrow> transport_ok t \<Longrightarrow> transport_ok t'"
  using transport_ok_recv [of t] by (auto simp: recv_def split: prod.splits sum.splits option.splits)

text \<open>What every exchange with the peer keeps, the loop keeps.\<close>

definition kept_by_exchange :: "(transport \<Rightarrow> bool) \<Rightarrow> bool" where
  "kept_by_exchange P \<longleftrightarrow>
     (\<forall>t line. P t \<longrightarrow> P (snd (send t line))) \<and> (\<forall>t. P t \<longrightarrow> P (snd (transport_recv t)))"

lemma kept_send: "kept_by_exchange P \<Longrightarrow> send t line = (r, t') \<Longrightarrow> P t \<Longrightarrow> P t'"
  unfolding kept_by_exchange_def by (metis snd_conv)

lemma kept_transport_recv: "kept_by_exchange P \<Longrightarrow> transport_recv t = (r, t') \<Longrightarrow> P t \<Longrightarrow> P t'"
  unfolding kept_by_exchange_def by (metis snd_conv)

lemma kept_recv: "kept_by_exchange P \<Longrightarrow> recv w t = (r, t') \<Longrightarrow> P t \<Longrightarrow> P t'"
  using kept_transport_recv [of P t] by (auto simp: recv_def split: prod.splits sum.splits option.splits)

lemma stepping_keeps:
  assumes P: "kept_by_exchange P"
  shows "run_stepping_loop w f compute v c t = (r, c', t') \<Longrightarrow> P t \<Longrightarrow> P t'"
proof (induction w f compute v c t arbitrary: r c' t' rule: run_stepping_loop.induct)
  case (1 w f compute v c t)
  obtain x t1 where r: "recv w t = (x, t1)" by fastforce
  have t1: "P t1" using kept_recv [OF P r 1(5)] .
  note IH = 1(1-3) [OF r [symmetric]]
  show ?case
  proof (cases x)
    case (Inl e)
    then show ?thesis using 1(4) t1 by (simp add: run_stepping_loop.simps [of w f compute v c t] r)
  next
    case (Inr m)
    note loop = 1(4) [unfolded run_stepping_loop.simps [of w f compute v c t] r prod.case Inr sum.case]
    show ?thesis
    proof (cases m)
      case (MInitialState a s)
      then show ?thesis
        using loop t1 IH(1) Inr kept_send [OF P, of t1 _ _]
        by (auto split: prod.splits sum.splits)
    next
      case (MNextStep a s)
      then show ?thesis
        using loop t1 IH(2) Inr kept_send [OF P, of t1 _ _]
        by (auto split: prod.splits sum.splits)
    next
      case MStepOk
      then show ?thesis using loop t1 IH(3) Inr by simp
    qed (use loop t1 in simp_all)
  qed
qed

lemma ok_kept: "kept_by_exchange transport_ok"
  by (simp add: kept_by_exchange_def transport_ok_send transport_ok_recv)

lemmas stepping_ok = stepping_keeps [OF ok_kept]

text \<open>How the connection closes is up to the child or the socket, not to what was exchanged.\<close>

lemma closing_kept: "kept_by_exchange (\<lambda>t. fst (close t) = closing)"
  by (auto simp: kept_by_exchange_def send_def transport_recv_def close_def Let_def
      split: sum.splits prod.splits transport_inner.splits bool.splits option.splits)

lemma main_ok:
  "run_main_loop w compute c t = (r, c', t') \<Longrightarrow> transport_ok t \<Longrightarrow> transport_ok t'"
  by (auto simp: run_main_loop_def dest: recv_ok stepping_ok
      split: prod.splits sum.splits mirror_message.splits spec_result.splits)

lemma main_loop_closes:
  assumes "transport_ok t"
  shows "t_closed (snd (snd (main_loop w compute c t)))"
proof -
  obtain r c' t' where r: "run_main_loop w compute c t = (r, c', t')" by (metis prod_cases3)
  then have "transport_ok t'" using assms by (rule main_ok)
  then show ?thesis
    using r by (auto simp: main_loop_def drop_closes drop_closed_closes split: sum.split failure.split)
qed

lemma main_loop_result:
  assumes "run_main_loop w compute c t = (r, c', t3)"
  shows "\<exists>t4. main_loop w compute c t = (r, c', t4) \<and> outgoing (t_stream t4) = outgoing (t_stream t3)"
proof (cases r)
  case (Inl e)
  then show ?thesis using assms by (cases e) (auto simp: main_loop_def drop_outgoing close_streams)
next
  case (Inr u)
  then show ?thesis using assms by (auto simp: main_loop_def drop_outgoing close_streams)
qed

lemma gen_traces_closes:
  assumes "transport_ok t"
  shows "t_closed (snd (gen_traces_loop w t))"
proof -
  obtain r t' where r: "run_gen_traces_loop w t = (r, t')" by fastforce
  then have "transport_ok t'"
    using assms
    by (auto simp: run_gen_traces_loop_def dest: recv_ok
        split: prod.splits sum.splits mirror_message.splits)
  then show ?thesis using r by (simp add: gen_traces_loop_def drop_closed_closes)
qed


section \<open>Jobs leave the connection usable or closed\<close>

text \<open>
  The failures that leave a borrowed connection open: the request was refused before anything was
  sent, or the peer rejected it in so many words.
\<close>

definition keeps_connection :: "error \<Rightarrow> bool" where
  "keeps_connection e \<longleftrightarrow> e = async_error \<or> e = bound_error \<or> (\<exists>m. e = ERegisterFailed m)"

lemma send_job_outcome:
  "send_job t line = (r, t') \<Longrightarrow> transport_ok t \<Longrightarrow>
     transport_ok t' \<and> (case r of Inl e \<Rightarrow> t_closed t' | Inr _ \<Rightarrow> send t line = (Inr (), t'))"
  using transport_ok_close send_ok
  by (fastforce simp: send_job_def closed_now_def split: prod.splits sum.splits)

lemma recv_job_outcome:
  "recv_job w t = (r, t') \<Longrightarrow> transport_ok t \<Longrightarrow>
     transport_ok t' \<and> (case r of Inl e \<Rightarrow> t_closed t' | Inr m \<Rightarrow> recv w t = (Inr m, t'))"
  using transport_ok_close recv_ok
  by (fastforce simp: recv_job_def closed_now_def split: prod.splits sum.splits)

lemma accept_job_outcome:
  assumes "accept_job k m t = (r, t')" and "transport_ok t"
  shows "case r of Inl e \<Rightarrow> t_closed t' \<or> keeps_connection e | Inr a \<Rightarrow> t' = t \<and> m = MJobAccepted (accepted_id a) k"
  using assms transport_ok_close
  by (auto simp: accept_job_def closed_now_def keeps_connection_def
      split: mirror_message.splits if_splits)

lemma decode_job_reply_outcome:
  assumes "decode_job_reply t m job = (r, t')" and "transport_ok t"
  shows "case r of
      Inl e \<Rightarrow> t_closed t' \<or> keeps_connection e
    | Inr a \<Rightarrow> t' = t \<and> (case a of Status j p \<Rightarrow> j = job \<and> m = MJobStatus job p
                              | Result j q \<Rightarrow> j = job \<and> m = MJobResult job q)"
  using assms transport_ok_close
  by (auto simp: decode_job_reply_def closed_now_def keeps_connection_def Let_def
      split: mirror_message.splits if_splits)

lemma job_exchange_outcome:
  assumes "job_exchange w t job request = (r, t')" and "transport_ok t"
  shows "case r of
      Inl e \<Rightarrow> t_closed t' \<or> keeps_connection e
    | Inr a \<Rightarrow> async_capable t \<and> (\<exists>t1 m. send t (encode_message w request) = (Inr (), t1) \<and> recv w t1 = (Inr m, t')
        \<and> (case a of Status j p \<Rightarrow> j = job \<and> m = MJobStatus job p
           | Result j q \<Rightarrow> j = job \<and> m = MJobResult job q))"
proof (cases "async_capable t")
  case False
  then show ?thesis
    using assms by (auto simp: job_exchange_def assert_async_capable_def keeps_connection_def)
next
  case True
  obtain x t1 where s: "send_job t (encode_message w request) = (x, t1)" by fastforce
  note sent = send_job_outcome [OF s assms(2)]
  show ?thesis
  proof (cases x)
    case (Inl e)
    then show ?thesis using assms(1) s sent True by (auto simp: job_exchange_def assert_async_capable_def)
  next
    case (Inr u)
    obtain y t2 where rj: "recv_job w t1 = (y, t2)" by fastforce
    note got = recv_job_outcome [OF rj conjunct1 [OF sent]]
    show ?thesis
    proof (cases y)
      case (Inl e)
      then show ?thesis using assms(1) s rj got True Inr
        by (auto simp: job_exchange_def assert_async_capable_def)
    next
      case (Inr m)
      then have "decode_job_reply t2 m job = (r, t')"
        using assms(1) s rj True \<open>x = Inr u\<close> by (simp add: job_exchange_def assert_async_capable_def)
      from decode_job_reply_outcome [OF this conjunct1 [OF got]] show ?thesis
        using sent got Inr \<open>x = Inr u\<close> True by (cases r) auto
    qed
  qed
qed

lemma submit_validate_outcome:
  assumes "submit_validate_async w t config bound spec = (r, t')" and "transport_ok t"
  shows "case r of
      Inl e \<Rightarrow> t_closed t' \<or> keeps_connection e
    | Inr a \<Rightarrow> bound_ok bound \<and> async_capable t \<and> accepted_kind a = KindValidate"
proof (cases "bound_ok bound \<and> async_capable t")
  case False
  then show ?thesis
    using assms by (auto simp: submit_validate_async_def keeps_connection_def split: if_splits)
next
  case True
  obtain x t1 where s: "send_job t (encode_message w (RegisterValidateAsync config bound spec)) = (x, t1)"
    by fastforce
  note sent = send_job_outcome [OF s assms(2)]
  obtain y t2 where rj: "recv_job w t1 = (y, t2)" by fastforce
  note got = recv_job_outcome [OF rj conjunct1 [OF sent]]
  have acc: "accept_job KindValidate m t2 = (r, t') \<Longrightarrow>
      (case r of Inl e \<Rightarrow> True | Inr a \<Rightarrow> accepted_kind a = KindValidate)" for m
    by (auto simp: accept_job_def split: mirror_message.splits if_splits)
  show ?thesis
    using assms(1) s rj got sent True acc accept_job_outcome [of KindValidate _ t2 r t']
    by (cases x; cases y; cases r) (auto simp: submit_validate_async_def)
qed


section \<open>Properties\<close>

text \<open>
  C12. A trace session does exactly the replay it is meant to do: against a peer whose lines decode
  to a positive validation and then the messages \<open>ms\<close>, the session ends as the replay of
  \<open>ms\<close> does, having sent the registration and then the reports of the replay, each as one
  line and nothing else, and the transport is closed.
\<close>

theorem session_is_replay:
  assumes "session_ready t (vline # lines)" and "transport_ok t" and "outgoing (t_stream t) = []"
    and "decode_message w vline = Inr (MSpecValidated Valid)"
    and "map (decode_message w) lines = map Inr ms"
    and "replay Failure (lift_compute compute) initial_stepping c ms = (r, c', reports)"
    and "validate_protocol_line (encode_message w (Register config trace_config spec)) = Inr ()"
    and "\<forall>s \<in> set reports. validate_protocol_line (encode_report_state w s) = Inr ()"
  shows "\<exists>t'. run_client_with_transport w t config trace_config compute c spec = (r, c', t')
    \<and> t_closed t'
    \<and> outgoing (t_stream t') =
        wire_lines (encode_message w (Register config trace_config spec) # map (encode_report_state w) reports)"
proof -
  obtain t1 where t1: "send t (encode_message w (Register config trace_config spec)) = (Inr (), t1)"
    "session_ready t1 (vline # lines)"
    "outgoing (t_stream t1) = outgoing (t_stream t) @ encode_message w (Register config trace_config spec) @ [newline]"
    by (rule session_ready_send [OF assms(1,7)])
  obtain t2 where t2: "transport_recv t1 = (Inr (Some vline), t2)" "session_ready t2 lines"
    "outgoing (t_stream t2) = outgoing (t_stream t1)"
    by (rule session_ready_recv [OF t1(2)])
  obtain t3 where t3: "run_stepping_loop w Failure (lift_compute compute) initial_stepping c t2 = (r, c', t3)"
    "outgoing (t_stream t3) = outgoing (t_stream t2) @ wire_lines (map (encode_report_state w) reports)"
    using stepping_loop_replays [OF t2(2) assms(5,6,8)] by blast
  have main: "run_main_loop w compute c t1 = (r, c', t3)"
    using t2(1) t3(1) assms(4) by (simp add: run_main_loop_def recv_def)
  have ok: "transport_ok t1" using send_ok [OF t1(1)] assms(2) by simp
  obtain t4 where t4: "main_loop w compute c t1 = (r, c', t4)" "outgoing (t_stream t4) = outgoing (t_stream t3)"
    using main_loop_result [OF main] by blast
  moreover have "t_closed t4" using main_loop_closes [OF ok, of w compute c] t4(1) by simp
  ultimately show ?thesis
    using t1 t2(3) t3(2) assms(3) by (simp add: run_client_with_transport_def wire_lines_def)
qed

text \<open>A small session: one initial state, computed by counting.\<close>

definition count_computer :: "nat computer" where
  "count_computer c action params prev = (Inr [(''n'', VInt (int c))], Suc c)"

definition sample_render :: "json \<Rightarrow> string" where
  "sample_render j =
     (if jfield j ''proto_step'' = JString ''report_state'' then ''report'' else ''register'')"

definition sample_wire :: wire where
  "sample_wire = \<lparr>w_strtok = sample_strtok, w_bigint_of = int_of_text, w_bigint_str = show_int,
     w_render = sample_render\<rparr>"

definition step_line :: "string \<Rightarrow> string" where
  "step_line s = ''{'' @ quoted ''proto_step'' @ '':'' @ quoted s @ ''}''"

definition valid_line :: string where
  "valid_line = ''{'' @ quoted ''proto_step'' @ '':'' @ quoted ''spec_validated'' @ '','' @ quoted ''result''
     @ '':'' @ quoted ''valid'' @ ''}''"

definition sample_config :: apalache_config where
  "sample_config = \<lparr>spec_path = ''a.tla'', init_predicate = None, next_predicate = None,
     const_init = None, invariant = ''Inv'', length_bound = 5, param_vars = None\<rparr>"

definition sample_trace_config :: trace_generation_config where
  "sample_trace_config = \<lparr>num_traces = 1, view = None\<rparr>"

definition sample_session :: transport where
  "sample_session = sample_transport
     (wire_lines [valid_line, sample_line, step_line ''step_ok'', step_line ''all_steps_done''])"

definition sample_messages :: "mirror_message list" where
  "sample_messages = [MInitialState ''init'' [(''x'', VInt (-7))], MStepOk, MAllStepsDone]"

lemma sample_session_lines:
  "list_all faithful_line [valid_line, sample_line, step_line ''step_ok'', step_line ''all_steps_done'']"
  by code_simp

lemma sample_session_ready:
  "session_ready sample_session
     [valid_line, sample_line, step_line ''step_ok'', step_line ''all_steps_done'']"
  using sample_session_lines
  by (simp add: session_ready_def sample_session_def sample_transport_def sample_stream_def
      open_transport_def can_write_def list_all_iff)

lemma sample_session_decodes:
  "decode_message sample_wire valid_line = Inr (MSpecValidated Valid)"
  "map (decode_message sample_wire) [sample_line, step_line ''step_ok'', step_line ''all_steps_done'']
     = map Inr sample_messages"
  by code_simp+

lemma sample_session_replay:
  "replay Failure (lift_compute count_computer) initial_stepping 0 sample_messages
     = (Inr (), 1, [ [(''n'', VInt 0)] ])"
  by code_simp

lemma sample_session_sends:
  "validate_protocol_line (encode_message sample_wire (Register sample_config sample_trace_config None)) = Inr ()"
  "\<forall>s \<in> set [ [(''n'', VInt 0)] ]. validate_protocol_line (encode_report_state sample_wire s) = Inr ()"
  by code_simp+

theorem session_is_replay_witness:
  "\<exists>t'. run_client_with_transport sample_wire sample_session sample_config sample_trace_config count_computer 0 None
     = (Inr (), 1, t') \<and> t_closed t'"
proof -
  have "transport_ok sample_session" "outgoing (t_stream sample_session) = []"
    by (simp_all add: sample_session_def sample_transport_def sample_stream_def open_transport_def transport_ok_def)
  then show ?thesis
    using session_is_replay [OF sample_session_ready _ _ sample_session_decodes sample_session_replay
        sample_session_sends] by blast
qed

fun accepted_trace :: "string \<Rightarrow> state \<Rightarrow> (string \<times> state) list \<Rightarrow> mirror_message list" where
  "accepted_trace a s steps =
     MInitialState a s # MStepOk # concat (map (\<lambda>(a, p). [MNextStep a p, MStepOk]) steps) @ [MAllStepsDone]"

fun run_of :: "(string \<Rightarrow> state \<Rightarrow> state \<Rightarrow> state) \<Rightarrow> state \<Rightarrow> (string \<times> state) list \<Rightarrow> state list" where
  "run_of f prev [] = []"
| "run_of f prev ((a, p) # steps) = f a p prev # run_of f (f a p prev) steps"

lemma replay_steps:
  "replay fe (\<lambda>c a p s. (Inr (f a p s), c)) v c
     (concat (map (\<lambda>(a, p). [MNextStep a p, MStepOk]) steps) @ [MAllStepsDone])
   = (Inr (), c, run_of f (cur_state v) steps)"
  by (induction steps arbitrary: v) auto


text \<open>
  C14. No session leaks its connection: every entry point that owns the transport leaves it closed,
  whether it succeeds, fails at any point of the exchange, or the computer panics.
\<close>

theorem sessions_close:
  assumes "transport_ok t"
  shows "t_closed (snd (snd (run_client_with_transport w t config trace_config compute c spec)))
    \<and> t_closed (snd (snd (run_client_with_traces_transport w t config paths compute c)))
    \<and> t_closed (snd (run_client_gen_traces_transport w t config dest trace_config spec))
    \<and> t_closed (snd (run_client_validate_transport w t config bound spec))"
proof -
  have sent: "transport_ok (snd (send t line))" for line using assms by (rule transport_ok_send)
  have received: "transport_ok (snd (recv w (snd (send t line))))" for line
    using recv_ok [of w "snd (send t line)"] sent by (metis surjective_pairing)
  have "t_closed (snd (run_client_validate_transport w t config bound spec))"
  proof (cases "bound_ok bound")
    case True
    let ?line = "encode_message w (RegisterValidate config bound spec)"
    show ?thesis
      using True sent [of ?line] received [of ?line]
      by (auto simp: run_client_validate_transport_def drop_closes drop_closed_closes
          split: prod.split sum.split)
  qed (simp add: run_client_validate_transport_def drop_closes assms)
  moreover have "t_closed (snd (snd (run_client_with_transport w t config trace_config compute c spec)))"
    using sent [of "encode_message w (Register config trace_config spec)"] main_loop_closes
    by (auto simp: run_client_with_transport_def drop_closes split: prod.split sum.split)
  moreover have "t_closed (snd (snd (run_client_with_traces_transport w t config paths compute c)))"
    using sent [of "encode_message w (RegisterTraces config paths)"] main_loop_closes
    by (auto simp: run_client_with_traces_transport_def drop_closes split: prod.split sum.split)
  moreover have "t_closed (snd (run_client_gen_traces_transport w t config dest trace_config spec))"
    using sent [of "encode_message w (RegisterTraceGen config trace_config (Some dest) spec)"] gen_traces_closes
    by (auto simp: run_client_gen_traces_transport_def drop_closes split: prod.split sum.split)
  ultimately show ?thesis by blast
qed

theorem sessions_close_witness:
  "t_closed (snd (run_client_validate_transport sample_wire (sample_transport []) sample_config 7 None))"
proof -
  have "transport_ok (sample_transport [])"
    by (simp add: sample_transport_def open_transport_def transport_ok_def)
  from sessions_close [where ?'a = nat, OF this] show ?thesis by blast
qed

text \<open>
  C15. A job request either yields a reply about the job that was asked for, over a connection that
  is still usable, or fails; and a failed exchange leaves the connection closed unless the request
  was refused before sending or the peer rejected it.
\<close>

theorem job_reply_matches:
  assumes "job_exchange w t job request = (r, t')" and "transport_ok t" and "\<not> t_closed t"
  shows "case r of
      Inl e \<Rightarrow> t_closed t' \<or> keeps_connection e
    | Inr (Status j p) \<Rightarrow> j = job \<and> \<not> t_closed t'
    | Inr (Result j q) \<Rightarrow> j = job \<and> \<not> t_closed t'"
proof -
  have "t_closed t1 = t_closed t" if "send t line = (Inr (), t1)" for line t1
    using that by (auto simp: send_def split: sum.splits if_splits transport_inner.splits bool.splits prod.splits)
  moreover have "t_closed t2 = t_closed t1" if "recv w t1 = (Inr m, t2)" for t1 m t2
    using that by (auto simp: recv_def transport_recv_def split: prod.splits sum.splits option.splits if_splits)
  ultimately show ?thesis
    using job_exchange_outcome [OF assms(1,2)] assms(3)
    by (auto split: sum.splits job_reply.splits)
qed

lemma query_sample:
  "query_job sample_wire (sample_transport (wire_lines [step_line ''step_ok''])) ''j1''
     = (Inl (EUnexpectedMessage ''expected job_status or job_result, got '' MStepOk),
        snd (query_job sample_wire (sample_transport (wire_lines [step_line ''step_ok''])) ''j1''))"
  by code_simp

theorem job_reply_matches_witness:
  "t_closed (snd (query_job sample_wire (sample_transport (wire_lines [step_line ''step_ok''])) ''j1''))"
  using job_reply_matches [OF query_sample [unfolded query_job_def]]
  by (simp add: sample_transport_def open_transport_def transport_ok_def query_job_def
      keeps_connection_def async_error_def bound_error_def)

end
