(* ===== verification/Spec_Source.thy ===== *)
theory Spec_Source
  imports Protocol
begin

text \<open>
  \<^verbatim>\<open>src/spec.rs\<close>: reading a TLA+ module and the modules it extends or instantiates.  The file
  system is a parameter; paths are their texts.
\<close>

section \<open>Scanning a module for its imports\<close>

definition identifier_start :: "char \<Rightarrow> bool" where
  "identifier_start c \<longleftrightarrow> is_ascii_alphabetic c \<or> c = CHR ''_''"

definition identifier_part :: "char \<Rightarrow> bool" where
  "identifier_part c \<longleftrightarrow> is_ascii_alphanumeric c \<or> c = CHR ''_''"

text \<open>What follows the opening quote: past the closing one, or past the end.\<close>

fun skip_string :: "string \<Rightarrow> string" where
  "skip_string [] = []"
| "skip_string (c # s) =
     (if c = CHR 0x5C then (case s of [] \<Rightarrow> [] | _ # s' \<Rightarrow> skip_string s')
      else if c = CHR 0x22 then s
      else skip_string s)"

lemma skip_string_length: "length (skip_string s) \<le> length s"
proof (induction s rule: skip_string.induct)
  case (2 c s)
  show ?case
  proof (cases s)
    case (Cons x s')
    then show ?thesis using 2 by (cases "c = CHR 0x5C"; cases "c = CHR 0x22") simp_all
  qed simp
qed simp

text \<open>
  The scanner reads the bytes that are left and the depth of nested block comments.  A backslash that
  ends the text inside a string is skipped alone.
\<close>

function scan_tokens :: "nat \<Rightarrow> string \<Rightarrow> string list" where
  "scan_tokens depth s =
     (case s of
        [] \<Rightarrow> []
      | c # s' \<Rightarrow>
          if depth > 0 then
            (if starts_with s ''(*'' then scan_tokens (depth + 1) (drop 2 s)
             else if starts_with s ''*)'' then scan_tokens (depth - 1) (drop 2 s)
             else scan_tokens depth s')
          else if starts_with s [CHR 0x5C, CHR ''*''] then
            scan_tokens 0 (dropWhile (\<lambda>b. b \<noteq> CHR 0x0A) (drop 2 s))
          else if starts_with s ''(*'' then scan_tokens 1 (drop 2 s)
          else if c = CHR 0x22 then scan_tokens 0 (skip_string s')
          else if c = CHR '','' then '','' # scan_tokens 0 s'
          else if identifier_start c then
            (c # takeWhile identifier_part s') # scan_tokens 0 (dropWhile identifier_part s')
          else scan_tokens 0 s')"
  by pat_completeness auto
termination
  by (relation "measure (\<lambda>(_, s). length s)")
    (auto simp: less_Suc_eq_le length_dropWhile_le skip_string_length
      intro: order_trans [OF length_dropWhile_le])

declare scan_tokens.simps [simp del]

definition dependency_tokens :: "string \<Rightarrow> string list" where
  "dependency_tokens source = scan_tokens 0 source"

definition builtins :: "string list" where
  "builtins = [''Naturals'', ''Integers'', ''Reals'', ''Sequences'', ''FiniteSets'', ''TLC'', ''Bags'', ''Apalache'']"

text \<open>The clauses: \<open>EXTENDS\<close> with its list of names, \<open>INSTANCE\<close> with one.\<close>

fun clause_names :: "bool \<Rightarrow> string list \<Rightarrow> string list" where
  "clause_names cont (t # n # ts) =
     (if cont \<and> t = '','' \<and> n \<noteq> '','' then n # clause_names True ts
      else if t = ''EXTENDS'' \<and> n \<noteq> '','' then n # clause_names True ts
      else if t = ''INSTANCE'' \<and> n \<noteq> '','' then n # clause_names False ts
      else clause_names False (n # ts))"
| "clause_names cont ts = []"

definition import_names :: "string \<Rightarrow> string list" where
  "import_names source = filter (\<lambda>n. n \<notin> set builtins) (clause_names False (dependency_tokens source))"

lemma import_names_sample:
  "import_names (''EXTENDS A, B'' @ CHR 0x0A # ''(* EXTENDS X (* INSTANCE Y *) *) Op == INSTANCE C'')
     = [''A'', ''B'', ''C'']"
  by code_simp

section \<open>The text of a module\<close>

text \<open>
  The grammar the scanner is meant for: words, commas, nested block comments, line comments, string
  literals with escapes, and everything else.
\<close>

inductive comment_body :: "string \<Rightarrow> bool" where
  CEnd: "comment_body []"
| CChar: "comment_body s \<Longrightarrow> \<not> starts_with (c # s @ ''*)'') ''(*'' \<Longrightarrow> \<not> starts_with (c # s @ ''*)'') ''*)''
    \<Longrightarrow> comment_body (c # s)"
| CNested: "comment_body s \<Longrightarrow> comment_body t \<Longrightarrow> comment_body (''(*'' @ s @ ''*)'' @ t)"

inductive string_body :: "string \<Rightarrow> bool" where
  SEnd: "string_body []"
| SChar: "string_body s \<Longrightarrow> c \<noteq> CHR 0x22 \<Longrightarrow> c \<noteq> CHR 0x5C \<Longrightarrow> string_body (c # s)"
| SEscape: "string_body s \<Longrightarrow> string_body (CHR 0x5C # c # s)"

inductive source_text :: "string list \<Rightarrow> string \<Rightarrow> bool" where
  TEnd: "source_text [] []"
| TWord: "source_text ts s \<Longrightarrow> identifier_start c \<Longrightarrow> list_all identifier_part w
    \<Longrightarrow> s = [] \<or> \<not> identifier_part (hd s) \<Longrightarrow> source_text ((c # w) # ts) (c # w @ s)"
| TComma: "source_text ts s \<Longrightarrow> source_text ('','' # ts) (CHR '','' # s)"
| TBlock: "source_text ts s \<Longrightarrow> comment_body b \<Longrightarrow> source_text ts (''(*'' @ b @ ''*)'' @ s)"
| TLine: "source_text ts s \<Longrightarrow> CHR 0x0A \<notin> set l \<Longrightarrow> s = [] \<or> hd s = CHR 0x0A
    \<Longrightarrow> source_text ts (CHR 0x5C # CHR ''*'' # l @ s)"
| TString: "source_text ts s \<Longrightarrow> string_body b \<Longrightarrow> source_text ts (CHR 0x22 # b @ CHR 0x22 # s)"
| TOther: "source_text ts s \<Longrightarrow> \<not> identifier_start c \<Longrightarrow> c \<noteq> CHR 0x22 \<Longrightarrow> c \<noteq> CHR '',''
    \<Longrightarrow> \<not> starts_with (c # s) ''(*'' \<Longrightarrow> \<not> starts_with (c # s) [CHR 0x5C, CHR ''*'']
    \<Longrightarrow> source_text ts (c # s)"

lemma starts_with_two: "starts_with s [a, b] \<longleftrightarrow> (\<exists>r. s = a # b # r)"
  by (auto simp: starts_with_iff)

lemma scan_comment:
  "comment_body b \<Longrightarrow> scan_tokens (Suc d) (b @ ''*)'' @ r) = scan_tokens d r"
proof (induction b arbitrary: d r rule: comment_body.induct)
  case CEnd
  show ?case by (subst scan_tokens.simps) (simp add: starts_with_two)
next
  case (CChar s c)
  have "\<not> starts_with (c # s @ ''*)'' @ r) ''(*''" "\<not> starts_with (c # s @ ''*)'' @ r) ''*)''"
    using CChar(2,3) by (cases s; simp add: starts_with_two)+
  then show ?case using CChar(4) by (subst scan_tokens.simps) (simp del: starts_with.simps)
next
  case (CNested s t)
  have "scan_tokens (Suc d) (''(*'' @ s @ ''*)'' @ t @ ''*)'' @ r)
      = scan_tokens (Suc (Suc d)) (s @ ''*)'' @ t @ ''*)'' @ r)"
    by (subst scan_tokens.simps) (simp add: starts_with_two)
  then show ?case using CNested.IH by simp
qed

lemma skip_string_body: "string_body b \<Longrightarrow> skip_string (b @ CHR 0x22 # r) = r"
  by (induction b rule: string_body.induct) simp_all

lemma takeWhile_word:
  "list_all P w \<Longrightarrow> s = [] \<or> \<not> P (hd s) \<Longrightarrow> takeWhile P (w @ s) = w \<and> dropWhile P (w @ s) = s"
  by (induction w) (cases s; simp)+

lemma identifier_start_plain: "identifier_start c \<Longrightarrow> c \<notin> {CHR 0x22, CHR '','', CHR ''('', CHR 0x5C}"
  by (auto simp: identifier_start_def is_ascii_alphabetic_def is_ascii_upper_def is_ascii_lower_def byte_of_def)

lemma scan_source: "source_text ts s \<Longrightarrow> scan_tokens 0 s = ts"
proof (induction rule: source_text.induct)
  case (TWord ts s c w)
  then show ?case
    using identifier_start_plain [OF TWord(2)] takeWhile_word [OF TWord(3,4)]
    by (subst scan_tokens.simps) (auto simp: starts_with_two)
next
  case (TBlock ts s b)
  have "scan_tokens 0 (''(*'' @ b @ ''*)'' @ s) = scan_tokens 1 (b @ ''*)'' @ s)"
    by (subst scan_tokens.simps) (simp add: starts_with_two)
  then show ?case using scan_comment [OF TBlock(2), of 0] TBlock(3) by simp
next
  case (TLine ts s l)
  have "dropWhile (\<lambda>b. b \<noteq> CHR 0x0A) (l @ s) = s"
  proof -
    have "list_all (\<lambda>b. b \<noteq> CHR 0x0A) l" using TLine(2) by (auto simp: list_all_iff)
    then show ?thesis using takeWhile_word [of "\<lambda>b. b \<noteq> CHR 0x0A" l s] TLine(3) by simp
  qed
  then show ?case using TLine(4) by (subst scan_tokens.simps) (simp add: starts_with_two)
next
  case (TString ts s b)
  then show ?case
    using skip_string_body [OF TString(2), of s] by (subst scan_tokens.simps) (simp add: starts_with_two)
next
  case (TOther ts s c)
  then show ?case by (subst scan_tokens.simps) (auto simp: starts_with_two)
qed (subst scan_tokens.simps; simp add: starts_with_two)+

section \<open>Finding the modules\<close>

text \<open>What the program asks of the file system, and the value of \<^verbatim>\<open>TLA_LIBRARY_PATH\<close>.\<close>

record file_system =
  fs_exists :: "string \<Rightarrow> bool"
  fs_canonicalize :: "string \<Rightarrow> string + string"
  fs_read :: "string \<Rightarrow> string + string"
  library_path :: "string list option"

text \<open>\<^verbatim>\<open>Path::join\<close> with the name of a module, and \<^verbatim>\<open>Path::parent\<close> of a canonical path.\<close>

definition join_path :: "string \<Rightarrow> string \<Rightarrow> string" where
  "join_path d f = (if d = [] \<or> last d = CHR ''/'' then d @ f else d @ CHR ''/'' # f)"

definition parent_path :: "string \<Rightarrow> string option" where
  "parent_path p =
     (if p = ''/'' then None
      else case rsplit_once (\<lambda>c. c = CHR ''/'') p of
        None \<Rightarrow> Some []
      | Some (d, _) \<Rightarrow> Some (if d = [] then ''/'' else d))"

definition directory_of :: "string \<Rightarrow> string" where
  "directory_of p = (case parent_path p of None \<Rightarrow> ''.'' | Some d \<Rightarrow> d)"

definition debug_text :: "string \<Rightarrow> string" where
  "debug_text s = CHR 0x22 # s @ [CHR 0x22]"

fun module_candidates :: "file_system \<Rightarrow> string \<Rightarrow> string list \<Rightarrow> string list \<Rightarrow> error + string list" where
  "module_candidates fs name [] found = Inr found"
| "module_candidates fs name (dir # dirs) found =
     (let candidate = join_path dir (name @ ''.tla'')
      in if \<not> fs_exists fs candidate then module_candidates fs name dirs found
         else (case fs_canonicalize fs candidate of
                 Inl e \<Rightarrow> Inl (ESpecSource (''cannot resolve '' @ candidate @ '': '' @ e))
               | Inr c \<Rightarrow> module_candidates fs name dirs (if c \<in> set found then found else found @ [c])))"

definition resolve_module :: "file_system \<Rightarrow> string \<Rightarrow> string \<Rightarrow> string list \<Rightarrow> error + string" where
  "resolve_module fs import_dir name search_dirs =
     (case module_candidates fs name (import_dir # search_dirs) [] of
        Inl e \<Rightarrow> Inl e
      | Inr [] \<Rightarrow> Inl (ESpecSource (''module '' @ debug_text name @ '' imported from '' @ import_dir @ '' was not found''))
      | Inr [only] \<Rightarrow> Inr only
      | Inr (c # cs) \<Rightarrow>
          Inl (ESpecSource (''module '' @ debug_text name @ '' is ambiguous: ''
            @ c @ concat (map (\<lambda>p. '', '' @ p) cs))))"

definition read_module :: "file_system \<Rightarrow> string \<Rightarrow> error + string" where
  "read_module fs p =
     (case fs_read fs p of
        Inl e \<Rightarrow> Inl (ESpecSource (''cannot read '' @ p @ '': '' @ e))
      | Inr source \<Rightarrow> Inr source)"

text \<open>
  The queue of imports not looked at yet.  A file system may have modules without end, so the loop is
  partial: \<open>None\<close> is a loop that does not end.
\<close>

partial_function (option) import_closure ::
    "file_system \<Rightarrow> string list \<Rightarrow> (string \<times> string) list \<Rightarrow> string list \<Rightarrow> string list
       \<Rightarrow> (error + string list) option" where
  "import_closure fs search_dirs queue visited srcs =
     (case queue of
        [] \<Rightarrow> Some (Inr srcs)
      | (import_dir, name) # rest \<Rightarrow>
          (case resolve_module fs import_dir name search_dirs of
             Inl e \<Rightarrow> Some (Inl e)
           | Inr path \<Rightarrow>
               if path \<in> set visited then import_closure fs search_dirs rest visited srcs
               else (case read_module fs path of
                       Inl e \<Rightarrow> Some (Inl e)
                     | Inr source \<Rightarrow>
                         import_closure fs search_dirs
                           (rest @ map (Pair (directory_of path)) (import_names source))
                           (visited @ [path]) (srcs @ [source]))))"

definition spec_from_files ::
    "file_system \<Rightarrow> string \<Rightarrow> string list \<Rightarrow> (error + apalache_spec) option" where
  "spec_from_files fs root dirs =
     (let search_dirs = (if dirs = [] then (case library_path fs of None \<Rightarrow> [] | Some ds \<Rightarrow> ds) else dirs)
      in case fs_canonicalize fs root of
           Inl e \<Rightarrow> Some (Inl (ESpecSource (''cannot resolve root '' @ root @ '': '' @ e)))
         | Inr path \<Rightarrow>
             (case read_module fs path of
                Inl e \<Rightarrow> Some (Inl e)
              | Inr source \<Rightarrow>
                  map_option (map_sum id (\<lambda>ss. \<lparr>sources = ss\<rparr>))
                    (import_closure fs search_dirs
                      (map (Pair (directory_of path)) (import_names source)) [path] [source])))"

definition spec_from_file :: "file_system \<Rightarrow> string \<Rightarrow> (error + apalache_spec) option" where
  "spec_from_file fs root = spec_from_files fs root []"

section \<open>The closure of a module\<close>

text \<open>The modules a root module needs: the imports of a needed module, as they are resolved.\<close>

inductive needed :: "file_system \<Rightarrow> string list \<Rightarrow> string \<Rightarrow> string \<Rightarrow> bool"
  for fs :: file_system and dirs :: "string list" and root :: string where
  Root: "needed fs dirs root root"
| Import: "needed fs dirs root p \<Longrightarrow> fs_read fs p = Inr source \<Longrightarrow> n \<in> set (import_names source)
    \<Longrightarrow> resolve_module fs (directory_of p) n dirs = Inr q \<Longrightarrow> needed fs dirs root q"

definition contents :: "file_system \<Rightarrow> string \<Rightarrow> string" where
  "contents fs p = (case fs_read fs p of Inr s \<Rightarrow> s | Inl _ \<Rightarrow> [])"

definition imports_of :: "file_system \<Rightarrow> string \<Rightarrow> (string \<times> string) list" where
  "imports_of fs p = map (Pair (directory_of p)) (import_names (contents fs p))"

text \<open>The state of the loop: the modules read so far, and the imports of theirs still in the queue.\<close>

definition closing :: "file_system \<Rightarrow> string list \<Rightarrow> string \<Rightarrow> (string \<times> string) list \<Rightarrow> string list \<Rightarrow> bool" where
  "closing fs dirs root queue visited \<longleftrightarrow>
     distinct visited \<and> root \<in> set visited
     \<and> (\<forall>p \<in> set visited. needed fs dirs root p \<and> (\<exists>s. fs_read fs p = Inr s))
     \<and> (\<forall>x \<in> set queue. \<exists>p \<in> set visited. x \<in> set (imports_of fs p))
     \<and> (\<forall>p \<in> set visited. \<forall>(d, n) \<in> set (imports_of fs p).
          (d, n) \<in> set queue \<or> (\<exists>q \<in> set visited. resolve_module fs d n dirs = Inr q))"

lemma read_module_Inr: "read_module fs p = Inr s \<longleftrightarrow> fs_read fs p = Inr s"
  by (auto simp: read_module_def split: sum.split)

lemma closing_needed:
  assumes "closing fs dirs root ((d, n) # rest) visited" and "resolve_module fs d n dirs = Inr q"
  shows "needed fs dirs root q"
proof -
  obtain p where p: "p \<in> set visited" "(d, n) \<in> set (imports_of fs p)"
    using assms(1) by (auto simp: closing_def)
  then have "needed fs dirs root p" and "\<exists>s. fs_read fs p = Inr s" using assms(1) by (auto simp: closing_def)
  then obtain s where s: "fs_read fs p = Inr s" by blast
  then have "d = directory_of p" "n \<in> set (import_names s)"
    using p(2) by (auto simp: imports_of_def contents_def)
  then show ?thesis using needed.Import [OF \<open>needed fs dirs root p\<close> s] assms(2) by simp
qed

lemma closing_known:
  assumes "closing fs dirs root ((d, n) # rest) visited" and "resolve_module fs d n dirs = Inr q"
    and "q \<in> set visited"
  shows "closing fs dirs root rest visited"
  using assms unfolding closing_def by (auto 4 4)

lemma closing_new:
  assumes c: "closing fs dirs root ((d, n) # rest) visited" and q: "resolve_module fs d n dirs = Inr q"
    and new: "q \<notin> set visited" and s: "fs_read fs q = Inr s"
  shows "closing fs dirs root (rest @ map (Pair (directory_of q)) (import_names s)) (visited @ [q])"
proof -
  have im: "map (Pair (directory_of q)) (import_names s) = imports_of fs q"
    using s by (simp add: imports_of_def contents_def)
  have "needed fs dirs root q" by (rule closing_needed [OF c q])
  then show ?thesis
    unfolding im using c q new s unfolding closing_def by (auto 4 4)
qed

lemma closing_done:
  assumes c: "closing fs dirs root [] visited"
  shows "set visited = {p. needed fs dirs root p}"
proof -
  have "p \<in> set visited" if "needed fs dirs root p" for p
    using that
  proof (induction rule: needed.induct)
    case (Import p source n q)
    then have "(directory_of p, n) \<in> set (imports_of fs p)" by (simp add: imports_of_def contents_def)
    then have "\<exists>q \<in> set visited. resolve_module fs (directory_of p) n dirs = Inr q"
      using c Import.IH unfolding closing_def by fastforce
    then show ?case using Import by auto
  qed (use c in \<open>simp add: closing_def\<close>)
  then show ?thesis using c by (auto simp: closing_def)
qed

text \<open>
  The answers of the loop: the modules needed, each once, in an order that continues the one they
  were found in; or an import of a needed module that cannot be resolved or read.
\<close>

definition complete_from :: "file_system \<Rightarrow> string list \<Rightarrow> string \<Rightarrow> bool" where
  "complete_from fs dirs root \<longleftrightarrow>
     (\<forall>p. needed fs dirs root p \<longrightarrow>
        (\<exists>s. fs_read fs p = Inr s
           \<and> (\<forall>n \<in> set (import_names s). \<exists>q. resolve_module fs (directory_of p) n dirs = Inr q)))"

lemma closing_complete:
  assumes c: "closing fs dirs root [] visited"
  shows "complete_from fs dirs root"
  unfolding complete_from_def
proof (intro allI impI)
  fix p assume "needed fs dirs root p"
  then have p: "p \<in> set visited" using closing_done [OF c] by blast
  then obtain s where s: "fs_read fs p = Inr s" using c by (auto simp: closing_def)
  have "\<exists>q. resolve_module fs (directory_of p) n dirs = Inr q" if "n \<in> set (import_names s)" for n
  proof -
    have "(directory_of p, n) \<in> set (imports_of fs p)" using that s by (simp add: imports_of_def contents_def)
    then show ?thesis using c p unfolding closing_def by fastforce
  qed
  then show "\<exists>s. fs_read fs p = Inr s \<and> (\<forall>n \<in> set (import_names s). \<exists>q. resolve_module fs (directory_of p) n dirs = Inr q)"
    using s by blast
qed

definition closed_from :: "file_system \<Rightarrow> string list \<Rightarrow> string \<Rightarrow> string list \<Rightarrow> error + string list \<Rightarrow> bool" where
  "closed_from fs dirs root visited res \<longleftrightarrow>
     (case res of
        Inr srcs \<Rightarrow> complete_from fs dirs root \<and> (\<exists>more. distinct (visited @ more) \<and> set (visited @ more) = {p. needed fs dirs root p}
          \<and> srcs = map (contents fs) (visited @ more))
      | Inl e \<Rightarrow> \<exists>p n. needed fs dirs root p \<and> (directory_of p, n) \<in> set (imports_of fs p)
          \<and> (case resolve_module fs (directory_of p) n dirs of
               Inl e' \<Rightarrow> e = e'
             | Inr q \<Rightarrow> read_module fs q = Inl e))"

lemma closed_from_later: "closed_from fs dirs root (visited @ [q]) res \<Longrightarrow> closed_from fs dirs root visited res"
proof -
  assume r: "closed_from fs dirs root (visited @ [q]) res"
  show ?thesis
  proof (cases res)
    case (Inr srcs)
    then obtain more where "distinct ((visited @ [q]) @ more)"
      "set ((visited @ [q]) @ more) = {p. needed fs dirs root p}" "srcs = map (contents fs) ((visited @ [q]) @ more)"
      using r by (auto simp: closed_from_def)
    then have "distinct (visited @ q # more)" "set (visited @ q # more) = {p. needed fs dirs root p}"
      "srcs = map (contents fs) (visited @ q # more)"
      by simp_all
    then show ?thesis using Inr r unfolding closed_from_def by (simp only: sum.case) blast
  qed (use r in \<open>simp add: closed_from_def\<close>)
qed

lemma import_closure_sound:
  "import_closure fs dirs queue visited srcs = Some res \<Longrightarrow>
     closing fs dirs root queue visited \<Longrightarrow> srcs = map (contents fs) visited \<Longrightarrow>
     closed_from fs dirs root visited res"
proof (induction fs dirs queue visited srcs res arbitrary: root
    rule: import_closure.raw_induct [rotated, consumes 1, case_names step])
  case (step loop fs dirs queue visited srcs res)
  note IH = step(1) and eq = step(2) and c = step(3) and srcs = step(4)
  show ?case
  proof (cases queue)
    case Nil
    then have "res = Inr srcs" using eq by simp
    then show ?thesis
      using closing_done [of fs dirs root visited] closing_complete [of fs dirs root visited] c srcs Nil
      by (auto simp: closed_from_def closing_def intro!: exI [of _ "[]"])
  next
    case (Cons x rest)
    then obtain d n where q: "queue = (d, n) # rest" by (cases x) auto
    obtain p where p: "p \<in> set visited" "(d, n) \<in> set (imports_of fs p)"
      using c q by (auto simp: closing_def)
    have d: "d = directory_of p" and np: "needed fs dirs root p"
      using p c by (auto simp: imports_of_def closing_def)
    show ?thesis
    proof (cases "resolve_module fs d n dirs")
      case (Inl e)
      then have "res = Inl e" using eq q by simp
      moreover have "case resolve_module fs (directory_of p) n dirs of Inl e' \<Rightarrow> e = e' | Inr q \<Rightarrow> read_module fs q = Inl e"
        using Inl d by simp
      ultimately show ?thesis using p(2) d np unfolding closed_from_def by (simp only: sum.case) blast
    next
      case (Inr m)
      show ?thesis
      proof (cases "m \<in> set visited")
        case True
        then have "loop fs dirs rest visited srcs = Some res" using eq q Inr by simp
        then show ?thesis using IH closing_known [OF c [unfolded q] Inr True] srcs by blast
      next
        case False
        show ?thesis
        proof (cases "read_module fs m")
          case (Inl e)
          then have "res = Inl e" using eq q Inr False by simp
          moreover have "case resolve_module fs (directory_of p) n dirs of Inl e' \<Rightarrow> e = e' | Inr q \<Rightarrow> read_module fs q = Inl e"
            using \<open>resolve_module fs d n dirs = Inr m\<close> Inl d by simp
          ultimately show ?thesis using p(2) d np unfolding closed_from_def by (simp only: sum.case) blast
        next
          case r: (Inr s)
          then have s: "fs_read fs m = Inr s" by (simp add: read_module_Inr)
          have "loop fs dirs (rest @ map (Pair (directory_of m)) (import_names s)) (visited @ [m]) (srcs @ [s]) = Some res"
            using eq q Inr False r by simp
          moreover have "srcs @ [s] = map (contents fs) (visited @ [m])" using srcs s by (simp add: contents_def)
          ultimately have "closed_from fs dirs root (visited @ [m]) res"
            using IH closing_new [OF c [unfolded q] Inr False s] by blast
          then show ?thesis by (rule closed_from_later)
        qed
      qed
    qed
  qed
qed

lemma import_closure_ends:
  assumes fin: "finite {p. needed fs dirs root p}"
  shows "closing fs dirs root queue visited \<Longrightarrow> \<exists>res. import_closure fs dirs queue visited srcs = Some res"
proof (induction "card ({p. needed fs dirs root p} - set visited)" arbitrary: queue visited srcs rule: less_induct)
  case less
  note outer = less(1)
  show ?case
    using less(2)
  proof (induction queue)
    case Nil
    then show ?case by (simp add: import_closure.simps)
  next
    case (Cons x rest)
    obtain d n where x: "x = (d, n)" by fastforce
    note c = Cons(2) [unfolded x]
    show ?case
    proof (cases "resolve_module fs d n dirs")
      case (Inr m)
      show ?thesis
      proof (cases "m \<in> set visited")
        case True
        then show ?thesis
          using Cons(1) closing_known [OF c Inr] by (subst import_closure.simps) (simp add: x Inr)
      next
        case False
        show ?thesis
        proof (cases "read_module fs m")
          case r: (Inr s)
          have "m \<in> {p. needed fs dirs root p} - set visited" using closing_needed [OF c Inr] False by simp
          then have "card ({p. needed fs dirs root p} - set (visited @ [m])) < card ({p. needed fs dirs root p} - set visited)"
            using fin by (intro psubset_card_mono) auto
          from outer [OF this closing_new [OF c Inr False r [unfolded read_module_Inr]]] show ?thesis
            by (subst import_closure.simps) (simp add: x Inr False r)
        qed (simp add: x Inr False import_closure.simps)
      qed
    qed (simp add: x import_closure.simps)
  qed
qed

definition search_path :: "file_system \<Rightarrow> string list \<Rightarrow> string list" where
  "search_path fs dirs = (if dirs = [] then (case library_path fs of None \<Rightarrow> [] | Some ds \<Rightarrow> ds) else dirs)"

lemma closing_start:
  "fs_read fs p = Inr s \<Longrightarrow> closing fs dirs p (map (Pair (directory_of p)) (import_names s)) [p]"
  by (auto simp: closing_def imports_of_def contents_def intro: needed.Root)

lemma spec_from_files_root:
  "fs_canonicalize fs root = Inr p \<Longrightarrow> fs_read fs p = Inr s \<Longrightarrow>
     spec_from_files fs root dirs = map_option (map_sum id (\<lambda>ss. \<lparr>sources = ss\<rparr>))
       (import_closure fs (search_path fs dirs) (map (Pair (directory_of p)) (import_names s)) [p] [s])"
  by (simp add: spec_from_files_def search_path_def read_module_def)

lemma closed_from_error:
  assumes "closed_from fs dirs root v (Inl e)"
  shows "\<not> complete_from fs dirs root"
proof
  assume cf: "complete_from fs dirs root"
  obtain p n where p: "needed fs dirs root p" "(directory_of p, n) \<in> set (imports_of fs p)"
    and why: "case resolve_module fs (directory_of p) n dirs of Inl e' \<Rightarrow> e = e' | Inr q \<Rightarrow> read_module fs q = Inl e"
    using assms by (auto simp: closed_from_def)
  obtain s where s: "fs_read fs p = Inr s"
    and ok: "\<forall>n \<in> set (import_names s). \<exists>q. resolve_module fs (directory_of p) n dirs = Inr q"
    using cf p(1) by (auto simp: complete_from_def)
  have n: "n \<in> set (import_names s)" using p(2) s by (auto simp: imports_of_def contents_def)
  then obtain q where q: "resolve_module fs (directory_of p) n dirs = Inr q" using ok by blast
  have "needed fs dirs root q" by (rule needed.Import [OF p(1) s n q])
  then have "\<exists>t. fs_read fs q = Inr t" using cf by (auto simp: complete_from_def)
  then show False using why q by (auto simp: read_module_def)
qed

text \<open>
  C22. The scanner sees through layout: on a text of words, commas, nested comments, line comments,
  string literals and other characters it returns the words and commas, and nothing that stands in a
  comment or a string.
\<close>

theorem scanner_exact:
  assumes "source_text ts s"
  shows "dependency_tokens s = ts"
  unfolding dependency_tokens_def by (rule scan_source [OF assms])

text \<open>
  C23. Reading a specification gives exactly its closure: the contents of the root module first, then
  of every module it needs by \<open>EXTENDS\<close> and \<open>INSTANCE\<close>, each once, and of no other.
\<close>

theorem spec_is_closure:
  assumes "spec_from_files fs root dirs = Some (Inr spec)"
  shows "\<exists>p ps. fs_canonicalize fs root = Inr p \<and> distinct (p # ps)
    \<and> set (p # ps) = {q. needed fs (search_path fs dirs) p q}
    \<and> sources spec = map (contents fs) (p # ps)"
proof -
  obtain p s where p: "fs_canonicalize fs root = Inr p" "fs_read fs p = Inr s"
    using assms by (auto simp: spec_from_files_def read_module_def split: sum.splits)
  obtain srcs where "import_closure fs (search_path fs dirs) (map (Pair (directory_of p)) (import_names s)) [p] [s]
      = Some (Inr srcs)" and spec: "spec = \<lparr>sources = srcs\<rparr>"
  proof -
    obtain z where "import_closure fs (search_path fs dirs) (map (Pair (directory_of p)) (import_names s)) [p] [s]
        = Some z" "map_sum id (\<lambda>ss. \<lparr>sources = ss\<rparr>) z = Inr spec"
      using assms unfolding spec_from_files_root [OF p] by auto
    then show thesis using that by (cases z) auto
  qed
  from import_closure_sound [OF this(1) closing_start [OF p(2)]]
  have "closed_from fs (search_path fs dirs) p [p] (Inr srcs)" using p by (simp add: contents_def)
  then show ?thesis using p spec by (auto simp: closed_from_def)
qed

text \<open>
  C24. Reading ends whenever the modules needed are finitely many, and then succeeds exactly when each
  of them can be read and every import in them resolves to one file.
\<close>

theorem spec_reading_ends:
  assumes "fs_canonicalize fs root = Inr p" and "finite {q. needed fs (search_path fs dirs) p q}"
  shows "\<exists>res. spec_from_files fs root dirs = Some res
    \<and> ((\<exists>spec. res = Inr spec) \<longleftrightarrow> complete_from fs (search_path fs dirs) p)"
proof (cases "fs_read fs p")
  case (Inl e)
  then have "\<not> complete_from fs (search_path fs dirs) p" by (auto simp: complete_from_def intro: needed.Root)
  then show ?thesis using Inl assms(1) by (simp add: spec_from_files_def read_module_def)
next
  case (Inr s)
  obtain res where res: "import_closure fs (search_path fs dirs) (map (Pair (directory_of p)) (import_names s)) [p] [s]
      = Some res"
    using import_closure_ends [OF assms(2) closing_start [OF Inr]] by blast
  have "closed_from fs (search_path fs dirs) p [p] res"
    by (rule import_closure_sound [OF res closing_start [OF Inr]]) (simp add: contents_def Inr)
  then have "(\<exists>srcs. res = Inr srcs) \<longleftrightarrow> complete_from fs (search_path fs dirs) p"
    using closed_from_error by (cases res) (auto simp: closed_from_def)
  then show ?thesis
    using res unfolding spec_from_files_root [OF assms(1) Inr] by (cases res) simp_all
qed

section \<open>A sample\<close>

lemma scan_sample: "source_text [''A'', '','', ''b1''] (''A,(* B ('' @ [CHR 0x22] @ ''*) b1'')"
proof -
  have letters: "identifier_start (CHR ''A'')" "identifier_start (CHR ''b'')" "identifier_part (CHR ''1'')"
    "\<not> identifier_part (CHR '','')" "\<not> identifier_start (CHR '' '')"
    by code_simp+
  have comment: "comment_body ('' B ('' @ [CHR 0x22])"
    by (simp, intro comment_body.CChar comment_body.CEnd) simp_all
  have "source_text [''b1''] ''b1''" using TWord [OF TEnd, of "CHR ''b''" "''1''"] letters by simp
  from TOther [OF this letters(5)] have "source_text [''b1''] '' b1''" by simp
  from TComma [OF TBlock [OF this comment]]
  have tail: "source_text [[CHR '',''], ''b1''] (CHR '','' # ''(*'' @ ('' B ('' @ [CHR 0x22]) @ ''*)'' @ '' b1'')" .
  show ?thesis using TWord [OF tail letters(1), of "[]"] letters(4) by simp
qed

theorem scanner_exact_witness:
  "dependency_tokens (''A,(* B ('' @ [CHR 0x22] @ ''*) b1'') = [''A'', '','', ''b1'']"
  by (rule scanner_exact [OF scan_sample])

text \<open>Two modules that need each other, in one directory.\<close>

definition two_modules :: file_system where
  "two_modules =
     \<lparr>fs_exists = (\<lambda>p. p \<in> {''/m/A.tla'', ''/m/B.tla''}), fs_canonicalize = Inr,
      fs_read = (\<lambda>p. if p = ''/m/A.tla'' then Inr ''EXTENDS B'' else if p = ''/m/B.tla'' then Inr ''INSTANCE A''
                 else Inl ''no such file''),
      library_path = None\<rparr>"

lemma two_modules_names:
  "import_names ''EXTENDS B'' = [''B'']" "import_names ''INSTANCE A'' = [''A'']"
  "directory_of ''/m/A.tla'' = ''/m''" "directory_of ''/m/B.tla'' = ''/m''"
  "resolve_module two_modules ''/m'' ''A'' [] = Inr ''/m/A.tla''"
  "resolve_module two_modules ''/m'' ''B'' [] = Inr ''/m/B.tla''"
  by code_simp+

lemma two_modules_read:
  "fs_read two_modules ''/m/A.tla'' = Inr ''EXTENDS B''" "fs_read two_modules ''/m/B.tla'' = Inr ''INSTANCE A''"
  "fs_canonicalize two_modules p = Inr p" "search_path two_modules [] = []"
  by (simp_all add: two_modules_def search_path_def)

lemma two_modules_closure:
  "import_closure two_modules [] [(''/m'', ''B'')] [''/m/A.tla''] [''EXTENDS B''] = Some (Inr [''EXTENDS B'', ''INSTANCE A''])"
  by (subst import_closure.simps, simp add: two_modules_names read_module_def two_modules_read)+

lemma two_modules_spec:
  "spec_from_files two_modules ''/m/A.tla'' [] = Some (Inr \<lparr>sources = [''EXTENDS B'', ''INSTANCE A'']\<rparr>)"
  using two_modules_closure
  by (simp add: spec_from_files_root [OF two_modules_read(3) two_modules_read(1)] two_modules_read
      two_modules_names)

theorem spec_is_closure_witness: "card {q. needed two_modules [] ''/m/A.tla'' q} = 2"
proof -
  obtain p ps where p: "fs_canonicalize two_modules ''/m/A.tla'' = Inr p" "distinct (p # ps)"
    "set (p # ps) = {q. needed two_modules (search_path two_modules []) p q}"
    "[''EXTENDS B'', ''INSTANCE A''] = map (contents two_modules) (p # ps)"
    using spec_is_closure [OF two_modules_spec] unfolding apalache_spec.select_convs
    by (elim exE conjE) (rule that; assumption)
  have "length (p # ps) = 2" using arg_cong [OF p(4), of length] by simp
  then show ?thesis using p(1,3) distinct_card [OF p(2)] by (simp add: two_modules_read)
qed

lemma two_modules_finite: "finite {q. needed two_modules (search_path two_modules []) ''/m/A.tla'' q}"
proof (rule finite_subset)
  show "{q. needed two_modules (search_path two_modules []) ''/m/A.tla'' q} \<subseteq> {''/m/A.tla'', ''/m/B.tla''}"
  proof
    fix q assume "q \<in> {q. needed two_modules (search_path two_modules []) ''/m/A.tla'' q}"
    then have "needed two_modules [] ''/m/A.tla'' q" by (simp add: two_modules_read)
    then show "q \<in> {''/m/A.tla'', ''/m/B.tla''}"
      by (induction rule: needed.induct) (auto simp: two_modules_read two_modules_names)
  qed
qed simp

theorem spec_reading_ends_witness: "complete_from two_modules [] ''/m/A.tla''"
  using spec_reading_ends [OF two_modules_read(3) two_modules_finite] two_modules_spec
  by (simp add: two_modules_read)

end
