(* ===== verification/Error_Text.thy ===== *)
theory Error_Text
  imports Protocol
begin

text \<open>
  The texts of the errors: the messages \<^verbatim>\<open>src/json.rs\<close> and \<^verbatim>\<open>src/protocol.rs\<close> format, and the
  \<^verbatim>\<open>Display\<close> texts the attributes of \<^verbatim>\<open>src/lib.rs\<close> give its errors.  What \<^verbatim>\<open>derive(Debug)\<close> makes of
  a message, a string or a hint, and what \<^verbatim>\<open>serde_json\<close> says of a string token it refuses, are
  parameters, as the writing of a tree and of an integer is.
\<close>

record shown =
  debug_message :: "mirror_message \<Rightarrow> string"
  debug_string :: "string \<Rightarrow> string"
  debug_hint :: "diff_hint \<Rightarrow> string"
  token_error :: "bytes \<Rightarrow> string"
  shown_tree :: "json \<Rightarrow> string"
  shown_integer :: "int \<Rightarrow> string"

definition in_quotes :: "string \<Rightarrow> string" where
  "in_quotes s = CHR 0x27 # s @ [CHR 0x27]"

section \<open>The messages of the parser\<close>

fun json_msg_text :: "shown \<Rightarrow> json_msg \<Rightarrow> string" where
  "json_msg_text x (NodesExceed n) = ''JSON nodes exceed '' @ show_nat n"
| "json_msg_text x (NestingExceeds n) = ''JSON nesting exceeds '' @ show_nat n"
| "json_msg_text x ExpectedValue = ''expected a JSON value''"
| "json_msg_text x (BadStringToken token) = token_error x token"
| "json_msg_text x ControlCharacter = ''unescaped control character in string''"
| "json_msg_text x UnterminatedString = ''unterminated string''"
| "json_msg_text x BadIntegerPart = ''invalid number integer part''"
| "json_msg_text x FractionWithoutDigit = ''fraction requires at least one digit''"
| "json_msg_text x ExponentWithoutDigit = ''exponent requires at least one digit''"
| "json_msg_text x ExpectedCommaOrBracket = ''expected '' @ in_quotes '','' @ '' or '' @ in_quotes '']''"
| "json_msg_text x KeyMustBeString = ''object key must be a string''"
| "json_msg_text x (DuplicateKey key) = ''duplicate object key '' @ in_quotes key"
| "json_msg_text x ExpectedColon = ''expected '' @ in_quotes '':'' @ '' after object key''"
| "json_msg_text x ExpectedCommaOrBrace = ''expected '' @ in_quotes '','' @ '' or '' @ in_quotes ''}''"
| "json_msg_text x (ExpectedLiteral literal) = ''expected '' @ in_quotes literal"
| "json_msg_text x TrailingCharacters = ''trailing characters after JSON value''"

fun json_error_text :: "shown \<Rightarrow> json_error \<Rightarrow> string" where
  "json_error_text x (PayloadExceeds n) = ''JSON payload exceeds '' @ show_nat n @ '' bytes''"
| "json_error_text x (DecodeFailed at m) =
     ''JSON decode failed at byte '' @ show_nat at @ '': '' @ json_msg_text x m"

section \<open>The messages of the decoder\<close>

text \<open>
  What \<^verbatim>\<open>invalid_value\<close> is called with.  \<open>ExponentPanic\<close> stands for an unwinding, which has no such
  text.
\<close>

fun itf_message :: "shown \<Rightarrow> itf_error \<Rightarrow> string" where
  "itf_message x (MalformedBigint raw) = ''malformed #bigint '' @ debug_string x raw"
| "itf_message x MapEntryNotArray = ''#map entry must be a two-element array''"
| "itf_message x MapEntryArity = ''#map entry must have exactly two elements''"
| "itf_message x VariantTagNotString = ''variant tag must be a string''"
| "itf_message x BadExponent = ''bad number exponent''"
| "itf_message x NotIntegral = ''bare JSON number not in ITF integral grammar''"
| "itf_message x MalformedInteger = ''malformed bare JSON integer''"
| "itf_message x ExponentPanic = []"
| "itf_message x (NotAnObject f) = f @ '' must be an object''"
| "itf_message x (MissingField f) = ''missing '' @ f"
| "itf_message x (NotAString key) = key @ '' must be a string''"
| "itf_message x HintPathNotArray = ''hint path must be an array''"
| "itf_message x BadPathSegment = ''invalid hint path segment''"
| "itf_message x (HintMissing key) = ''hint missing '' @ key"
| "itf_message x HintNotObject = ''hint must be an object''"
| "itf_message x HintKindNotString = ''hint kind must be a string''"
| "itf_message x (UnknownHintKind kind) = ''unknown hint kind '' @ debug_string x kind"
| "itf_message x SpecResultWithoutInvalid = ''invalid spec result must contain a string''"
| "itf_message x SpecResultShape = ''spec result has an invalid shape''"
| "itf_message x (NotAnArray f) = f @ '' must be an array''"
| "itf_message x (EntriesNotStrings f) = f @ '' entries must be strings''"
| "itf_message x OutcomeNotObject = ''job_result.outcome must be an object''"
| "itf_message x UnknownOutcome = ''unknown job_result outcome''"
| "itf_message x HintsNotArray = ''hints must be an array''"
| "itf_message x TracesNotArray = ''itfTraces must be an array''"
| "itf_message x ProtoStepNotString = ''proto_step must be a string''"
| "itf_message x BadJobKind = ''job_accepted.kind has an invalid value''"
| "itf_message x BadJobPhase = ''job_status.phase has an invalid value''"

definition invalid_value_text :: "shown \<Rightarrow> itf_error \<Rightarrow> string" where
  "invalid_value_text x e = ''invalid ITF value: '' @ itf_message x e"

fun protocol_message :: "shown \<Rightarrow> protocol_text \<Rightarrow> string" where
  "protocol_message x (PeerText s) = s"
| "protocol_message x (InvalidItf e) = invalid_value_text x e"
| "protocol_message x (InvalidJson e) = ''invalid JSON: '' @ json_error_text x e"

section \<open>The errors of the crate\<close>

definition shown_state :: "shown \<Rightarrow> state \<Rightarrow> string" where
  "shown_state x s = prettify_json (shown_tree x) (shown_integer x) s"

fun error_display :: "shown \<Rightarrow> error \<Rightarrow> string" where
  "error_display x (ESpecInvalid s) = ''spec invalid: '' @ s"
| "error_display x (EProtocolError s) = protocol_message x s"
| "error_display x (ERegisterFailed s) = ''register failed: '' @ s"
| "error_display x (EStepMismatch action params expected actual hints) =
     ''step mismatch on action '' @ [CHR 0x22] @ action @ [CHR 0x22] @ '': expected '' @ shown_state x expected
       @ '', got '' @ shown_state x actual"
| "error_display x (EUnexpectedMessage s m) = ''unexpected message: '' @ s @ debug_message x m"
| "error_display x (EInvalidArgument s) = ''invalid argument: '' @ s"
| "error_display x (ESpecSource s) = ''spec source: '' @ s"
| "error_display x ETransportClosed = ''transport closed unexpectedly''"
| "error_display x (ETls s) = ''TLS: '' @ s"
| "error_display x (ERegistry s) = ''registry: '' @ s"
| "error_display x (EIo s) = s"
| "error_display x (EJson s) = s"

text \<open>Texts for the samples.\<close>

definition sample_texts :: shown where
  "sample_texts =
     \<lparr>debug_message = (\<lambda>_. ''message''), debug_string = (\<lambda>s. s), debug_hint = (\<lambda>_. ''hint''),
      token_error = (\<lambda>_. ''token''), shown_tree = (\<lambda>_. ''tree''), shown_integer = show_int\<rparr>"

end
