(* ===== verification/Registry.thy ===== *)
theory Registry
  imports Transport Error_Text
begin

text \<open>
  \<^verbatim>\<open>src/registry.rs\<close>: finding mirrors in a Consul-compatible registry, and connecting to the
  first that can be reached.  The HTTP exchange, \<^verbatim>\<open>serde_json::from_slice\<close> and the TLS
  stack are parameters.
\<close>

section \<open>The address of the registry\<close>

record mirror_service_info =
  m_id :: string
  m_host :: string
  m_port :: nat
  m_cert_sha256 :: "string option"

record http_url =
  u_host :: string
  u_port :: nat
  u_prefix :: string

definition parse_http_url :: "string \<Rightarrow> http_url option" where
  "parse_http_url url =
     (case strip_prefix url ''http://'' of
        None \<Rightarrow> None
      | Some rest \<Rightarrow>
          (let (authority, raw_prefix) =
             (case split_once (\<lambda>c. c = CHR ''/'') rest of Some x \<Rightarrow> x | None \<Rightarrow> (rest, []))
           in if authority = [] then None
              else
                (case (case rsplit_once (\<lambda>c. c = CHR '':'') authority of
                         Some (host, port) \<Rightarrow>
                           if host \<noteq> [] then map_option (Pair host) (parse_u16 port) else Some (authority, 80)
                       | None \<Rightarrow> Some (authority, 80)) of
                   None \<Rightarrow> None
                 | Some (host, port) \<Rightarrow>
                     (let prefix = trim_matches (CHR ''/'') raw_prefix
                      in Some \<lparr>u_host = host, u_port = port,
                           u_prefix = (if prefix = [] then [] else CHR ''/'' # prefix)\<rparr>))))"

section \<open>The request\<close>

definition crlf :: string where
  "crlf = [CHR 0x0D, CHR 0x0A]"

definition request_text :: "http_url \<Rightarrow> string" where
  "request_text u =
     ''GET '' @ u_prefix u @ ''/v1/health/service/modelmirrors HTTP/1.1'' @ crlf
     @ ''Host: '' @ u_host u @ '':'' @ show_nat (u_port u) @ crlf
     @ ''Accept: application/json'' @ crlf @ ''Connection: close'' @ crlf @ crlf"

text \<open>The header block and the body, split at the first empty line.\<close>

fun split_response :: "bytes \<Rightarrow> (bytes \<times> bytes) option" where
  "split_response [] = None"
| "split_response (c # s) =
     (if starts_with (c # s) (crlf @ crlf) then Some ([], drop 3 s)
      else case split_response s of None \<Rightarrow> None | Some (h, b) \<Rightarrow> Some (c # h, b))"

text \<open>\<^verbatim>\<open>str::lines\<close>, its first item.\<close>

definition first_line :: "string \<Rightarrow> string option" where
  "first_line s =
     (if s = [] then None
      else case split_once (\<lambda>c. c = CHR 0x0A) s of
             None \<Rightarrow> Some s
           | Some (l, _) \<Rightarrow> Some (if l \<noteq> [] \<and> last l = CHR 0x0D then butlast l else l))"

text \<open>
  The exchange with the registry: the response to a request, \<open>None\<close> where connecting, writing or
  reading fails; and the JSON reader.
\<close>

record registry_env =
  http_exchange :: "string \<Rightarrow> nat \<Rightarrow> bytes \<Rightarrow> bytes option"
  from_slice :: "bytes \<Rightarrow> json option"

definition http_get :: "registry_env \<Rightarrow> http_url \<Rightarrow> bytes option" where
  "http_get env u =
     (case http_exchange env (u_host u) (u_port u) (request_text u) of
        None \<Rightarrow> None
      | Some response \<Rightarrow>
          (case split_response response of
             None \<Rightarrow> None
           | Some (headers, body) \<Rightarrow>
               if \<not> utf8_valid headers then None
               else (case first_line headers of
                       None \<Rightarrow> None
                     | Some status \<Rightarrow>
                         if starts_with status ''HTTP/1.1 200 '' \<or> starts_with status ''HTTP/1.0 200 ''
                         then Some body else None)))"

section \<open>The entries\<close>

definition normalize_pin :: "string \<Rightarrow> string option" where
  "normalize_pin pin =
     (let n = to_ascii_lowercase (trim pin)
      in if length n = 64 \<and> list_all is_ascii_hexdigit n then Some n else None)"

text \<open>\<^verbatim>\<open>Value::get\<close> with a string.\<close>

definition json_get :: "json \<Rightarrow> string \<Rightarrow> json option" where
  "json_get j k = (case j of JObject m \<Rightarrow> bt_get m k | _ \<Rightarrow> None)"

definition entry_pin :: "json option \<Rightarrow> string option option" where
  "entry_pin v =
     (case v of
        None \<Rightarrow> Some None
      | Some JNull \<Rightarrow> Some None
      | Some (JString pin) \<Rightarrow> map_option Some (normalize_pin pin)
      | Some _ \<Rightarrow> None)"

definition parse_entry :: "json \<Rightarrow> mirror_service_info option" where
  "parse_entry v =
     (case Option.bind (json_get v ''Service'') as_object of
        None \<Rightarrow> None
      | Some service \<Rightarrow>
          (case Option.bind (bt_get service ''Address'') json_str of
             None \<Rightarrow> None
           | Some address \<Rightarrow>
               (let host = trim address in
                if host = [] then None
                else
                  (case Option.bind (bt_get service ''Port'') as_u64 of
                     None \<Rightarrow> None
                   | Some port \<Rightarrow>
                       if \<not> (port < 2 ^ 16 \<and> port \<noteq> 0) then None
                       else
                         (case entry_pin (Option.bind (Option.bind (bt_get service ''Meta'') as_object)
                                 (\<lambda>meta. bt_get meta ''cert-sha256'')) of
                            None \<Rightarrow> None
                          | Some pin \<Rightarrow>
                              Some \<lparr>m_id = (case Option.bind (bt_get service ''ID'') json_str of
                                              None \<Rightarrow> [] | Some i \<Rightarrow> i),
                                    m_host = host, m_port = port, m_cert_sha256 = pin\<rparr>)))))"

definition discover_mirrors :: "registry_env \<Rightarrow> string \<Rightarrow> mirror_service_info list" where
  "discover_mirrors env registry_url =
     (case parse_http_url registry_url of
        None \<Rightarrow> []
      | Some url \<Rightarrow>
          (case Option.bind (http_get env url) (from_slice env) of
             Some (JArray entries) \<Rightarrow> List.map_filter parse_entry entries
           | _ \<Rightarrow> []))"

section \<open>Connecting\<close>

definition pin_for :: "string option \<Rightarrow> tls_options \<Rightarrow> mirror_service_info \<Rightarrow> string option" where
  "pin_for pin_override tls candidate =
     (case pin_override of
        Some p \<Rightarrow> Some p
      | None \<Rightarrow> (case tls_pin tls of Some p \<Rightarrow> Some p | None \<Rightarrow> m_cert_sha256 candidate))"

text \<open>
  The attempts in turn, each against its own behaviour of the network and the TLS stack.
  \<open>x\<close> holds the texts of errors that are not this crate's.
\<close>

fun try_candidates ::
    "(nat \<Rightarrow> tls_env) \<Rightarrow> shown \<Rightarrow> tls_options \<Rightarrow> string option \<Rightarrow> nat
       \<Rightarrow> mirror_service_info list \<Rightarrow> string list \<Rightarrow> error + transport" where
  "try_candidates envs x tls pin_override n [] failures =
     Inl (ERegistry (''all mirror candidates failed: ''
       @ (case failures of [] \<Rightarrow> [] | f # fs \<Rightarrow> f @ concat (map (\<lambda>g. ''; '' @ g) fs))))"
| "try_candidates envs x tls pin_override n (c # cs) failures =
     (case connect_tls_mirror (envs n) (m_host c) (m_port c) (tls\<lparr>tls_pin := pin_for pin_override tls c\<rparr>) of
        Inr t \<Rightarrow> Inr t
      | Inl e \<Rightarrow>
          try_candidates envs x tls pin_override (n + 1) cs
            (failures @ [m_id c @ ''('' @ m_host c @ '':'' @ show_nat (m_port c) @ ''): '' @ error_display x e]))"

definition connect_mirror_from_registry ::
    "registry_env \<Rightarrow> (nat \<Rightarrow> tls_env) \<Rightarrow> shown \<Rightarrow> string \<Rightarrow> tls_options \<Rightarrow> string option
       \<Rightarrow> error + transport" where
  "connect_mirror_from_registry env envs x registry_url tls pin_override =
     (let candidates = discover_mirrors env registry_url
      in if candidates = [] then Inl (ERegistry ''no usable mirror candidates'')
         else try_candidates envs x tls pin_override 0 candidates [])"

section \<open>Facts about the pieces\<close>

text \<open>The address in the form the parser is written for.\<close>

definition http_url_text :: "http_url \<Rightarrow> string" where
  "http_url_text u = ''http://'' @ u_host u @ '':'' @ show_nat (u_port u) @ u_prefix u"

definition http_url_ok :: "http_url \<Rightarrow> bool" where
  "http_url_ok u \<longleftrightarrow>
     u_host u \<noteq> [] \<and> CHR ''/'' \<notin> set (u_host u) \<and> u_port u < 2 ^ 16
     \<and> (u_prefix u = [] \<or>
         (\<exists>p. u_prefix u = CHR ''/'' # p \<and> p \<noteq> [] \<and> hd p \<noteq> CHR ''/'' \<and> last p \<noteq> CHR ''/''))"

lemma show_nat_no_mark: "\<not> is_ascii_digit c \<Longrightarrow> c \<notin> set (show_nat n)"
  using all_digits_show_nat [of n] by (auto simp: all_digits_def list_all_iff)

lemma trim_matches_inner:
  assumes "p \<noteq> []" and "hd p \<noteq> c" and "last p \<noteq> c"
  shows "trim_matches c p = p"
proof -
  have "dropWhile (\<lambda>x. x = c) p = p" using assms(1,2) by (cases p) auto
  moreover have "dropWhile (\<lambda>x. x = c) (rev p) = rev p" using assms(1,3) by (cases p rule: rev_cases) auto
  ultimately show ?thesis by (simp add: trim_matches_def)
qed

lemma authority_split:
  "h \<noteq> [] \<Longrightarrow> rsplit_once (\<lambda>c. c = CHR '':'') (h @ CHR '':'' # show_nat n) = Some (h, show_nat n)"
proof -
  have "\<not> is_ascii_digit (CHR '':'')" by code_simp
  then have "\<forall>x \<in> set (rev (show_nat n)). x \<noteq> CHR '':''" using show_nat_no_mark by auto
  then show ?thesis
    using split_once_append [of "\<lambda>c. c = CHR '':''" "CHR '':''" "rev (show_nat n)" "rev h"]
    by (simp add: rsplit_once_def)
qed

lemma normalize_pin_shape:
  "normalize_pin s = Some p \<Longrightarrow> length p = 64 \<and> list_all is_lower_hex p"
proof -
  assume "normalize_pin s = Some p"
  then have p: "length p = 64" "list_all is_ascii_hexdigit p" "p = to_ascii_lowercase (trim s)"
    by (auto simp: normalize_pin_def Let_def split: if_splits)
  have "is_lower_hex c" if "c \<in> set p" for c
  proof -
    have "is_ascii_hexdigit c" using p(2) that by (simp add: list_all_iff)
    moreover have "c \<in> to_ascii_lowercase_byte ` set (trim s)"
      using p(3) that by (simp add: to_ascii_lowercase_def)
    ultimately show ?thesis
      by (auto simp: to_ascii_lowercase_byte_def is_ascii_hexdigit_def is_lower_hex_def is_ascii_digit_def
          is_ascii_upper_def split: if_splits)
  qed
  then show ?thesis using p(1) by (simp add: list_all_iff)
qed

definition service_ok :: "mirror_service_info \<Rightarrow> bool" where
  "service_ok m \<longleftrightarrow>
     m_host m \<noteq> [] \<and> 0 < m_port m \<and> m_port m < 2 ^ 16
     \<and> (\<forall>p. m_cert_sha256 m = Some p \<longrightarrow> length p = 64 \<and> list_all is_lower_hex p)"

lemma entry_pin_shape: "entry_pin v = Some (Some p) \<Longrightarrow> length p = 64 \<and> list_all is_lower_hex p"
  using normalize_pin_shape by (auto simp: entry_pin_def split: option.splits json.splits)

lemma parse_entry_ok: "parse_entry v = Some m \<Longrightarrow> service_ok m"
  using entry_pin_shape by (auto simp: parse_entry_def service_ok_def Let_def split: option.splits if_splits)

lemma discovered_ok: "m \<in> set (discover_mirrors env url) \<Longrightarrow> service_ok m"
  using parse_entry_ok
  by (auto simp: discover_mirrors_def map_filter_def split: option.splits json.splits)

lemma try_candidates_result:
  "case try_candidates envs x tls ov n cs failures of
     Inr t \<Rightarrow> \<exists>k < length cs.
       connect_tls_mirror (envs (n + k)) (m_host (cs ! k)) (m_port (cs ! k)) (tls\<lparr>tls_pin := pin_for ov tls (cs ! k)\<rparr>) = Inr t
       \<and> (\<forall>j < k. \<exists>e. connect_tls_mirror (envs (n + j)) (m_host (cs ! j)) (m_port (cs ! j))
             (tls\<lparr>tls_pin := pin_for ov tls (cs ! j)\<rparr>) = Inl e)
   | Inl _ \<Rightarrow> \<forall>j < length cs. \<exists>e. connect_tls_mirror (envs (n + j)) (m_host (cs ! j)) (m_port (cs ! j))
             (tls\<lparr>tls_pin := pin_for ov tls (cs ! j)\<rparr>) = Inl e"
proof (induction cs arbitrary: n failures)
  case (Cons c cs)
  let ?at = "\<lambda>j. connect_tls_mirror (envs (n + j)) (m_host ((c # cs) ! j)) (m_port ((c # cs) ! j))
    (tls\<lparr>tls_pin := pin_for ov tls ((c # cs) ! j)\<rparr>)"
  show ?case
  proof (cases "?at 0")
    case (Inr t)
    then show ?thesis by (auto intro!: exI [of _ 0])
  next
    case (Inl e)
    let ?f = "failures @ [m_id c @ ''('' @ m_host c @ '':'' @ show_nat (m_port c) @ ''): '' @ error_display x e]"
    have rest: "try_candidates envs x tls ov n (c # cs) failures
        = try_candidates envs x tls ov (n + 1) cs ?f"
      using Inl by simp
    have first: "\<exists>e. ?at j = Inl e" if "j < k" "\<forall>j < k - 1. \<exists>e. ?at (Suc j) = Inl e" for j k
      using Inl that by (cases j) auto
    show ?thesis
    proof (cases "try_candidates envs x tls ov (n + 1) cs ?f")
      case r: (Inr t)
      then obtain k where k: "k < length cs" "?at (Suc k) = Inr t" "\<forall>j < k. \<exists>e. ?at (Suc j) = Inl e"
        using Cons [of "n + 1" ?f] by auto
      then show ?thesis unfolding rest r sum.case using first [of _ "Suc k"] by (intro exI [of _ "Suc k"]) auto
    next
      case r: (Inl e')
      then have "\<forall>j < length cs. \<exists>e. ?at (Suc j) = Inl e" using Cons [of "n + 1" ?f] by auto
      then show ?thesis unfolding rest r sum.case using first [of _ "Suc (length cs)"] by auto
    qed
  qed
qed simp

text \<open>The \<open>j\<close>-th attempt, under the pin chosen for it.\<close>

definition attempt ::
    "(nat \<Rightarrow> tls_env) \<Rightarrow> tls_options \<Rightarrow> string option \<Rightarrow> mirror_service_info list \<Rightarrow> nat \<Rightarrow> error + transport" where
  "attempt envs tls ov cs j =
     connect_tls_mirror (envs j) (m_host (cs ! j)) (m_port (cs ! j)) (tls\<lparr>tls_pin := pin_for ov tls (cs ! j)\<rparr>)"

section \<open>Properties\<close>

text \<open>
  C25. The address of a registry is read as it is meant: host, port and path of a well-formed URL are
  recovered from its text.
\<close>

theorem http_url_roundtrip:
  assumes "http_url_ok u"
  shows "parse_http_url (http_url_text u) = Some u"
proof -
  have digits: "\<not> is_ascii_digit (CHR ''/'')" by code_simp
  let ?a = "u_host u @ CHR '':'' # show_nat (u_port u)"
  have a: "\<forall>x \<in> set ?a. x \<noteq> CHR ''/''" "?a \<noteq> []"
    using assms show_nat_no_mark [OF digits] by (auto simp: http_url_ok_def)
  have split: "rsplit_once (\<lambda>c. c = CHR '':'') ?a = Some (u_host u, show_nat (u_port u))"
    using assms by (intro authority_split) (simp add: http_url_ok_def)
  have port: "parse_u16 (show_nat (u_port u)) = Some (u_port u)"
    using assms by (intro parse_unsigned_show_nat) (simp add: http_url_ok_def)
  have host: "u_host u \<noteq> []" using assms by (simp add: http_url_ok_def)
  have tx: "strip_prefix (http_url_text u) ''http://'' = Some (?a @ u_prefix u)"
    by (simp add: http_url_text_def)
  consider "u_prefix u = []"
    | p where "u_prefix u = CHR ''/'' # p" "p \<noteq> []" "hd p \<noteq> CHR ''/''" "last p \<noteq> CHR ''/''"
    using assms by (auto simp: http_url_ok_def)
  then show ?thesis
  proof cases
    case 1
    have s: "split_once (\<lambda>c. c = CHR ''/'') (?a @ u_prefix u) = None" using 1 a(1) by simp
    show ?thesis
      unfolding parse_http_url_def tx option.case Let_def s prod.case
      using 1 a(2) split port host by (simp add: trim_matches_def)
  next
    case (2 p)
    have s: "split_once (\<lambda>c. c = CHR ''/'') (?a @ u_prefix u) = Some (?a, p)"
      using split_once_append [of "\<lambda>c. c = CHR ''/''" "CHR ''/''" ?a p] 2 a(1) by simp
    show ?thesis
      unfolding parse_http_url_def tx option.case Let_def s prod.case
      using 2 a(2) split port host trim_matches_inner [OF 2(2,3,4)] by simp
  qed
qed

text \<open>
  C26. Whatever a registry answers, the endpoints taken from it are usable: a host, a port between 1
  and 65535, and a certificate pin that is absent or 64 lowercase hexadecimal digits.
\<close>

theorem discovered_usable:
  assumes "m \<in> set (discover_mirrors env url)"
  shows "m_host m \<noteq> [] \<and> 0 < m_port m \<and> m_port m \<le> 65535
    \<and> (\<forall>p. m_cert_sha256 m = Some p \<longrightarrow> length p = 64 \<and> list_all is_lower_hex p)"
  using discovered_ok [OF assms] by (auto simp: service_ok_def)

text \<open>
  C27. Connecting goes through the endpoints in the registry's order: it hands out the connection of
  the first that can be reached, and fails only when none can; and every attempt is made under the pin
  given for this call, else the operator's, else the one in the registry.
\<close>

theorem registry_failover:
  "(let cs = discover_mirrors env url in
    case connect_mirror_from_registry env envs x url tls ov of
      Inr t \<Rightarrow> \<exists>k < length cs. attempt envs tls ov cs k = Inr t \<and> (\<forall>j < k. \<exists>e. attempt envs tls ov cs j = Inl e)
    | Inl _ \<Rightarrow> \<forall>j < length cs. \<exists>e. attempt envs tls ov cs j = Inl e)
   \<and> pin_for ov tls m =
       (if ov \<noteq> None then ov else if tls_pin tls \<noteq> None then tls_pin tls else m_cert_sha256 m)"
proof -
  have "pin_for ov tls m =
      (if ov \<noteq> None then ov else if tls_pin tls \<noteq> None then tls_pin tls else m_cert_sha256 m)"
    by (auto simp: pin_for_def)
  then show ?thesis
    using try_candidates_result [where envs = envs and x = x and tls = tls and ov = ov
        and n = 0 and cs = "discover_mirrors env url" and failures = "[]", unfolded add_0 attempt_def [symmetric]]
    by (cases "discover_mirrors env url = []")
      (simp_all add: connect_mirror_from_registry_def)
qed

text \<open>
  C28. A pin of the operator is never given up: when a connection comes out of the registry and a pin
  was given for the call or configured, the certificate of the peer has that fingerprint.
\<close>

theorem operator_pin_holds:
  assumes "connect_mirror_from_registry env envs x url tls ov = Inr t"
    and "(if ov \<noteq> None then ov else tls_pin tls) = Some pin"
  shows "\<exists>fp. normalize_fingerprint pin = Inr fp \<and> peer_fingerprint t = Some fp"
proof -
  obtain k m where "connect_tls_mirror (envs k) (m_host m) (m_port m) (tls\<lparr>tls_pin := pin_for ov tls m\<rparr>) = Inr t"
    using try_candidates_result [where envs = envs and x = x and tls = tls and ov = ov
        and n = 0 and cs = "discover_mirrors env url" and failures = "[]"] assms(1)
    by (auto simp: connect_mirror_from_registry_def Let_def split: if_splits)
  moreover have "pin_for ov tls m = Some pin" using assms(2) by (auto simp: pin_for_def split: if_splits)
  ultimately show ?thesis
    by (auto simp: connect_tls_mirror_def Let_def check_pin_Inr open_transport_def split: prod.splits)
qed

section \<open>A sample\<close>

definition sample_url :: http_url where
  "sample_url = \<lparr>u_host = ''reg'', u_port = 8500, u_prefix = ''/dc1''\<rparr>"

theorem http_url_roundtrip_witness: "parse_http_url ''http://reg:8500/dc1'' = Some sample_url"
proof -
  have "http_url_ok sample_url" by (simp add: http_url_ok_def sample_url_def)
  moreover have "http_url_text sample_url = ''http://reg:8500/dc1''" by code_simp
  ultimately show ?thesis using http_url_roundtrip [of sample_url] by simp
qed

definition sample_entry :: json where
  "sample_entry = json_obj [(''Service'', json_obj
     [(''ID'', JString ''m1''), (''Address'', JString '' host ''), (''Port'', json_nat 443),
      (''Meta'', json_obj [(''cert-sha256'', JString (concat (replicate 32 ''CD'')))])])]"

definition sample_registry :: registry_env where
  "sample_registry =
     \<lparr>http_exchange = (\<lambda>_ _ _. Some (''HTTP/1.1 200 OK'' @ crlf @ crlf @ ''b'')),
      from_slice = (\<lambda>_. Some (JArray [JNull, sample_entry]))\<rparr>"

definition sample_service :: mirror_service_info where
  "sample_service =
     \<lparr>m_id = ''m1'', m_host = ''host'', m_port = 443, m_cert_sha256 = Some (concat (replicate 32 ''cd''))\<rparr>"

lemma discover_sample: "discover_mirrors sample_registry ''http://reg'' = [sample_service]"
  by code_simp

theorem discovered_usable_witness: "m_port sample_service \<le> 65535"
  using discovered_usable [of sample_service sample_registry "''http://reg''"] discover_sample by simp

lemma registry_sample:
  "connect_mirror_from_registry sample_registry (\<lambda>_. sample_env) sample_texts ''http://reg'' sample_options None
     = Inr (open_transport (Tls ShutdownDone (sample_stream [])) (Some (concat (replicate 32 ''ab''))) True)"
  unfolding connect_mirror_from_registry_def discover_sample by code_simp

theorem registry_failover_witness:
  "\<exists>t. attempt (\<lambda>_. sample_env) sample_options None [sample_service] 0 = Inr t"
  using registry_failover [where env = sample_registry and envs = "\<lambda>_. sample_env" and x = sample_texts
      and url = "''http://reg''" and tls = sample_options and ov = None and m = sample_service]
  unfolding registry_sample discover_sample sum.case Let_def by auto

theorem operator_pin_holds_witness:
  "normalize_fingerprint (concat (replicate 32 ''AB:'')) = Inr (concat (replicate 32 ''ab''))"
  using operator_pin_holds [OF registry_sample, of "concat (replicate 32 ''AB:'')"]
  by (simp add: sample_options_def open_transport_def)

end
