(* ===== verification/Schedule.thy ===== *)
theory Schedule
  imports Client
begin

text \<open>
  \<^verbatim>\<open>src/schedule.rs\<close>, first part: the data of a checkpoint schedule, its text form and its
  admission.  Durations are nanoseconds.  The texts of \<^verbatim>\<open>serde_json\<close> (writing a tree, the token
  of a string, the wording of an error) are the parameter record \<open>codec\<close>.
\<close>

section \<open>Data\<close>

record codec =
  c_strtok :: "bytes \<Rightarrow> string option"
  c_render :: "json \<Rightarrow> string"

definition profile_name :: string where
  "profile_name = ''mirrorrust.cooperative-checkpoints/v1''"

definition schema_name :: string where
  "schema_name = ''mirrors.checkpoint-schedule/v1''"

definition completion :: string where
  "completion = ''$done''"

record identity =
  model_semantic_digest :: string
  mapping_sha256 :: string
  implementation_sha256 :: string

record step =
  actor :: string
  checkpoint :: string

record schedule =
  schema :: string
  profile :: string
  identity :: identity
  inputs :: json
  steps :: "step list"

definition step_new :: "string \<Rightarrow> string \<Rightarrow> step" where
  "step_new a c = \<lparr>actor = a, checkpoint = c\<rparr>"

definition schedule_new :: "identity \<Rightarrow> json \<Rightarrow> step list \<Rightarrow> schedule" where
  "schedule_new i inp ss =
     \<lparr>schema = schema_name, profile = profile_name, identity = i, inputs = inp, steps = ss\<rparr>"

record actor_declaration =
  decl_actor :: string
  operation :: string

record policy =
  max_actors :: nat
  max_steps :: nat
  execution_timeout :: nat
  cleanup_timeout :: nat

definition seconds :: "nat \<Rightarrow> nat" where
  "seconds n = n * 1000000000"

definition policy_default :: policy where
  "policy_default =
     \<lparr>max_actors = 64, max_steps = 65536, execution_timeout = seconds 2, cleanup_timeout = seconds 1\<rparr>"

text \<open>The part of an adapter that admission looks at; its factory is an argument of the run.\<close>

record adapter =
  adapter_identity :: identity
  adapter_actors :: "actor_declaration list"
  adapter_checkpoints :: "string list"

datatype outcome =
    Completed
  | InvalidSchedule
  | IncompatibleIdentity
  | Cancelled
  | TimedOut
  | UnexpectedCheckpoint
  | UncontrolledActor
  | ApplicationFailed
  | ObservationFailed
  | ResourceFailed

datatype cleanup = NotStarted | Confirmed | Incomplete | TeardownFailed

section \<open>Lexical checks\<close>

definition identifier_byte :: "char \<Rightarrow> bool" where
  "identifier_byte c \<longleftrightarrow> is_ascii_alphanumeric c \<or> c \<in> set ''_-./''"

definition is_identifier :: "string \<Rightarrow> bool" where
  "is_identifier s \<longleftrightarrow> s \<noteq> [] \<and> length s \<le> 128 \<and> list_all identifier_byte s"

definition digest_text :: "string \<Rightarrow> bool" where
  "digest_text s \<longleftrightarrow> length s = 64 \<and> list_all is_lower_hex s"

definition identity_valid :: "identity \<Rightarrow> bool" where
  "identity_valid i \<longleftrightarrow>
     digest_text (model_semantic_digest i) \<and> digest_text (mapping_sha256 i)
     \<and> digest_text (implementation_sha256 i)"

definition budget :: "nat \<Rightarrow> bool" where
  "budget d \<longleftrightarrow> d \<noteq> 0 \<and> d \<le> seconds 86400"

lemma completion_not_identifier: "\<not> is_identifier completion"
  by (simp add: is_identifier_def completion_def identifier_byte_def is_ascii_alphanumeric_def
      is_ascii_alphabetic_def is_ascii_upper_def is_ascii_lower_def is_ascii_digit_def byte_of_def)

section \<open>The text form\<close>

text \<open>
  What a derived \<^verbatim>\<open>Deserialize\<close> with \<^verbatim>\<open>deny_unknown_fields\<close> takes from a tree: the
  fields of an object that has exactly them, or the elements of an array of their number.
\<close>

definition struct_fields :: "string list \<Rightarrow> json \<Rightarrow> json list option" where
  "struct_fields names j =
     (case j of
        JObject m \<Rightarrow>
          if set (map fst m) = set names then Some (map (\<lambda>n. jfield j n) names) else None
      | JArray vs \<Rightarrow> if length vs = length names then Some vs else None
      | _ \<Rightarrow> None)"

definition identity_of_json :: "json \<Rightarrow> identity option" where
  "identity_of_json j =
     (case struct_fields [''modelSemanticDigest'', ''mappingSha256'', ''implementationSha256''] j of
        Some [JString a, JString b, JString c] \<Rightarrow>
          Some \<lparr>model_semantic_digest = a, mapping_sha256 = b, implementation_sha256 = c\<rparr>
      | _ \<Rightarrow> None)"

definition step_of_json :: "json \<Rightarrow> step option" where
  "step_of_json j =
     (case struct_fields [''actor'', ''checkpoint''] j of
        Some [JString a, JString c] \<Rightarrow> Some (step_new a c)
      | _ \<Rightarrow> None)"

definition list_of_json :: "(json \<Rightarrow> 'a option) \<Rightarrow> json \<Rightarrow> 'a list option" where
  "list_of_json f j = (case j of JArray vs \<Rightarrow> those (map f vs) | _ \<Rightarrow> None)"

definition schedule_of_json :: "json \<Rightarrow> schedule option" where
  "schedule_of_json j =
     (case struct_fields [''schema'', ''profile'', ''identity'', ''inputs'', ''steps''] j of
        Some [JString sc, JString pr, i, inp, st] \<Rightarrow>
          (case (identity_of_json i, list_of_json step_of_json st) of
             (Some i', Some st') \<Rightarrow>
               Some \<lparr>schema = sc, profile = pr, identity = i', inputs = inp, steps = st'\<rparr>
           | _ \<Rightarrow> None)
      | _ \<Rightarrow> None)"

definition identity_json :: "identity \<Rightarrow> json" where
  "identity_json i = JObject
     [(''modelSemanticDigest'', JString (model_semantic_digest i)),
      (''mappingSha256'', JString (mapping_sha256 i)),
      (''implementationSha256'', JString (implementation_sha256 i))]"

definition step_json :: "step \<Rightarrow> json" where
  "step_json s = JObject [(''actor'', JString (actor s)), (''checkpoint'', JString (checkpoint s))]"

definition schedule_json :: "schedule \<Rightarrow> json" where
  "schedule_json s = JObject
     [(''schema'', JString (schema s)), (''profile'', JString (profile s)),
      (''identity'', identity_json (identity s)), (''inputs'', inputs s),
      (''steps'', JArray (map step_json (steps s)))]"

datatype schedule_error =
    ScheduleText json_error
  | ScheduleShape json
  | ScheduleFields
  | InputsExceedBound

definition schedule_limits :: limits where
  "schedule_limits =
     \<lparr>max_bytes = 8 * 1048576, max_depth = 32, max_nodes = 600000, reject_duplicate_keys = True\<rparr>"

definition schedule_fields_ok :: "schedule \<Rightarrow> bool" where
  "schedule_fields_ok s \<longleftrightarrow>
     \<not> (schema s \<noteq> schema_name \<or> profile s \<noteq> profile_name \<or> \<not> identity_valid (identity s)
        \<or> length (steps s) > 65536
        \<or> list_ex (\<lambda>st. \<not> is_identifier (actor st)
             \<or> (checkpoint st \<noteq> completion \<and> \<not> is_identifier (checkpoint st))) (steps s))"

definition parse_schedule :: "codec \<Rightarrow> string \<Rightarrow> schedule_error + schedule" where
  "parse_schedule c s =
     (case parse (c_strtok c) s schedule_limits of
        Inl e \<Rightarrow> Inl (ScheduleText e)
      | Inr v \<Rightarrow>
          (case schedule_of_json v of
             None \<Rightarrow> Inl (ScheduleShape v)
           | Some sch \<Rightarrow>
               if \<not> schedule_fields_ok sch then Inl ScheduleFields
               else if length (c_render c (inputs sch)) > 65535 then Inl InputsExceedBound
               else Inr sch))"

definition encode_schedule :: "codec \<Rightarrow> schedule \<Rightarrow> schedule_error + string" where
  "encode_schedule c sch =
     (let s = c_render c (schedule_json sch)
      in case parse_schedule c s of Inl e \<Rightarrow> Inl e | Inr _ \<Rightarrow> Inr s)"

section \<open>Admission\<close>

datatype detail = Detail string | FromSchedule schedule_error

fun admit_actors :: "actor_declaration list \<Rightarrow> string set \<Rightarrow> string set \<Rightarrow> string set option" where
  "admit_actors [] actors operations = Some actors"
| "admit_actors (a # as) actors operations =
     (if \<not> is_identifier (decl_actor a) \<or> \<not> is_identifier (operation a)
         \<or> decl_actor a \<in> actors \<or> operation a \<in> operations
      then None
      else admit_actors as (insert (decl_actor a) actors) (insert (operation a) operations))"

fun admit_checkpoints :: "string list \<Rightarrow> string set \<Rightarrow> string set option" where
  "admit_checkpoints [] seen = Some seen"
| "admit_checkpoints (c # cs) seen =
     (if \<not> is_identifier c \<or> c \<in> seen then None else admit_checkpoints cs (insert c seen))"

fun admit_steps :: "string set \<Rightarrow> string set \<Rightarrow> step list \<Rightarrow> string set \<Rightarrow> string + string set" where
  "admit_steps actors checkpoints [] finished = Inr finished"
| "admit_steps actors checkpoints (s # ss) finished =
     (if actor s \<notin> actors \<or> actor s \<in> finished then
        Inl ''unknown actor or interval after completion''
      else if checkpoint s = completion then
        admit_steps actors checkpoints ss (insert (actor s) finished)
      else if checkpoint s \<notin> checkpoints then Inl ''undeclared checkpoint''
      else admit_steps actors checkpoints ss finished)"

definition policy_valid :: "policy \<Rightarrow> bool" where
  "policy_valid p \<longleftrightarrow>
     \<not> (max_actors p = 0 \<or> max_actors p > 64 \<or> max_steps p = 0 \<or> max_steps p > 65536
        \<or> \<not> budget (execution_timeout p) \<or> \<not> budget (cleanup_timeout p))"

definition admit :: "codec \<Rightarrow> schedule \<Rightarrow> adapter \<Rightarrow> policy \<Rightarrow> outcome \<times> detail + unit" where
  "admit c sch ad p =
     (let invalid = (\<lambda>s. Inl (InvalidSchedule, Detail s)) in
      case encode_schedule c sch of
        Inl e \<Rightarrow> Inl (InvalidSchedule, FromSchedule e)
      | Inr _ \<Rightarrow>
          if identity sch \<noteq> adapter_identity ad \<or> \<not> identity_valid (adapter_identity ad) then
            Inl (IncompatibleIdentity, Detail ''adapter identity differs'')
          else if \<not> policy_valid p then invalid ''invalid policy bounds''
          else if adapter_actors ad = [] \<or> length (adapter_actors ad) > max_actors p
                  \<or> length (steps sch) > max_steps p then
            invalid ''actor/step bounds exceeded''
          else
            (case admit_actors (adapter_actors ad) {} {} of
               None \<Rightarrow> invalid ''duplicate/invalid actor or operation''
             | Some actors \<Rightarrow>
                 (case admit_checkpoints (adapter_checkpoints ad) {} of
                    None \<Rightarrow> invalid ''duplicate/invalid checkpoint''
                  | Some checkpoints \<Rightarrow>
                      (case admit_steps actors checkpoints (steps sch) {} of
                         Inl e \<Rightarrow> invalid e
                       | Inr finished \<Rightarrow>
                           if finished \<noteq> actors then
                             invalid ''every actor requires one terminal interval''
                           else Inr ()))))"

section \<open>What admission means\<close>

text \<open>
  The steps are well formed for a set of actors and checkpoints when every interval belongs to an
  actor that has not completed, ends at a declared checkpoint or at the completion, and every actor
  completes.
\<close>

definition steps_admissible :: "string set \<Rightarrow> string set \<Rightarrow> step list \<Rightarrow> bool" where
  "steps_admissible actors checkpoints ss \<longleftrightarrow>
     (\<forall>i < length ss. actor (ss ! i) \<in> actors
        \<and> (checkpoint (ss ! i) = completion \<or> checkpoint (ss ! i) \<in> checkpoints)
        \<and> (\<forall>j < i. checkpoint (ss ! j) = completion \<longrightarrow> actor (ss ! j) \<noteq> actor (ss ! i)))
     \<and> actors \<subseteq> actor ` set (filter (\<lambda>s. checkpoint s = completion) ss)"

definition admissible :: "schedule \<Rightarrow> adapter \<Rightarrow> policy \<Rightarrow> bool" where
  "admissible sch ad p \<longleftrightarrow>
     identity sch = adapter_identity ad \<and> identity_valid (identity sch) \<and> policy_valid p
     \<and> adapter_actors ad \<noteq> [] \<and> length (adapter_actors ad) \<le> max_actors p
     \<and> length (steps sch) \<le> max_steps p
     \<and> list_all (\<lambda>a. is_identifier (decl_actor a) \<and> is_identifier (operation a)) (adapter_actors ad)
     \<and> distinct (map decl_actor (adapter_actors ad)) \<and> distinct (map operation (adapter_actors ad))
     \<and> list_all is_identifier (adapter_checkpoints ad) \<and> distinct (adapter_checkpoints ad)
     \<and> steps_admissible (decl_actor ` set (adapter_actors ad)) (set (adapter_checkpoints ad)) (steps sch)"

lemma admit_actors_Some:
  "admit_actors as xs ops = Some r \<longleftrightarrow>
     r = xs \<union> decl_actor ` set as
     \<and> list_all (\<lambda>a. is_identifier (decl_actor a) \<and> is_identifier (operation a)) as
     \<and> distinct (map decl_actor as) \<and> distinct (map operation as)
     \<and> xs \<inter> decl_actor ` set as = {} \<and> ops \<inter> operation ` set as = {}"
  by (induction as xs ops rule: admit_actors.induct) auto

lemma admit_checkpoints_Some:
  "admit_checkpoints cs seen = Some r \<longleftrightarrow>
     r = seen \<union> set cs \<and> list_all is_identifier cs \<and> distinct cs \<and> seen \<inter> set cs = {}"
  by (induction cs seen rule: admit_checkpoints.induct) auto

fun intervals_ok :: "string set \<Rightarrow> string set \<Rightarrow> step list \<Rightarrow> string set \<Rightarrow> bool" where
  "intervals_ok actors checkpoints [] finished = True"
| "intervals_ok actors checkpoints (s # ss) finished =
     (actor s \<in> actors \<and> actor s \<notin> finished
      \<and> (checkpoint s = completion \<or> checkpoint s \<in> checkpoints)
      \<and> intervals_ok actors checkpoints ss
          (if checkpoint s = completion then insert (actor s) finished else finished))"

lemma admit_steps_Inr:
  "admit_steps actors checkpoints ss finished = Inr r \<longleftrightarrow>
     intervals_ok actors checkpoints ss finished
     \<and> r = finished \<union> actor ` set (filter (\<lambda>s. checkpoint s = completion) ss)"
proof (induction actors checkpoints ss finished rule: admit_steps.induct)
  case (2 actors checkpoints s ss finished)
  show ?case
    by (cases "checkpoint s = completion"; cases "actor s \<in> actors \<and> actor s \<notin> finished";
        cases "checkpoint s \<in> checkpoints") (simp_all add: 2)
qed auto

lemma intervals_ok_nth:
  "intervals_ok actors checkpoints ss finished \<longleftrightarrow>
     (\<forall>i < length ss. actor (ss ! i) \<in> actors \<and> actor (ss ! i) \<notin> finished
        \<and> (checkpoint (ss ! i) = completion \<or> checkpoint (ss ! i) \<in> checkpoints)
        \<and> (\<forall>j < i. checkpoint (ss ! j) = completion \<longrightarrow> actor (ss ! j) \<noteq> actor (ss ! i)))"
proof (induction actors checkpoints ss finished rule: intervals_ok.induct)
  case (2 actors checkpoints s ss finished)
  have tail: "(\<forall>j < Suc i. checkpoint ((s # ss) ! j) = completion \<longrightarrow> actor ((s # ss) ! j) \<noteq> actor (ss ! i))
      \<longleftrightarrow> (checkpoint s = completion \<longrightarrow> actor s \<noteq> actor (ss ! i))
        \<and> (\<forall>j < i. checkpoint (ss ! j) = completion \<longrightarrow> actor (ss ! j) \<noteq> actor (ss ! i))" for i
    unfolding All_less_Suc2 by simp
  have memb: "x \<notin> (if checkpoint s = completion then insert (actor s) finished else finished)
      \<longleftrightarrow> x \<notin> finished \<and> (checkpoint s = completion \<longrightarrow> actor s \<noteq> x)" for x
    by auto
  show ?case
    unfolding intervals_ok.simps 2 length_Cons
    by (subst All_less_Suc2) (simp only: nth_Cons_0 nth_Cons_Suc tail memb not_less0 simp_thms, blast)
qed simp

lemma admit_steps_admissible:
  "admit_steps actors checkpoints ss {} = Inr actors \<longleftrightarrow> steps_admissible actors checkpoints ss"
  unfolding admit_steps_Inr intervals_ok_nth steps_admissible_def by (auto simp: in_set_conv_nth)


lemma encode_schedule_fields: "encode_schedule c sch = Inr s \<Longrightarrow> parse_schedule c s \<noteq> Inl e"
  by (auto simp: encode_schedule_def Let_def split: sum.splits)

lemma admit_accepts:
  "admit c sch ad p = Inr () \<longleftrightarrow> (\<exists>s. encode_schedule c sch = Inr s) \<and> admissible sch ad p"
proof (cases "encode_schedule c sch")
  case (Inl e)
  then show ?thesis by (simp add: admit_def)
next
  case (Inr s)
  let ?actors = "decl_actor ` set (adapter_actors ad)"
  let ?cps = "set (adapter_checkpoints ad)"
  have lists: "admit c sch ad p = Inr () \<longleftrightarrow>
      identity sch = adapter_identity ad \<and> identity_valid (adapter_identity ad) \<and> policy_valid p
      \<and> adapter_actors ad \<noteq> [] \<and> length (adapter_actors ad) \<le> max_actors p
      \<and> length (steps sch) \<le> max_steps p
      \<and> (\<exists>xs cs. admit_actors (adapter_actors ad) {} {} = Some xs
          \<and> admit_checkpoints (adapter_checkpoints ad) {} = Some cs
          \<and> admit_steps xs cs (steps sch) {} = Inr xs)"
    by (auto simp: admit_def Inr Let_def split: option.splits sum.splits)
  show ?thesis
    unfolding lists admit_actors_Some admit_checkpoints_Some admissible_def
    using Inr admit_steps_admissible [of ?actors ?cps "steps sch"] by auto
qed

section \<open>Writing and reading a schedule\<close>

text \<open>A tree as it is after being written and read: every object in key order.\<close>

fun sort_keys :: "json \<Rightarrow> json" where
  "sort_keys (JArray vs) = JArray (map sort_keys vs)"
| "sort_keys (JObject m) = JObject (bt_of_list (map (\<lambda>(k, v). (k, sort_keys v)) m))"
| "sort_keys j = j"

lemma sort_keys_ok: "json_ok j \<Longrightarrow> sort_keys j = j"
proof (induction j rule: sort_keys.induct)
  case (1 vs)
  then show ?case by (simp add: map_idI)
next
  case (2 m)
  have "map (\<lambda>(k, v). (k, sort_keys v)) m = m"
    by (rule map_idI) (use 2 in auto)
  then show ?case using 2 by (simp add: bt_of_list_idem)
qed simp_all

lemma struct_fields_sorted:
  assumes "distinct (map fst m)" and "map fst m = names"
  shows "struct_fields names (sort_keys (JObject m)) = Some (map (\<lambda>(k, v). sort_keys v) m)"
proof -
  let ?m = "map (\<lambda>(k, v). (k, sort_keys v)) m"
  have keys: "map fst ?m = names" using assms(2) by (simp add: case_prod_beta comp_def)
  have "map_of (rev ?m) = map_of ?m"
    using assms keys by (intro map_of_inject_set [THEN iffD2]) (auto simp: rev_map [symmetric])
  then have "jfield (sort_keys (JObject m)) k = sort_keys v" if "(k, v) \<in> set m" for k v
  proof -
    have "map_of ?m k = Some (sort_keys v)"
    proof (rule map_of_is_SomeI)
      show "distinct (map fst ?m)" unfolding keys using assms by simp
      show "(k, sort_keys v) \<in> set ?m" using that by force
    qed
    then show ?thesis using \<open>map_of (rev ?m) = map_of ?m\<close> by (simp add: bt_get_of_list)
  qed
  then have "map (jfield (sort_keys (JObject m))) (map fst m) = map (\<lambda>(k, v). sort_keys v) m"
    by auto
  moreover have "fst ` set (bt_of_list ?m) = set names"
    using keys by (metis keys_bt_of_list set_map)
  ultimately show ?thesis using assms(2) by (simp add: struct_fields_def)
qed

lemma identity_roundtrip: "identity_of_json (sort_keys (identity_json i)) = Some i"
  unfolding identity_json_def identity_of_json_def by (subst struct_fields_sorted) simp_all

lemma step_roundtrip: "step_of_json (sort_keys (step_json s)) = Some s"
  unfolding step_json_def step_of_json_def by (subst struct_fields_sorted) (simp_all add: step_new_def)

lemma steps_roundtrip:
  "list_of_json step_of_json (sort_keys (JArray (map step_json ss))) = Some ss"
  by (induction ss) (simp_all add: list_of_json_def step_roundtrip)

lemma schedule_roundtrip:
  "json_ok (inputs s) \<Longrightarrow> schedule_of_json (sort_keys (schedule_json s)) = Some s"
proof -
  assume "json_ok (inputs s)"
  then show ?thesis
    unfolding schedule_json_def schedule_of_json_def
    by (subst struct_fields_sorted)
      (simp_all add: identity_roundtrip steps_roundtrip sort_keys_ok del: sort_keys.simps(1,2))
qed


section \<open>Properties\<close>

text \<open>
  C16. Admission decides exactly the well-formed executions: it accepts if and only if the schedule
  can be written and read back within its bounds, belongs to the adapter, and is
  \<open>admissible\<close>: distinct valid names, every interval of a declared actor that has not
  completed before, ending at a declared checkpoint or at the completion, and every actor completing.
\<close>

theorem admit_iff:
  "admit c sch ad p = Inr () \<longleftrightarrow> (\<exists>s. encode_schedule c sch = Inr s) \<and> admissible sch ad p"
  by (rule admit_accepts)


definition sample_digest :: string where
  "sample_digest = replicate 64 (CHR ''a'')"

definition sample_identity :: identity where
  "sample_identity = \<lparr>model_semantic_digest = sample_digest, mapping_sha256 = sample_digest,
     implementation_sha256 = sample_digest\<rparr>"

definition sample_schedule :: schedule where
  "sample_schedule = schedule_new sample_identity (JNumber ''0'') [step_new ''w'' completion]"

text \<open>
  A stand-in for the token decoder: tokens of one character abbreviate the strings of the schedule,
  so that the sample text stays short.
\<close>

definition abbreviations :: "(char \<times> string) list" where
  "abbreviations =
     [(CHR ''S'', ''schema''), (CHR ''P'', ''profile''), (CHR ''I'', ''identity''), (CHR ''N'', ''inputs''),
      (CHR ''T'', ''steps''), (CHR ''a'', ''modelSemanticDigest''), (CHR ''b'', ''mappingSha256''),
      (CHR ''c'', ''implementationSha256''), (CHR ''A'', ''actor''), (CHR ''C'', ''checkpoint''),
      (CHR ''d'', sample_digest), (CHR ''s'', schema_name), (CHR ''p'', profile_name),
      (CHR ''z'', completion)]"

definition short_strtok :: "bytes \<Rightarrow> string option" where
  "short_strtok s =
     (case s of
        [q, x, q'] \<Rightarrow> (case map_of abbreviations x of Some y \<Rightarrow> Some y | None \<Rightarrow> Some [x])
      | _ \<Rightarrow> None)"

definition token :: "char \<Rightarrow> string" where
  "token x = [CHR 0x22, x, CHR 0x22]"

definition member_text :: "char \<Rightarrow> string \<Rightarrow> string" where
  "member_text k v = token k @ CHR '':'' # v"

definition step_text :: "char \<Rightarrow> char \<Rightarrow> string" where
  "step_text a cp = ''{'' @ member_text (CHR ''A'') (token a) @ '','' @ member_text (CHR ''C'') (token cp) @ ''}''"

definition sample_schedule_text :: string where
  "sample_schedule_text =
     ''{'' @ member_text (CHR ''S'') (token (CHR ''s'')) @ '','' @ member_text (CHR ''P'') (token (CHR ''p''))
     @ '','' @ member_text (CHR ''I'')
         (''{'' @ member_text (CHR ''a'') (token (CHR ''d'')) @ '','' @ member_text (CHR ''b'') (token (CHR ''d''))
          @ '','' @ member_text (CHR ''c'') (token (CHR ''d'')) @ ''}'')
     @ '','' @ member_text (CHR ''N'') ''0'' @ '',''
     @ member_text (CHR ''T'') (CHR 0x5B # step_text (CHR ''w'') (CHR ''z'') @ [CHR 0x5D]) @ ''}''"

text \<open>A renderer that knows the two trees of the sample.\<close>

definition sample_render_schedule :: "json \<Rightarrow> string" where
  "sample_render_schedule j =
     (case j of JNumber n \<Rightarrow> n | JObject [_] \<Rightarrow> ''{}'' | _ \<Rightarrow> sample_schedule_text)"

definition sample_codec :: codec where
  "sample_codec = \<lparr>c_strtok = short_strtok, c_render = sample_render_schedule\<rparr>"

lemma parse_sample_text:
  "parse short_strtok sample_schedule_text schedule_limits = Inr (sort_keys (schedule_json sample_schedule))"
  by code_simp

lemma parse_sample_schedule:
  "parse (c_strtok sample_codec) (c_render sample_codec (schedule_json sample_schedule)) schedule_limits
     = Inr (sort_keys (schedule_json sample_schedule))"
  using parse_sample_text by (simp add: sample_codec_def schedule_json_def sample_render_schedule_def)

lemma sample_schedule_ok: "json_ok (inputs sample_schedule)" "schedule_fields_ok sample_schedule"
    "length (c_render sample_codec (inputs sample_schedule)) = 1"
  by code_simp+

lemma encode_sample_schedule: "encode_schedule sample_codec sample_schedule = Inr sample_schedule_text"
  using parse_sample_text schedule_roundtrip [OF sample_schedule_ok(1)] sample_schedule_ok
  by (simp add: encode_schedule_def parse_schedule_def sample_codec_def schedule_json_def
      sample_render_schedule_def)


end
