(* ===== verification/Schedule_Run.thy ===== *)
theory Schedule_Run
  imports Schedule
begin

text \<open>
  \<^verbatim>\<open>src/schedule.rs\<close>, second part: the execution of a schedule by owned worker threads.  The
  state under the mutex is \<open>sched\<close>; a worker thread is a program counter, \<open>worker_pc\<close>; what
  happens between two lock acquisitions of the controller (steps of workers, the clock, a
  cancellation, the results of the application's callbacks) is a \<open>batch\<close> of the environment, and
  the controller's functions take one batch at each acquisition.  When the batches run out, the
  deadlines pass.
\<close>

section \<open>The state under the lock\<close>

datatype phase = Starting | Parked | Running | Finished

record actor_state =
  declared :: actor_declaration
  phase :: phase
  at_checkpoint :: string
  thread :: "nat option"

record report =
  r_outcome :: outcome
  r_detail :: detail
  schedule_completed :: bool
  r_cleanup :: cleanup
  remaining_actors :: "string list"
  generation :: nat
  execution_id :: string
  events :: "json list"
  observations :: "json list"
  cleanup_attempts :: "json list"

record sched =
  actors :: "actor_state list"
  stopping :: bool
  report :: report
  evidence_bytes :: nat

definition passed :: "report \<Rightarrow> bool" where
  "passed r \<longleftrightarrow> r_outcome r = Completed \<and> schedule_completed r \<and> r_cleanup r = Confirmed"

abbreviation outcome_of :: "sched \<Rightarrow> outcome" where
  "outcome_of s \<equiv> r_outcome (report s)"

definition fail :: "outcome \<Rightarrow> detail \<Rightarrow> sched \<Rightarrow> sched" where
  "fail out d s =
     (if outcome_of s = Completed
      then s\<lparr>report := (report s)\<lparr>r_outcome := out, r_detail := d\<rparr>, stopping := True\<rparr>
      else s\<lparr>stopping := True\<rparr>)"

definition set_actor :: "nat \<Rightarrow> (actor_state \<Rightarrow> actor_state) \<Rightarrow> sched \<Rightarrow> sched" where
  "set_actor i f s = s\<lparr>actors := (actors s)[i := f (actors s ! i)]\<rparr>"

definition event_row :: "nat \<Rightarrow> string \<Rightarrow> nat \<Rightarrow> actor_declaration \<Rightarrow> string \<Rightarrow> json" where
  "event_row ordinal kind step_index d cp = json_obj
     [(''ordinal'', json_nat ordinal), (''kind'', JString kind), (''step'', json_nat step_index),
      (''actor'', JString (decl_actor d)), (''operation'', JString (operation d)),
      (''checkpoint'', JString cp)]"

definition evidence_limit :: nat where
  "evidence_limit = 8 * 1048576"

definition retain_event :: "codec \<Rightarrow> string \<Rightarrow> nat \<Rightarrow> nat \<Rightarrow> sched \<Rightarrow> sched" where
  "retain_event c kind step_index i s =
     (let a = actors s ! i;
          row = event_row (length (events (report s))) kind step_index (declared a) (at_checkpoint a);
          s' = s\<lparr>evidence_bytes := evidence_bytes s + length (c_render c row)\<rparr>
      in if evidence_bytes s' > evidence_limit then
           fail ResourceFailed (Detail ''execution evidence exceeds bound'') s'
         else s'\<lparr>report := (report s')\<lparr>events := events (report s') @ [row]\<rparr>\<rparr>)"

section \<open>Workers\<close>

datatype callback = CallOk json | CallErr string | CallPanic

text \<open>
  Where a worker thread is: not spawned, before its first lock, waiting for its first permit, waiting
  in a checkpoint, in application code, between application code and the final section, past it, and
  gone.
\<close>

datatype worker_pc =
    Unspawned
  | Spawned
  | WaitStart
  | WaitArrive
  | InUser
  | Ending callback
  | Ended
  | Exited

datatype worker_event =
    WStart nat
  | WWake
  | WArrive nat string
  | WReturn callback
  | WEnd
  | WExit

text \<open>
  \<^verbatim>\<open>Checkpoint::arrive\<close> up to the wait, for actor \<open>i\<close> called on thread \<open>t\<close>:
  \<open>Inl\<close> is the error it returns at once, \<open>Inr\<close> means it is parked.
\<close>

definition arrive :: "string list \<Rightarrow> nat \<Rightarrow> nat \<Rightarrow> string \<Rightarrow> sched \<Rightarrow> (string + unit) \<times> sched" where
  "arrive checkpoints i t cp s =
     (if thread (actors s ! i) \<noteq> Some t \<or> phase (actors s ! i) \<noteq> Running then
        (Inl ''uncontrolled actor'',
         fail UncontrolledActor (Detail ''checkpoint called outside owned running actor'') s)
      else if stopping s then (Inl ''execution cancelled'', s)
      else if \<not> is_identifier cp \<or> cp \<notin> set checkpoints then
        (Inl ''unexpected checkpoint'', fail UnexpectedCheckpoint (Detail ''undeclared checkpoint'') s)
      else (Inr (), set_actor i (\<lambda>a. a\<lparr>at_checkpoint := cp, phase := Parked\<rparr>) s))"

text \<open>The last locked section of a worker thread.\<close>

definition finish_worker :: "nat \<Rightarrow> callback \<Rightarrow> sched \<Rightarrow> sched" where
  "finish_worker i result s =
     (let s' = (if stopping s then s
                else (case result of
                        CallOk _ \<Rightarrow> s
                      | CallErr e \<Rightarrow> fail ApplicationFailed (Detail e) s
                      | CallPanic \<Rightarrow> fail ApplicationFailed (Detail ''worker panicked'') s))
      in set_actor i (\<lambda>a. a\<lparr>phase := Finished, at_checkpoint := completion\<rparr>) s')"

text \<open>
  One step of worker \<open>i\<close>; an event that the thread cannot take where it is has no effect.  A
  reference to the checkpoint may have been handed to another thread, so \<open>WArrive\<close> also comes
  from a thread that is not the worker's own while the worker is in application code or parked.
\<close>

fun worker_step ::
    "string list \<Rightarrow> nat \<Rightarrow> worker_event \<Rightarrow> sched \<times> worker_pc list \<Rightarrow> sched \<times> worker_pc list" where
  "worker_step cps i (WStart t) (s, ws) =
     (if ws ! i = Spawned
      then (set_actor i (\<lambda>a. a\<lparr>thread := Some t, phase := Parked\<rparr>) s, ws[i := WaitStart])
      else (s, ws))"
| "worker_step cps i WWake (s, ws) =
     (if ws ! i = WaitStart then
        (if stopping s then (s, ws[i := Ending (CallOk JNull)])
         else if phase (actors s ! i) = Running then (s, ws[i := InUser])
         else (s, ws))
      else if ws ! i = WaitArrive \<and> (stopping s \<or> phase (actors s ! i) = Running) then (s, ws[i := InUser])
      else (s, ws))"
| "worker_step cps i (WArrive t cp) (s, ws) =
     (if ws ! i = InUser \<or> ws ! i = WaitArrive \<and> thread (actors s ! i) \<noteq> Some t then
        (case arrive cps i t cp s of
           (Inl _, s') \<Rightarrow> (s', ws)
         | (Inr _, s') \<Rightarrow> (s', ws[i := WaitArrive]))
      else (s, ws))"
| "worker_step cps i (WReturn result) (s, ws) =
     (if ws ! i = InUser then (s, ws[i := Ending result]) else (s, ws))"
| "worker_step cps i WEnd (s, ws) =
     (case ws ! i of Ending result \<Rightarrow> (finish_worker i result s, ws[i := Ended]) | _ \<Rightarrow> (s, ws))"
| "worker_step cps i WExit (s, ws) =
     (if ws ! i = Ended then (s, ws[i := Exited]) else (s, ws))"

fun worker_events ::
    "string list \<Rightarrow> (nat \<times> worker_event) list \<Rightarrow> sched \<times> worker_pc list \<Rightarrow> sched \<times> worker_pc list" where
  "worker_events cps [] x = x"
| "worker_events cps ((i, e) # es) x =
     worker_events cps es (if i < length (snd x) then worker_step cps i e x else x)"

section \<open>The controller\<close>

record batch =
  b_events :: "(nat \<times> worker_event) list"
  b_cancel :: bool
  b_expire :: bool
  b_cleanup_expire :: bool
  b_observe :: callback
  b_teardown :: callback
  b_join_panics :: bool

definition last_batch :: batch where
  "last_batch = \<lparr>b_events = [], b_cancel = False, b_expire = True, b_cleanup_expire = True,
     b_observe = CallPanic, b_teardown = CallPanic, b_join_panics = False\<rparr>"

text \<open>
  An execution, with the workers and the environment it runs against.  \<open>handles\<close> says which
  threads are not joined yet, \<open>teardowns\<close> counts the calls of the program's teardown.
\<close>

record run =
  run_schedule_of :: schedule
  declarations :: "actor_declaration list"
  checkpoints :: "string list"
  shared :: sched
  program :: bool
  handles :: "bool list"
  run_policy :: policy
  cancelled :: bool
  expired :: bool
  owner :: nat
  next_step :: nat
  closed :: bool
  workers :: "worker_pc list"
  envs :: "batch list"
  teardowns :: nat

text \<open>The calling thread: its identity, and whether it is inside one of the scheduler's callbacks.\<close>

record caller =
  caller_thread :: nat
  in_callback :: bool

definition tick :: "run \<Rightarrow> batch \<times> run" where
  "tick r =
     (let b = (case envs r of b # _ \<Rightarrow> b | [] \<Rightarrow> last_batch);
          sw = worker_events (checkpoints r) (b_events b) (shared r, workers r)
      in (b, r\<lparr>shared := fst sw, workers := snd sw, envs := tl (envs r),
              cancelled := (cancelled r \<or> b_cancel b), expired := (expired r \<or> b_expire b)\<rparr>))"

definition locked :: "run \<Rightarrow> run" where
  "locked r = snd (tick r)"

definition on_shared :: "(sched \<Rightarrow> sched) \<Rightarrow> run \<Rightarrow> run" where
  "on_shared f r = r\<lparr>shared := f (shared r)\<rparr>"

definition check_owner :: "caller \<Rightarrow> run \<Rightarrow> bool" where
  "check_owner ctx r \<longleftrightarrow> owner r = caller_thread ctx \<and> \<not> in_callback ctx"

definition owner_error :: string where
  "owner_error = ''scheduler reentry or wrong controller thread''"

lemma tick_envs: "length (envs (snd (tick r))) = length (envs r) - 1"
  by (simp add: tick_def Let_def)

lemma tick_last: "envs r = [] \<Longrightarrow> expired (snd (tick r))"
  by (simp add: tick_def last_batch_def Let_def)

function wait_for :: "(sched \<Rightarrow> bool) \<Rightarrow> run \<Rightarrow> bool \<times> run" where
  "wait_for P r0 =
     (let r = locked r0
      in if stopping (shared r) then (False, r)
         else if cancelled r then
           (False, on_shared (fail Cancelled (Detail ''caller cancellation'')) r)
         else if expired r then
           (False, on_shared (fail TimedOut (Detail ''execution deadline exceeded'')) r)
         else if P (shared r) then (True, r)
         else wait_for P r)"
  by pat_completeness auto
termination
proof (relation "measure (\<lambda>(P, r). length (envs r))", goal_cases)
  case 1
  show ?case by simp
next
  case (2 P r0 r)
  then have "\<not> expired (snd (tick r0))" by (simp add: locked_def)
  then have "envs r0 \<noteq> []" using tick_last by blast
  then show ?case using 2(1) by (simp add: locked_def tick_envs)
qed

declare wait_for.simps [simp del]

definition observation_limits :: limits where
  "observation_limits =
     \<lparr>max_bytes = 65535, max_depth = 28, max_nodes = 65536, reject_duplicate_keys = True\<rparr>"

definition observe_result :: "codec \<Rightarrow> nat \<Rightarrow> callback \<Rightarrow> sched \<Rightarrow> sched" where
  "observe_result c after result s =
     (case result of
        CallOk v \<Rightarrow>
          (let t = c_render c v
           in if (case parse (c_strtok c) t observation_limits of Inl _ \<Rightarrow> True | Inr _ \<Rightarrow> False)
                 \<or> evidence_bytes s + length t > evidence_limit
              then fail ObservationFailed (Detail ''observation evidence bound exceeded'') s
              else s\<lparr>evidence_bytes := evidence_bytes s + length t,
                     report := (report s)\<lparr>observations := observations (report s)
                       @ [json_obj [(''afterSteps'', json_nat after), (''state'', v)]]\<rparr>\<rparr>)
      | CallErr e \<Rightarrow> fail ObservationFailed (Detail e) s
      | CallPanic \<Rightarrow> fail ObservationFailed (Detail ''observer panicked'') s)"

definition observe :: "codec \<Rightarrow> run \<Rightarrow> run" where
  "observe c r0 =
     (let (b, r) = tick r0
      in if stopping (shared r) then r
         else if list_ex (\<lambda>a. phase a = Running \<or> phase a = Starting) (actors (shared r)) then
           on_shared (fail ObservationFailed (Detail ''actors not quiescent'')) r
         else if cancelled r then
           on_shared (fail Cancelled (Detail ''cancelled during observation'')) r
         else if expired r then
           on_shared (fail TimedOut (Detail ''execution deadline exceeded during observation'')) r
         else on_shared (observe_result c (next_step r) (b_observe b)) r)"

definition handle_live :: "run \<Rightarrow> nat \<Rightarrow> bool" where
  "handle_live r i \<longleftrightarrow> i < length (handles r) \<and> handles r ! i"

definition all_finished :: "run \<Rightarrow> bool" where
  "all_finished r \<longleftrightarrow>
     list_all (\<lambda>i. handles r ! i \<longrightarrow> workers r ! i = Exited) [0..<length (handles r)]"

function await_exit :: "run \<Rightarrow> run" where
  "await_exit r =
     (if all_finished r \<or> envs r = [] then r
      else (let (b, r') = tick r in if b_cleanup_expire b then r' else await_exit r'))"
  by pat_completeness auto
termination
  by (relation "measure (\<lambda>r. length (envs r))")
    (auto simp: tick_envs dest!: arg_cong [of "(_, _)" _ snd] simp flip: length_greater_0_conv)

declare await_exit.simps [simp del]

definition join_handle :: "run \<Rightarrow> nat \<Rightarrow> run" where
  "join_handle r0 i =
     (let r = locked r0
      in if handle_live r i \<and> workers r ! i = Exited then r\<lparr>handles := (handles r)[i := False]\<rparr> else r)"

definition remaining_of :: "run \<Rightarrow> string list" where
  "remaining_of r =
     map (\<lambda>i. decl_actor (declarations r ! i)) (filter (handle_live r) [0..<length (handles r)])"

definition strings_row :: "string list \<Rightarrow> json" where
  "strings_row ss = JArray (map JString ss)"

definition cleanup_name :: "cleanup \<Rightarrow> string" where
  "cleanup_name k = (case k of NotStarted \<Rightarrow> ''not_started'' | Confirmed \<Rightarrow> ''confirmed''
     | Incomplete \<Rightarrow> ''incomplete'' | TeardownFailed \<Rightarrow> ''teardown_failed'')"

text \<open>The state after all threads are joined: teardown, and the report closed.\<close>

definition teardown_result :: "bool \<Rightarrow> callback \<Rightarrow> string option" where
  "teardown_result present result =
     (if \<not> present then None
      else (case result of CallOk _ \<Rightarrow> None | CallErr e \<Rightarrow> Some e | CallPanic \<Rightarrow> Some ''teardown panicked''))"

definition close_run :: "callback \<Rightarrow> run \<Rightarrow> run" where
  "close_run result r =
     (let err = teardown_result (program r) result;
          k = (if \<not> program r then NotStarted else if err = None then Confirmed else TeardownFailed)
      in r\<lparr>closed := True,
           teardowns := (if program r then teardowns r + 1 else teardowns r),
           shared := (shared r)\<lparr>report := (report (shared r))\<lparr>remaining_actors := [], r_cleanup := k,
             cleanup_attempts := cleanup_attempts (report (shared r))
               @ [json_obj [(''cleanup'', JString (cleanup_name k)), (''remainingActors'', JArray []),
                            (''error'', (case err of None \<Rightarrow> JNull | Some e \<Rightarrow> JString e))]]\<rparr>\<rparr>\<rparr>)"

definition cleanup_incomplete :: "run \<Rightarrow> run" where
  "cleanup_incomplete r =
     on_shared (\<lambda>s. s\<lparr>report := (report s)\<lparr>r_cleanup := Incomplete, remaining_actors := remaining_of r,
       cleanup_attempts := cleanup_attempts (report s)
         @ [json_obj [(''cleanup'', JString ''incomplete''),
                      (''remainingActors'', strings_row (remaining_of r))]]\<rparr>\<rparr>) r"

definition begin_cleanup :: "sched \<Rightarrow> sched" where
  "begin_cleanup s =
     (let s' = (if outcome_of s = Completed \<and> \<not> schedule_completed (report s)
                then fail Cancelled (Detail ''cleanup requested before completion'') s else s)
      in s'\<lparr>stopping := True\<rparr>)"

definition cleanup_run :: "caller \<Rightarrow> nat \<Rightarrow> run \<Rightarrow> (string + report) \<times> run" where
  "cleanup_run ctx timeout r0 =
     (if \<not> check_owner ctx r0 then (Inl owner_error, r0)
      else if \<not> budget timeout then (Inl ''invalid cleanup budget'', r0)
      else if closed r0 then (let r = locked r0 in (Inr (report (shared r)), r))
      else
        (let r1 = on_shared begin_cleanup (locked r0);
             r2 = await_exit r1;
             r3 = foldl join_handle r2 [0..<length (handles r2)]
         in if remaining_of r3 \<noteq> [] then
              (let r4 = cleanup_incomplete (locked r3) in (Inr (report (shared r4)), r4))
            else
              (let (b, r4) = tick r3;
                   r5 = close_run (b_teardown b) r4
               in (Inr (report (shared r5)), r5))))"


definition position :: "(actor_state \<Rightarrow> bool) \<Rightarrow> actor_state list \<Rightarrow> nat option" where
  "position P as = (case filter (\<lambda>i. P (as ! i)) [0..<length as] of [] \<Rightarrow> None | i # _ \<Rightarrow> Some i)"

text \<open>
  The locked section that grants an interval: the actor that may run now, if the request is granted.
  \<open>None\<close> of \<open>position\<close> is \<^verbatim>\<open>expect("admitted actor")\<close>, which admission excludes.
\<close>

definition grant :: "codec \<Rightarrow> step \<Rightarrow> run \<Rightarrow> nat option \<times> run" where
  "grant c requested r =
     (let s = shared r
      in if cancelled r then (None, on_shared (fail Cancelled (Detail ''caller cancellation'')) r)
         else if expired r then (None, on_shared (fail TimedOut (Detail ''execution deadline exceeded'')) r)
         else if \<not> (next_step r < length (steps (run_schedule_of r))
                     \<and> steps (run_schedule_of r) ! next_step r = requested) then
           (None, on_shared (fail InvalidSchedule (Detail ''callback differs from admitted interval'')) r)
         else
           (case position (\<lambda>a. decl_actor (declared a) = actor requested) (actors s) of
              None \<Rightarrow> (None, r)
            | Some i \<Rightarrow>
                if phase (actors s ! i) \<noteq> Parked then
                  (None, on_shared (fail UnexpectedCheckpoint (Detail ''actor is not parked'')) r)
                else
                  (let s' = retain_event c ''permit'' (next_step r) i s
                   in if stopping s' then (None, r\<lparr>shared := s'\<rparr>)
                      else (Some i, r\<lparr>shared := set_actor i (\<lambda>a. a\<lparr>phase := Running\<rparr>) s'\<rparr>))))"

text \<open>The locked section after the actor stopped running.\<close>

definition record_arrival :: "codec \<Rightarrow> step \<Rightarrow> nat \<Rightarrow> run \<Rightarrow> run" where
  "record_arrival c requested i r =
     (let s = retain_event c ''arrival'' (next_step r) i (shared r);
          actual = at_checkpoint (actors s ! i)
      in r\<lparr>shared :=
           (if actual \<noteq> checkpoint requested
            then fail UnexpectedCheckpoint
                   (Detail (''expected '' @ checkpoint requested @ '', arrived at '' @ actual)) s
            else s)\<rparr>)"

text \<open>
  \<^verbatim>\<open>handle.join()\<close> on a worker past its last section: it returns once the thread is gone.
\<close>

definition join_worker :: "nat \<Rightarrow> run \<Rightarrow> run" where
  "join_worker i r0 =
     (if handle_live r0 i then
        (let (b, r1) = tick r0;
             r2 = r1\<lparr>handles := (handles r1)[i := False],
                     workers := (if workers r1 ! i = Ended then (workers r1)[i := Exited] else workers r1)\<rparr>
         in if b_join_panics b
            then on_shared (fail ApplicationFailed (Detail ''worker exit panicked'')) r2 else r2)
      else r0)"

text \<open>From the permit to the observation after the interval.\<close>

definition run_interval :: "codec \<Rightarrow> step \<Rightarrow> nat \<Rightarrow> run \<Rightarrow> run" where
  "run_interval c requested i r =
     (case wait_for (\<lambda>s. phase (actors s ! i) \<noteq> Running) r of
        (False, r1) \<Rightarrow> r1
      | (True, r1) \<Rightarrow>
          (let r2 = record_arrival c requested i (locked r1);
               r3 = (if phase (actors (shared r2) ! i) = Finished then join_worker i r2 else r2);
               r4 = locked r3
           in if outcome_of (shared r4) = Completed
              then observe c (r4\<lparr>next_step := next_step r4 + 1\<rparr>) else r4))"

definition advance :: "codec \<Rightarrow> caller \<Rightarrow> step \<Rightarrow> run \<Rightarrow> (string + report) \<times> run" where
  "advance c ctx requested r0 =
     (if \<not> check_owner ctx r0 then (Inl owner_error, r0)
      else if closed r0 then (Inl ''execution already closed'', r0)
      else
        (let r1 = locked r0
         in if outcome_of (shared r1) \<noteq> Completed then (Inr (report (shared r1)), r1)
            else
              (let r2 = (case grant c requested r1 of
                           (None, r) \<Rightarrow> r | (Some i, r) \<Rightarrow> run_interval c requested i r);
                   r3 = locked r2
               in if outcome_of (shared r3) \<noteq> Completed then
                    cleanup_run ctx (cleanup_timeout (run_policy r3)) r3
                  else if next_step r3 = length (steps (run_schedule_of r3)) then
                    (let r4 = on_shared (\<lambda>s. s\<lparr>report := (report s)\<lparr>schedule_completed := True\<rparr>\<rparr>) (locked r3)
                     in cleanup_run ctx (cleanup_timeout (run_policy r4)) r4)
                  else
                    (let r4 = locked r3 in (Inr (report (shared r4)), r4)))))"

definition finish :: "caller \<Rightarrow> run \<Rightarrow> (string + report) \<times> run" where
  "finish ctx r0 =
     (if \<not> check_owner ctx r0 then (Inl owner_error, r0)
      else if closed r0 then (let r = locked r0 in (Inr (report (shared r)), r))
      else
        (let r1 = (if next_step r0 \<noteq> length (steps (run_schedule_of r0))
                   then on_shared (fail InvalidSchedule (Detail ''execution finished before all intervals''))
                          (locked r0)
                   else r0)
         in cleanup_run ctx (cleanup_timeout (run_policy r1)) r1))"

text \<open>
  \<^verbatim>\<open>Drop for Execution\<close>: it joins every remaining thread, which returns when they are gone;
  \<open>None\<close> where a thread never goes.
\<close>

function join_forever :: "run \<Rightarrow> run option" where
  "join_forever r =
     (if all_finished r then Some (r\<lparr>handles := map (\<lambda>_. False) (handles r)\<rparr>)
      else if envs r = [] then None
      else join_forever (locked r))"
  by pat_completeness auto
termination
  by (relation "measure (\<lambda>r. length (envs r))")
    (auto simp: locked_def tick_envs simp flip: length_greater_0_conv)

declare join_forever.simps [simp del]

definition drop_execution :: "run \<Rightarrow> run option" where
  "drop_execution r0 =
     map_option (\<lambda>r. if \<not> closed r \<and> program r then r\<lparr>teardowns := teardowns r + 1\<rparr> else r)
       (join_forever (on_shared (\<lambda>s. s\<lparr>stopping := True\<rparr>) (locked r0)))"

section \<open>Starting\<close>

datatype created = FactoryOk "string list" | FactoryErr string | FactoryPanic

text \<open>
  What starting asks of the application and the operating system: the program the factory makes of
  the inputs (the names of its workers), the error of each spawn that fails, the process-wide
  generation counter and the digest that becomes the execution's name.
\<close>

record start_env =
  factory :: "json \<Rightarrow> created"
  spawn_error :: "nat \<Rightarrow> string option"
  next_generation :: nat
  fresh_id :: string

definition initial_report :: "start_env \<Rightarrow> report" where
  "initial_report e =
     \<lparr>r_outcome = Completed, r_detail = Detail [], schedule_completed = False, r_cleanup = NotStarted,
      remaining_actors = [], generation = next_generation e, execution_id = fresh_id e, events = [],
      observations = [], cleanup_attempts = []\<rparr>"

definition initial_run ::
    "start_env \<Rightarrow> caller \<Rightarrow> schedule \<Rightarrow> adapter \<Rightarrow> policy \<Rightarrow> bool \<Rightarrow> batch list \<Rightarrow> run" where
  "initial_run e ctx sch ad p is_cancelled bs =
     \<lparr>run_schedule_of = sch, declarations = adapter_actors ad, checkpoints = adapter_checkpoints ad,
      shared = \<lparr>actors = [], stopping = False, report = initial_report e, evidence_bytes = 0\<rparr>,
      program = False, handles = [], run_policy = p, cancelled = is_cancelled, expired = False,
      owner = caller_thread ctx, next_step = 0, closed = False, workers = [], envs = bs, teardowns = 0\<rparr>"

definition workers_error :: "string list \<Rightarrow> actor_declaration list \<Rightarrow> sched \<Rightarrow> sched" where
  "workers_error names decls s =
     (let s1 = (if \<not> distinct names then fail ApplicationFailed (Detail ''duplicate worker'') s else s)
      in if card (set names) \<noteq> length decls \<or> list_ex (\<lambda>d. decl_actor d \<notin> set names) decls
         then fail ApplicationFailed (Detail ''factory worker set differs'') s1 else s1)"

definition new_actor :: "actor_declaration \<Rightarrow> actor_state" where
  "new_actor d = \<lparr>declared = d, phase = Starting, at_checkpoint = ''$start'', thread = None\<rparr>"

text \<open>Spawning in order, up to the first failure; a spawned thread may run at once.\<close>

fun spawn_workers :: "start_env \<Rightarrow> nat list \<Rightarrow> run \<Rightarrow> run" where
  "spawn_workers e [] r = r"
| "spawn_workers e (i # is) r0 =
     (let r = locked r0
      in case spawn_error e i of
           None \<Rightarrow>
             spawn_workers e is (r\<lparr>handles := handles r @ [True], workers := (workers r)[i := Spawned]\<rparr>)
         | Some err \<Rightarrow> on_shared (fail ResourceFailed (Detail err)) r)"

definition refuse :: "outcome \<Rightarrow> detail \<Rightarrow> run \<Rightarrow> run" where
  "refuse out d r = (on_shared (fail out d) r)\<lparr>closed := True\<rparr>"

definition start_schedule ::
    "codec \<Rightarrow> start_env \<Rightarrow> caller \<Rightarrow> schedule \<Rightarrow> adapter \<Rightarrow> policy \<Rightarrow> bool \<Rightarrow> batch list \<Rightarrow> run" where
  "start_schedule c e ctx sch ad p is_cancelled bs =
     (let r0 = initial_run e ctx sch ad p is_cancelled bs;
          rejected =
            (if in_callback ctx then Some (InvalidSchedule, Detail ''scheduler callback reentry'')
             else if is_cancelled then Some (Cancelled, Detail ''cancelled before acquisition'')
             else (case admit c sch ad p of Inl err \<Rightarrow> Some err | Inr _ \<Rightarrow> None))
      in case rejected of
           Some (out, d) \<Rightarrow> refuse out d r0
         | None \<Rightarrow>
             (case factory e (inputs sch) of
                FactoryErr err \<Rightarrow> refuse ApplicationFailed (Detail err) r0
              | FactoryPanic \<Rightarrow> refuse ApplicationFailed (Detail ''factory panicked'') r0
              | FactoryOk names \<Rightarrow>
                  (let r1 = on_shared (workers_error names (adapter_actors ad)) (r0\<lparr>program := True\<rparr>)
                   in if outcome_of (shared r1) \<noteq> Completed then
                        snd (cleanup_run ctx (cleanup_timeout p) r1)
                      else
                        (let r2 = r1\<lparr>shared := (shared r1)\<lparr>actors := map new_actor (adapter_actors ad)\<rparr>,
                                     workers := map (\<lambda>_. Unspawned) (adapter_actors ad)\<rparr>;
                             r3 = spawn_workers e [0..<length (adapter_actors ad)] r2;
                             r4 = (case wait_for (\<lambda>s. list_all (\<lambda>a. phase a = Parked) (actors s)) r3 of
                                     (True, r) \<Rightarrow> observe c r | (False, r) \<Rightarrow> r);
                             r5 = locked r4
                         in if outcome_of (shared r5) \<noteq> Completed
                            then snd (cleanup_run ctx (cleanup_timeout p) r5) else r5))))"

fun advance_all :: "codec \<Rightarrow> caller \<Rightarrow> step list \<Rightarrow> run \<Rightarrow> run" where
  "advance_all c ctx [] r = r"
| "advance_all c ctx (s # ss) r0 =
     (let r = locked r0
      in if outcome_of (shared r) \<noteq> Completed \<or> closed r then r
         else advance_all c ctx ss (snd (advance c ctx s r)))"

definition run_schedule ::
    "codec \<Rightarrow> start_env \<Rightarrow> caller \<Rightarrow> schedule \<Rightarrow> adapter \<Rightarrow> policy \<Rightarrow> bool \<Rightarrow> batch list \<Rightarrow> run" where
  "run_schedule c e ctx sch ad p is_cancelled bs =
     (let r = start_schedule c e ctx sch ad p is_cancelled bs
      in advance_all c ctx (steps (run_schedule_of r)) r)"

end
