(* ===== verification/Schedule_Exclusion.thy ===== *)
theory Schedule_Exclusion
  imports Schedule_Run
begin

text \<open>
  The safety of the execution of \<open>Schedule_Run\<close>: the invariant of the state under the lock
  and the threads around it, the interleaving of workers and controller as a transition relation, and
  what the workers can do to an execution that has not failed.
\<close>

section \<open>Mutual exclusion\<close>

text \<open>
  The invariant of the state under the lock and the threads around it: every thread is where its
  actor's phase says, at most one actor is running, and a failed execution is stopping.
\<close>

definition pc_fits :: "bool \<Rightarrow> phase \<Rightarrow> worker_pc \<Rightarrow> bool" where
  "pc_fits st ph pc \<longleftrightarrow>
     (case pc of
        Unspawned \<Rightarrow> ph = Starting
      | Spawned \<Rightarrow> ph = Starting
      | WaitStart \<Rightarrow> ph = Parked \<or> ph = Running
      | WaitArrive \<Rightarrow> ph = Parked \<or> ph = Running
      | InUser \<Rightarrow> ph = Running \<or> st \<and> ph = Parked
      | Ending _ \<Rightarrow> ph = Running \<or> st \<and> ph = Parked
      | Ended \<Rightarrow> ph = Finished
      | Exited \<Rightarrow> ph = Finished)"

definition one_running :: "sched \<Rightarrow> bool" where
  "one_running s \<longleftrightarrow>
     (\<forall>i < length (actors s). \<forall>j < length (actors s).
        phase (actors s ! i) = Running \<longrightarrow> phase (actors s ! j) = Running \<longrightarrow> i = j)"

definition sched_ok :: "sched \<times> worker_pc list \<Rightarrow> bool" where
  "sched_ok x \<longleftrightarrow>
     (case x of (s, ws) \<Rightarrow>
        length ws = length (actors s)
        \<and> (\<forall>i < length ws. pc_fits (stopping s) (phase (actors s ! i)) (ws ! i))
        \<and> one_running s
        \<and> (outcome_of s \<noteq> Completed \<longrightarrow> stopping s))"

lemma fail_simps [simp]:
  "actors (fail out d s) = actors s" "stopping (fail out d s)"
  "evidence_bytes (fail out d s) = evidence_bytes s"
  "events (report (fail out d s)) = events (report s)"
  "observations (report (fail out d s)) = observations (report s)"
  "schedule_completed (report (fail out d s)) = schedule_completed (report s)"
  "r_cleanup (report (fail out d s)) = r_cleanup (report s)"
  "remaining_actors (report (fail out d s)) = remaining_actors (report s)"
  by (simp_all add: fail_def)

lemma fail_outcome: "out \<noteq> Completed \<Longrightarrow> outcome_of (fail out d s) \<noteq> Completed"
  by (simp add: fail_def)

lemma fail_sticky: "outcome_of s \<noteq> Completed \<Longrightarrow> report (fail out d s) = report s"
  by (simp add: fail_def)

lemma set_actor_simps [simp]:
  "length (actors (set_actor i f s)) = length (actors s)"
  "stopping (set_actor i f s) = stopping s" "report (set_actor i f s) = report s"
  "evidence_bytes (set_actor i f s) = evidence_bytes s"
  by (simp_all add: set_actor_def)

lemma set_actor_nth:
  "i < length (actors s) \<Longrightarrow>
     actors (set_actor i f s) ! j = (if i = j then f (actors s ! i) else actors s ! j)"
  by (simp add: set_actor_def nth_list_update)

lemma pc_fits_stop: "pc_fits st ph pc \<Longrightarrow> pc_fits True ph pc"
  by (auto simp: pc_fits_def split: worker_pc.splits)

lemma sched_ok_fail: "sched_ok (s, ws) \<Longrightarrow> sched_ok (fail out d s, ws)"
  by (auto simp: sched_ok_def one_running_def intro: pc_fits_stop)

text \<open>Changing one actor and its thread together keeps the invariant if the pair still fits.\<close>

lemma sched_ok_update:
  assumes ok: "sched_ok (s, ws)" and i: "i < length ws"
    and fits: "pc_fits (stopping s) (phase (f (actors s ! i))) pc"
    and run: "phase (f (actors s ! i)) = Running \<Longrightarrow>
      phase (actors s ! i) = Running \<or> (\<forall>j < length (actors s). phase (actors s ! j) \<noteq> Running)"
  shows "sched_ok (set_actor i f s, ws[i := pc])"
proof -
  have len: "length ws = length (actors s)" using ok by (simp add: sched_ok_def)
  have "one_running (set_actor i f s)"
    using ok run i len unfolding one_running_def sched_ok_def
    by (simp add: set_actor_nth) metis
  then show ?thesis
    using ok fits i len by (auto simp: sched_ok_def set_actor_nth nth_list_update)
qed

lemma sched_ok_pc:
  assumes "sched_ok (s, ws)" and "i < length ws \<Longrightarrow> pc_fits (stopping s) (phase (actors s ! i)) pc"
  shows "sched_ok (s, ws[i := pc])"
proof -
  have "pc_fits (stopping s) (phase (actors s ! j)) (ws[i := pc] ! j)" if "j < length ws" for j
    using assms that by (cases "i = j") (auto simp: sched_ok_def)
  then show ?thesis using assms(1) by (auto simp: sched_ok_def)
qed

lemma sched_ok_fits:
  "sched_ok (s, ws) \<Longrightarrow> i < length ws \<Longrightarrow> pc_fits (stopping s) (phase (actors s ! i)) (ws ! i)"
  by (simp add: sched_ok_def)

lemma finish_worker_ok:
  assumes "sched_ok (s, ws)" and "i < length ws"
  shows "sched_ok (finish_worker i result s, ws[i := Ended])"
proof -
  have "sched_ok (set_actor i (\<lambda>a. a\<lparr>phase := Finished, at_checkpoint := completion\<rparr>) s', ws[i := Ended])"
    if "sched_ok (s', ws)" for s'
    using that assms(2) by (rule sched_ok_update) (simp_all add: pc_fits_def)
  then show ?thesis
    using assms(1) sched_ok_fail unfolding finish_worker_def Let_def
    by (auto split: callback.split)
qed

lemma arrive_ok:
  assumes ok: "sched_ok (s, ws)" and i: "i < length ws" and a: "arrive cps i t cp s = (r, s')"
  shows "case r of Inl _ \<Rightarrow> sched_ok (s', ws) | Inr _ \<Rightarrow> sched_ok (s', ws[i := WaitArrive])"
proof (cases r)
  case (Inl e)
  then show ?thesis using a ok sched_ok_fail by (auto simp: arrive_def split: if_splits)
next
  case (Inr u)
  then have "s' = set_actor i (\<lambda>a. a\<lparr>at_checkpoint := cp, phase := Parked\<rparr>) s"
    using a by (auto simp: arrive_def split: if_splits)
  then show ?thesis
    using Inr sched_ok_update [OF ok i, of "\<lambda>a. a\<lparr>at_checkpoint := cp, phase := Parked\<rparr>" WaitArrive]
    by (simp add: pc_fits_def)
qed

lemma worker_step_ok:
  assumes ok: "sched_ok (s, ws)" and i: "i < length ws"
  shows "sched_ok (worker_step cps i e (s, ws))"
proof -
  note fits = sched_ok_fits [OF ok i]
  show ?thesis
  proof (cases e)
    case (WStart t)
    then show ?thesis
      using ok sched_ok_update [OF ok i, of "\<lambda>a. a\<lparr>thread := Some t, phase := Parked\<rparr>" WaitStart]
      by (simp add: pc_fits_def)
  next
    case WWake
    then show ?thesis
      using ok fits
      by (auto intro!: sched_ok_pc simp: pc_fits_def)
  next
    case (WArrive t cp)
    obtain r s' where a: "arrive cps i t cp s = (r, s')" by fastforce
    show ?thesis using arrive_ok [OF ok i a] ok WArrive a by (auto split: sum.splits)
  next
    case (WReturn result)
    then show ?thesis using ok fits by (auto intro!: sched_ok_pc simp: pc_fits_def)
  next
    case WEnd
    then show ?thesis using ok finish_worker_ok [OF ok i] by (auto split: worker_pc.split)
  next
    case WExit
    then show ?thesis using ok fits by (auto intro!: sched_ok_pc simp: pc_fits_def)
  qed
qed


section \<open>What workers can do to a healthy state\<close>

text \<open>
  As long as nothing fails, the workers leave the report alone, and an actor only changes by getting
  ready, or by reaching a checkpoint or its end while it is the one that runs.
\<close>

definition actor_evolves :: "actor_state \<Rightarrow> actor_state \<Rightarrow> bool" where
  "actor_evolves a a' \<longleftrightarrow>
     declared a' = declared a
     \<and> (if phase a = Running
        then phase a' \<noteq> Starting \<and> (phase a' = Finished \<longrightarrow> at_checkpoint a' = completion)
        else at_checkpoint a' = at_checkpoint a
             \<and> (phase a' = phase a \<or> phase a = Starting \<and> phase a' = Parked))"

definition evolves :: "sched \<Rightarrow> sched \<Rightarrow> bool" where
  "evolves s s' \<longleftrightarrow>
     (\<not> stopping s' \<longrightarrow>
        \<not> stopping s \<and> report s' = report s \<and> evidence_bytes s' = evidence_bytes s
        \<and> list_all2 actor_evolves (actors s) (actors s'))
     \<and> (outcome_of s' = Completed \<longrightarrow> report s' = report s \<and> stopping s' = stopping s)"

lemma actor_evolves_refl [simp]: "actor_evolves a a"
  by (simp add: actor_evolves_def)


lemma actor_evolves_trans: "actor_evolves a b \<Longrightarrow> actor_evolves b d \<Longrightarrow> actor_evolves a d"
  by (auto simp: actor_evolves_def split: if_splits)

lemma evolves_refl [simp]: "evolves s s"
  by (simp add: evolves_def list_all2_refl)

lemma evolves_healthy:
  "evolves s t \<Longrightarrow> \<not> stopping t \<Longrightarrow>
     \<not> stopping s \<and> report t = report s \<and> evidence_bytes t = evidence_bytes s
     \<and> list_all2 actor_evolves (actors s) (actors t)"
  unfolding evolves_def by blast

lemma evolves_completed:
  "evolves s t \<Longrightarrow> outcome_of t = Completed \<Longrightarrow> report t = report s \<and> stopping t = stopping s"
  unfolding evolves_def by blast

lemma evolves_trans:
  assumes st: "evolves s t" and tu: "evolves t u"
  shows "evolves s u"
  unfolding evolves_def
proof (intro conjI impI)
  assume "\<not> stopping u"
  note u = evolves_healthy [OF tu this]
  note t = evolves_healthy [OF st conjunct1 [OF u]]
  show "\<not> stopping s" "report u = report s" "evidence_bytes u = evidence_bytes s" using t u by simp_all
  show "list_all2 actor_evolves (actors s) (actors u)"
    using list_all2_trans [of actor_evolves actor_evolves actor_evolves] actor_evolves_trans t u by blast
next
  assume "outcome_of u = Completed"
  note u = evolves_completed [OF tu this]
  then have "outcome_of t = Completed" using \<open>outcome_of u = Completed\<close> by simp
  note t = evolves_completed [OF st this]
  show "report u = report s" "stopping u = stopping s" using t u by simp_all
qed

lemma evolves_fail: "out \<noteq> Completed \<Longrightarrow> evolves s (fail out d t)"
  by (simp add: evolves_def fail_def)

lemma evolves_set_actor:
  assumes "i < length (actors s)" and "\<not> stopping s \<Longrightarrow> actor_evolves (actors s ! i) (f (actors s ! i))"
  shows "evolves s (set_actor i f s)"
  using assms by (auto simp: evolves_def list_all2_conv_all_nth set_actor_nth)

lemma worker_step_evolves:
  assumes ok: "sched_ok (s, ws)" and i: "i < length ws"
  shows "evolves s (fst (worker_step cps i e (s, ws)))"
proof -
  note fits = sched_ok_fits [OF ok i]
  have len: "i < length (actors s)" using ok i by (simp add: sched_ok_def)
  show ?thesis
  proof (cases e)
    case (WStart t)
    then show ?thesis
      using fits by (auto intro!: evolves_set_actor len simp: actor_evolves_def pc_fits_def)
  next
    case (WArrive t cp)
    have "evolves s (snd (arrive cps i t cp s))"
      by (auto simp: arrive_def evolves_fail actor_evolves_def intro!: evolves_set_actor len)
    then show ?thesis using WArrive by (auto split: prod.split sum.split)
  next
    case WEnd
    have "evolves s (finish_worker i result s)" if "ws ! i = Ending result" for result
    proof -
      let ?f = "\<lambda>a. a\<lparr>phase := Finished, at_checkpoint := completion\<rparr>"
      have run: "\<not> stopping s \<Longrightarrow> phase (actors s ! i) = Running"
        using fits that by (auto simp: pc_fits_def)
      then have "evolves s (set_actor i ?f s)"
        by (intro evolves_set_actor len) (simp add: actor_evolves_def)
      moreover have "evolves s (set_actor i ?f (fail ApplicationFailed d s))" for d
        by (simp add: evolves_def fail_def)
      ultimately show ?thesis by (auto simp: finish_worker_def Let_def split: callback.split)
    qed
    then show ?thesis using WEnd by (auto split: worker_pc.split)
  qed auto
qed

lemma worker_events_ok:
  "sched_ok x \<Longrightarrow> sched_ok (worker_events cps es x) \<and> evolves (fst x) (fst (worker_events cps es x))"
proof (induction cps es x rule: worker_events.induct)
  case (2 cps i e es x)
  obtain s ws where x: "x = (s, ws)" by fastforce
  let ?y = "if i < length (snd x) then worker_step cps i e x else x"
  have "sched_ok ?y \<and> evolves (fst x) (fst ?y)"
    using 2(2) worker_step_ok worker_step_evolves unfolding x by auto
  then show ?case using 2(1) evolves_trans by auto
qed simp

section \<open>The steps of an execution\<close>

text \<open>
  The execution as an interleaving: a step of a worker, or of the controller, which spawns, grants an
  interval when nobody runs, joins a thread that is past its last section, fails, stops, or writes
  to the report.
\<close>

definition nobody_runs :: "sched \<Rightarrow> bool" where
  "nobody_runs s \<longleftrightarrow> (\<forall>a \<in> set (actors s). phase a \<noteq> Running)"

inductive sched_step :: "string list \<Rightarrow> sched \<times> worker_pc list \<Rightarrow> sched \<times> worker_pc list \<Rightarrow> bool"
  for cps :: "string list" where
  Work: "i < length ws \<Longrightarrow> sched_step cps (s, ws) (worker_step cps i e (s, ws))"
| Spawn: "ws ! i = Unspawned \<Longrightarrow> sched_step cps (s, ws) (s, ws[i := Spawned])"
| Permit: "i < length (actors s) \<Longrightarrow> phase (actors s ! i) = Parked \<Longrightarrow> nobody_runs s \<Longrightarrow>
    sched_step cps (s, ws) (set_actor i (\<lambda>a. a\<lparr>phase := Running\<rparr>) s, ws)"
| Join: "ws ! i = Ended \<Longrightarrow> sched_step cps (s, ws) (s, ws[i := Exited])"
| Fail: "out \<noteq> Completed \<Longrightarrow> sched_step cps (s, ws) (fail out d s, ws)"
| Stop: "sched_step cps (s, ws) (s\<lparr>stopping := True\<rparr>, ws)"
| Write: "actors s' = actors s \<Longrightarrow> stopping s' = stopping s \<Longrightarrow> outcome_of s' = outcome_of s \<Longrightarrow>
    sched_step cps (s, ws) (s', ws)"

inductive_cases sched_stepE: "sched_step cps (s, ws) x"

inductive reachable :: "string list \<Rightarrow> sched \<times> worker_pc list \<Rightarrow> bool" for cps :: "string list" where
  init: "actors s = map new_actor ds \<Longrightarrow> (outcome_of s \<noteq> Completed \<Longrightarrow> stopping s) \<Longrightarrow>
    reachable cps (s, map (\<lambda>_. Unspawned) ds)"
| step: "reachable cps x \<Longrightarrow> sched_step cps x y \<Longrightarrow> reachable cps y"

text \<open>Each kind of step keeps the invariant.\<close>

lemma permit_ok:
  assumes ok: "sched_ok (s, ws)" and i: "i < length (actors s)" "phase (actors s ! i) = Parked"
    and nobody: "nobody_runs s"
  shows "sched_ok (set_actor i (\<lambda>a. a\<lparr>phase := Running\<rparr>) s, ws)"
proof -
  have len: "i < length ws" using ok i by (simp add: sched_ok_def)
  have "pc_fits (stopping s) Running (ws ! i)"
    using sched_ok_fits [OF ok len] i by (auto simp: pc_fits_def split: worker_pc.splits)
  moreover have "\<forall>j < length (actors s). phase (actors s ! j) \<noteq> Running"
    using nobody by (simp add: nobody_runs_def)
  ultimately show ?thesis
    using sched_ok_update [OF ok len, of "\<lambda>a. a\<lparr>phase := Running\<rparr>" "ws ! i"] by simp
qed

lemma respawn_ok:
  assumes ok: "sched_ok (s, ws)" and pc: "ws ! i = Unspawned \<and> pc' = Spawned \<or> ws ! i = Ended \<and> pc' = Exited"
  shows "sched_ok (s, ws[i := pc'])"
proof (rule sched_ok_pc [OF ok])
  assume "i < length ws"
  from sched_ok_fits [OF ok this] show "pc_fits (stopping s) (phase (actors s ! i)) pc'"
    using pc by (auto simp: pc_fits_def)
qed

lemma stop_ok: "sched_ok (s, ws) \<Longrightarrow> sched_ok (s\<lparr>stopping := True\<rparr>, ws)"
  by (auto simp: sched_ok_def one_running_def intro: pc_fits_stop)

lemma write_ok:
  "sched_ok (s, ws) \<Longrightarrow> actors s' = actors s \<Longrightarrow> stopping s' = stopping s \<Longrightarrow>
     outcome_of s' = outcome_of s \<Longrightarrow> sched_ok (s', ws)"
  by (auto simp: sched_ok_def one_running_def)

lemmas step_ok_rules = worker_step_ok permit_ok respawn_ok stop_ok write_ok sched_ok_fail

lemma sched_step_ok: "sched_step cps (s, ws) y \<Longrightarrow> sched_ok (s, ws) \<Longrightarrow> sched_ok y"
  by (erule sched_stepE) (auto intro: step_ok_rules)

lemma reachable_ok: "reachable cps x \<Longrightarrow> sched_ok x"
proof (induction rule: reachable.induct)
  case (init s ds)
  then show ?case by (auto simp: sched_ok_def one_running_def pc_fits_def new_actor_def)
next
  case (step x y)
  then show ?case using sched_step_ok by (cases x) blast
qed

lemma reachable_steps: "(sched_step cps)\<^sup>*\<^sup>* x y \<Longrightarrow> reachable cps x \<Longrightarrow> reachable cps y"
  by (induction rule: rtranclp_induct) (auto intro: reachable.step)

lemma worker_events_steps: "(sched_step cps)\<^sup>*\<^sup>* x (worker_events cps es x)"
proof (induction cps es x rule: worker_events.induct)
  case (2 cps i e es x)
  show ?case
  proof (cases "i < length (snd x)")
    case True
    then have "sched_step cps x (worker_step cps i e x)" by (cases x) (simp add: sched_step.Work)
    then show ?thesis using 2 True by (auto intro: converse_rtranclp_into_rtranclp)
  qed (use 2 in simp)
qed simp

end
