(* ===== verification/Schedule_Track.thy ===== *)
theory Schedule_Track
  imports Schedule_Exclusion
begin

text \<open>
  What the controller of an execution achieves: every operation is a path of \<open>sched_step\<close>, and
  an execution that has not failed has retained exactly the events its schedule prescribes.
\<close>

section \<open>What each operation leaves alone\<close>

abbreviation cfg :: "run \<Rightarrow> sched \<times> worker_pc list" where
  "cfg r \<equiv> (shared r, workers r)"

text \<open>The fields fixed at the start of an execution.\<close>

definition fixed :: "run \<Rightarrow> schedule \<times> actor_declaration list \<times> string list \<times> policy \<times> nat" where
  "fixed r = (run_schedule_of r, declarations r, checkpoints r, run_policy r, owner r)"

text \<open>The fields only the controller writes.\<close>

definition control :: "run \<Rightarrow> bool \<times> bool list \<times> nat \<times> bool \<times> nat" where
  "control r = (program r, handles r, next_step r, closed r, teardowns r)"

lemma fixed_iff:
  "fixed r' = fixed r \<longleftrightarrow>
     run_schedule_of r' = run_schedule_of r \<and> declarations r' = declarations r
     \<and> checkpoints r' = checkpoints r \<and> run_policy r' = run_policy r \<and> owner r' = owner r"
  by (auto simp: fixed_def)

lemma control_iff:
  "control r' = control r \<longleftrightarrow>
     program r' = program r \<and> handles r' = handles r \<and> next_step r' = next_step r
     \<and> closed r' = closed r \<and> teardowns r' = teardowns r"
  by (auto simp: control_def)

lemma snd_tick: "snd (tick r) = locked r"
  by (simp add: locked_def)

lemma tick_cases: obtains b where "tick r = (b, locked r)"
  by (cases "tick r") (simp add: locked_def)

lemma locked_frame [frame_simps]: "fixed (locked r) = fixed r" "control (locked r) = control r"
  by (simp_all add: locked_def tick_def Let_def fixed_def control_def)

lemma on_shared_frame [frame_simps]:
  "fixed (on_shared f r) = fixed r" "control (on_shared f r) = control r"
  by (simp_all add: on_shared_def fixed_def control_def)

lemma on_shared_simps [simp]:
  "shared (on_shared f r) = f (shared r)" "workers (on_shared f r) = workers r"
  by (simp_all add: on_shared_def)

lemmas frame_fields =
  fixed_iff [THEN iffD1, THEN conjunct1] fixed_iff [THEN iffD1, THEN conjunct2, THEN conjunct1]
  fixed_iff [THEN iffD1, THEN conjunct2, THEN conjunct2, THEN conjunct1]

lemma locked_fields [simp]:
  "run_schedule_of (locked r) = run_schedule_of r" "declarations (locked r) = declarations r"
  "checkpoints (locked r) = checkpoints r" "run_policy (locked r) = run_policy r"
  "owner (locked r) = owner r" "program (locked r) = program r" "handles (locked r) = handles r"
  "next_step (locked r) = next_step r" "closed (locked r) = closed r"
  "teardowns (locked r) = teardowns r"
  using locked_frame [of r] by (simp_all only: fixed_iff control_iff)

lemma on_shared_fields [simp]:
  "run_schedule_of (on_shared f r) = run_schedule_of r" "declarations (on_shared f r) = declarations r"
  "checkpoints (on_shared f r) = checkpoints r" "run_policy (on_shared f r) = run_policy r"
  "owner (on_shared f r) = owner r" "program (on_shared f r) = program r"
  "handles (on_shared f r) = handles r" "next_step (on_shared f r) = next_step r"
  "closed (on_shared f r) = closed r" "teardowns (on_shared f r) = teardowns r"
  using on_shared_frame [of f r] by (simp_all only: fixed_iff control_iff)

lemma locked_cfg: "cfg (locked r) = worker_events (checkpoints r) (b_events (fst (tick r))) (cfg r)"
  by (simp add: locked_def tick_def Let_def)

lemma locked_evolves: "sched_ok (cfg r) \<Longrightarrow> sched_ok (cfg (locked r)) \<and> evolves (shared r) (shared (locked r))"
proof -
  assume "sched_ok (cfg r)"
  from worker_events_ok [OF this, of "checkpoints r" "b_events (fst (tick r))"] show ?thesis
    unfolding locked_cfg [of r, symmetric] by simp
qed

section \<open>Every operation is a path of steps\<close>

definition path :: "run \<Rightarrow> run \<Rightarrow> bool" where
  "path r r' \<longleftrightarrow> fixed r' = fixed r \<and> (sched_step (checkpoints r))\<^sup>*\<^sup>* (cfg r) (cfg r')"

lemma path_refl [simp, intro]: "path r r"
  by (simp add: path_def)

lemma path_trans [trans]: "path r s \<Longrightarrow> path s t \<Longrightarrow> path r t"
  by (auto simp: path_def fixed_iff intro: rtranclp_trans)

lemma path_locked: "path r (locked r)"
  unfolding path_def locked_cfg by (simp add: frame_simps worker_events_steps)

lemma path_fail: "out \<noteq> Completed \<Longrightarrow> path r (on_shared (fail out d) r)"
  by (auto simp: path_def frame_simps intro: sched_step.Fail)

lemma path_write:
  assumes "fixed r' = fixed r" and "workers r' = workers r" and "actors (shared r') = actors (shared r)"
    and "stopping (shared r') = stopping (shared r)" and "outcome_of (shared r') = outcome_of (shared r)"
  shows "path r r'"
proof -
  have "sched_step (checkpoints r) (cfg r) (cfg r')"
    unfolding assms(2) by (rule sched_step.Write) (use assms in auto)
  then show ?thesis using assms(1) by (auto simp: path_def)
qed

lemma path_same: "fixed r' = fixed r \<Longrightarrow> cfg r' = cfg r \<Longrightarrow> path r r'"
  by (simp add: path_def)

lemmas path_basic = path_refl path_locked path_fail

lemma path_wait_for: "path r (snd (wait_for P r))"
proof (induction P r rule: wait_for.induct)
  case (1 P r0)
  have l: "path r0 (locked r0)" by (rule path_locked)
  show ?case
    using 1 l path_trans [OF l] path_fail [of _ "locked r0"]
    by (subst wait_for.simps) (auto simp: Let_def)
qed

lemma path_observe_result:
  "path r (on_shared (observe_result c n result) r)"
proof (cases "\<exists>out d. out \<noteq> Completed \<and> observe_result c n result (shared r) = fail out d (shared r)")
  case True
  then obtain out d where "out \<noteq> Completed" "observe_result c n result (shared r) = fail out d (shared r)"
    by blast
  then show ?thesis using path_fail [of out r d] by (simp add: on_shared_def)
next
  case False
  then show ?thesis
    by (intro path_write)
      (auto simp: observe_result_def frame_simps Let_def split: callback.splits if_splits)
qed

lemma path_observe: "path r (observe c r)"
proof -
  have l: "path r (locked r)" by (rule path_locked)
  obtain b where "tick r = (b, locked r)" by (rule tick_cases)
  then show ?thesis
    unfolding observe_def Let_def
    using l path_trans [OF l] path_fail [of _ "locked r"] path_observe_result [of "locked r"]
    by auto
qed

lemma path_retain_event: "path r (on_shared (retain_event c kind n i) r)"
proof (cases "evidence_bytes (shared r)
    + length (c_render c (event_row (length (events (report (shared r)))) kind n
        (declared (actors (shared r) ! i)) (at_checkpoint (actors (shared r) ! i)))) > evidence_limit")
  case True
  let ?w = "on_shared (\<lambda>s. s\<lparr>evidence_bytes := evidence_bytes s
    + length (c_render c (event_row (length (events (report s))) kind n
        (declared (actors s ! i)) (at_checkpoint (actors s ! i))))\<rparr>) r"
  have "path r ?w" by (rule path_write) (simp_all add: frame_simps)
  also have "path ?w (on_shared (fail ResourceFailed (Detail ''execution evidence exceeds bound'')) ?w)"
    by (rule path_fail) simp
  finally show ?thesis using True by (simp add: retain_event_def on_shared_def Let_def)
next
  case False
  then show ?thesis by (intro path_write) (auto simp: retain_event_def frame_simps Let_def)
qed

lemma path_record_arrival: "path r (record_arrival c st i r)"
proof -
  have "path r (on_shared (retain_event c ''arrival'' (next_step r) i) r)" (is "path r ?r") by (rule path_retain_event)
  then show ?thesis
    using path_trans [of r ?r] path_fail [of UnexpectedCheckpoint ?r]
    by (auto simp: record_arrival_def Let_def on_shared_def)
qed

lemma path_join_worker: "path r (join_worker i r)"
proof (cases "handle_live r i")
  case True
  let ?l = "locked r"
  let ?j = "?l\<lparr>handles := (handles ?l)[i := False],
    workers := if workers ?l ! i = Ended then (workers ?l)[i := Exited] else workers ?l\<rparr>"
  have j: "path ?l ?j"
    using sched_step.Join [of "workers ?l" i "checkpoints ?l" "shared ?l"] by (auto simp: path_def fixed_def)
  have "path r ?j" using path_locked j by (rule path_trans)
  moreover obtain b where "tick r = (b, locked r)" by (rule tick_cases)
  ultimately show ?thesis
    using path_trans [of r ?j] path_fail [of ApplicationFailed ?j] True
    by (auto simp: join_worker_def Let_def)
qed (simp add: join_worker_def)


section \<open>The evidence a schedule prescribes\<close>

text \<open>
  After \<open>n\<close> intervals: a permit and an arrival for each, the permit at the checkpoint where the
  actor's previous interval ended, and an observation before the first and after every interval.
\<close>

definition last_checkpoint :: "step list \<Rightarrow> string \<Rightarrow> string" where
  "last_checkpoint ss a =
     (case rev (filter (\<lambda>s. actor s = a) ss) of [] \<Rightarrow> ''$start'' | s # _ \<Rightarrow> checkpoint s)"

definition declaration_of :: "actor_declaration list \<Rightarrow> string \<Rightarrow> actor_declaration" where
  "declaration_of ds a =
     (case filter (\<lambda>d. decl_actor d = a) ds of
        d # _ \<Rightarrow> d | [] \<Rightarrow> \<lparr>decl_actor = a, operation = []\<rparr>)"

definition permit_row :: "actor_declaration list \<Rightarrow> step list \<Rightarrow> nat \<Rightarrow> json" where
  "permit_row ds ss n =
     event_row (2 * n) ''permit'' n (declaration_of ds (actor (ss ! n)))
       (last_checkpoint (take n ss) (actor (ss ! n)))"

definition arrival_row :: "actor_declaration list \<Rightarrow> step list \<Rightarrow> nat \<Rightarrow> json" where
  "arrival_row ds ss n =
     event_row (2 * n + 1) ''arrival'' n (declaration_of ds (actor (ss ! n))) (checkpoint (ss ! n))"

fun expected_events :: "actor_declaration list \<Rightarrow> step list \<Rightarrow> nat \<Rightarrow> json list" where
  "expected_events ds ss 0 = []"
| "expected_events ds ss (Suc n) = expected_events ds ss n @ [permit_row ds ss n, arrival_row ds ss n]"

definition observed_after :: "json list \<Rightarrow> json list" where
  "observed_after os = map (\<lambda>j. jfield j ''afterSteps'') os"

lemma expected_events_length [simp]: "length (expected_events ds ss n) = 2 * n"
  by (induction n) auto

lemma last_checkpoint_take:
  "n < length ss \<Longrightarrow> last_checkpoint (take (Suc n) ss) a =
     (if actor (ss ! n) = a then checkpoint (ss ! n) else last_checkpoint (take n ss) a)"
  by (simp add: last_checkpoint_def take_Suc_conv_app_nth)

lemma declaration_of_member:
  "distinct (map decl_actor ds) \<Longrightarrow> d \<in> set ds \<Longrightarrow> declaration_of ds (decl_actor d) = d"
proof -
  assume ds: "distinct (map decl_actor ds)" "d \<in> set ds"
  have "x = d" if "x \<in> set (filter (\<lambda>x. decl_actor x = decl_actor d) ds)" for x
    using ds that by (auto simp: distinct_map dest: inj_onD)
  moreover have "filter (\<lambda>x. decl_actor x = decl_actor d) ds \<noteq> []" using ds(2) by (auto simp: filter_empty_conv)
  then obtain x xs where xs: "filter (\<lambda>x. decl_actor x = decl_actor d) ds = x # xs"
    by (cases "filter (\<lambda>x. decl_actor x = decl_actor d) ds") auto
  ultimately have "x = d" by (metis list.set_intros(1))
  then show ?thesis using xs by (simp add: declaration_of_def)
qed

section \<open>An execution on track\<close>

definition actor_at :: "step list \<Rightarrow> actor_state \<Rightarrow> bool" where
  "actor_at ss a \<longleftrightarrow>
     (phase a = Parked \<or> phase a = Finished)
     \<and> at_checkpoint a = last_checkpoint ss (decl_actor (declared a))"

text \<open>
  \<open>tracked n k r\<close>: unless the execution has failed, its events are those of \<open>n\<close> intervals,
  it has \<open>k\<close> observations, and, unless it is stopping, every actor is where its last interval
  left it.
\<close>

definition placed :: "actor_declaration list \<Rightarrow> step list \<Rightarrow> actor_state list \<Rightarrow> bool" where
  "placed ds ss as \<longleftrightarrow> map declared as = ds \<and> (\<forall>a \<in> set as. actor_at ss a)"

definition logged :: "actor_declaration list \<Rightarrow> step list \<Rightarrow> nat \<Rightarrow> nat \<Rightarrow> report \<Rightarrow> bool" where
  "logged ds ss n k rep \<longleftrightarrow>
     distinct (map decl_actor ds) \<and> n \<le> length ss
     \<and> events rep = expected_events ds ss n
     \<and> observed_after (observations rep) = map json_nat [0..<k]
     \<and> (schedule_completed rep \<longrightarrow> n = length ss)"

definition tracked :: "nat \<Rightarrow> nat \<Rightarrow> run \<Rightarrow> bool" where
  "tracked n k r \<longleftrightarrow>
     (let s = shared r; ss = steps (run_schedule_of r); ds = declarations r in
      outcome_of s = Completed \<longrightarrow>
        logged ds ss n k (report s)
        \<and> (if stopping s then schedule_completed (report s) else placed ds (take n ss) (actors s)))"

definition on_track :: "run \<Rightarrow> bool" where
  "on_track r \<longleftrightarrow> reachable (checkpoints r) (cfg r) \<and> tracked (next_step r) (Suc (next_step r)) r"

lemma tracked_failed: "outcome_of (shared r) \<noteq> Completed \<Longrightarrow> tracked n k r"
  by (simp add: tracked_def Let_def)

lemma actor_evolves_at: "actor_evolves a a' \<Longrightarrow> actor_at ss a \<Longrightarrow> actor_at ss a' \<and> declared a' = declared a"
  by (auto simp: actor_evolves_def actor_at_def split: if_splits)

lemma placed_evolves:
  assumes "list_all2 actor_evolves as bs" and "placed ds ss as"
  shows "placed ds ss bs"
proof -
  have "list_all2 (\<lambda>a b. actor_at ss a \<longrightarrow> actor_at ss b \<and> declared b = declared a) as bs"
    using assms(1) by (rule list_all2_mono) (use actor_evolves_at in blast)
  then have "map declared bs = map declared as" "\<forall>b \<in> set bs. actor_at ss b"
    using assms(2) by (auto simp: placed_def list_all2_conv_all_nth all_set_conv_all_nth intro!: nth_equalityI)
  then show ?thesis using assms(2) by (simp add: placed_def)
qed

lemma tracked_evolves:
  assumes ev: "evolves (shared r) (shared r')" and fx: "fixed r' = fixed r" and tr: "tracked n k r"
  shows "tracked n k r'"
  unfolding tracked_def Let_def
proof (intro impI)
  let ?ss = "steps (run_schedule_of r')" and ?ds = "declarations r'"
  assume ok: "outcome_of (shared r') = Completed"
  have rep: "report (shared r') = report (shared r)" and stp: "stopping (shared r') = stopping (shared r)"
    using evolves_completed [OF ev ok] by blast+
  have "run_schedule_of r' = run_schedule_of r" "declarations r' = declarations r"
    using fx by (simp_all add: fixed_iff)
  then have log: "logged ?ds ?ss n k (report (shared r))"
    and pl: "if stopping (shared r) then schedule_completed (report (shared r))
             else placed ?ds (take n ?ss) (actors (shared r))"
    using tr ok rep by (simp_all add: tracked_def Let_def)
  show "logged ?ds ?ss n k (report (shared r')) \<and>
      (if stopping (shared r') then schedule_completed (report (shared r'))
       else placed ?ds (take n ?ss) (actors (shared r')))"
  proof (cases "stopping (shared r')")
    case True
    then show ?thesis using log pl rep stp by simp
  next
    case False
    then have "placed ?ds (take n ?ss) (actors (shared r'))"
      using evolves_healthy [OF ev False] pl placed_evolves by metis
    then show ?thesis using False log rep by simp
  qed
qed

lemma path_reachable: "path r r' \<Longrightarrow> reachable (checkpoints r) (cfg r) \<Longrightarrow> reachable (checkpoints r') (cfg r')"
  using reachable_steps by (auto simp: path_def fixed_iff)

lemma reachable_evolves:
  "reachable (checkpoints r) (cfg r) \<Longrightarrow> evolves (shared r) (shared (locked r))"
  using locked_evolves reachable_ok by blast

lemma tracked_locked:
  "reachable (checkpoints r) (cfg r) \<Longrightarrow> tracked n k r \<Longrightarrow> tracked n k (locked r)"
  by (rule tracked_evolves [OF reachable_evolves]) (simp_all add: frame_simps)

lemma on_track_locked: "on_track r \<Longrightarrow> on_track (locked r)"
  using path_reachable [OF path_locked] tracked_locked by (auto simp: on_track_def)

lemma failed_outcome: "out \<noteq> Completed \<Longrightarrow> outcome_of (fail out d s) \<noteq> Completed"
  by (simp add: fail_def)

lemma on_track_failed:
  "reachable (checkpoints r) (cfg r) \<Longrightarrow> outcome_of (shared r) \<noteq> Completed \<Longrightarrow> on_track r"
  by (simp add: on_track_def tracked_failed)

lemma on_track_fail: "on_track r \<Longrightarrow> out \<noteq> Completed \<Longrightarrow> on_track (on_shared (fail out d) r)"
  using path_reachable [OF path_fail [of out r d]]
  by (intro on_track_failed) (simp_all add: on_track_def failed_outcome)

section \<open>An interval\<close>

text \<open>Between the permit and the arrival of interval \<open>n\<close>, run by actor \<open>i\<close>.\<close>

definition underway :: "nat \<Rightarrow> nat \<Rightarrow> run \<Rightarrow> bool" where
  "underway n i r \<longleftrightarrow>
     (let s = shared r; ss = steps (run_schedule_of r); ds = declarations r in
      outcome_of s = Completed \<longrightarrow>
        \<not> stopping s \<and> \<not> schedule_completed (report s) \<and> n < length ss
        \<and> distinct (map decl_actor ds)
        \<and> events (report s) = expected_events ds ss n @ [permit_row ds ss n]
        \<and> observed_after (observations (report s)) = map json_nat [0..<Suc n]
        \<and> i < length (actors s) \<and> map declared (actors s) = ds \<and> decl_actor (ds ! i) = actor (ss ! n)
        \<and> phase (actors s ! i) \<noteq> Starting
        \<and> (\<forall>j < length (actors s). j \<noteq> i \<longrightarrow> actor_at (take n ss) (actors s ! j)))"

lemma underway_failed: "outcome_of (shared r) \<noteq> Completed \<Longrightarrow> underway n i r"
  by (simp add: underway_def Let_def)

lemma actor_evolves_declared: "actor_evolves a b \<Longrightarrow> declared b = declared a"
  by (simp add: actor_evolves_def)

lemma actor_evolves_started: "actor_evolves a b \<Longrightarrow> phase a \<noteq> Starting \<Longrightarrow> phase b \<noteq> Starting"
  by (auto simp: actor_evolves_def split: if_splits)

lemma actor_evolves_stopped:
  "actor_evolves a b \<Longrightarrow> phase a \<noteq> Starting \<Longrightarrow> phase a \<noteq> Running \<Longrightarrow> phase b = phase a"
  by (auto simp: actor_evolves_def split: if_splits)

lemma evolves_nth:
  assumes "list_all2 actor_evolves as bs"
  shows "length bs = length as" and "map declared bs = map declared as"
    and "j < length as \<Longrightarrow> actor_evolves (as ! j) (bs ! j)"
  using assms by (auto simp: list_all2_conv_all_nth actor_evolves_declared intro!: nth_equalityI)

lemma underway_evolves:
  assumes ev: "evolves (shared r) (shared r')" and fx: "fixed r' = fixed r" and un: "underway n i r"
  shows "underway n i r'"
  unfolding underway_def Let_def
proof (intro impI)
  let ?ss = "steps (run_schedule_of r')" and ?ds = "declarations r'"
  assume ok: "outcome_of (shared r') = Completed"
  have f: "run_schedule_of r' = run_schedule_of r" "declarations r' = declarations r"
    using fx by (simp_all add: fixed_iff)
  have rep: "report (shared r') = report (shared r)" "stopping (shared r') = stopping (shared r)"
    using evolves_completed [OF ev ok] by blast+
  have out: "outcome_of (shared r) = Completed" using ok rep(1) by simp
  note u = un [unfolded underway_def Let_def, rule_format, OF out]
  then have "\<not> stopping (shared r')" using rep(2) by blast
  then have ae: "list_all2 actor_evolves (actors (shared r)) (actors (shared r'))"
    using evolves_healthy [OF ev] by blast
  note nth = evolves_nth [OF ae]
  have "i < length (actors (shared r))" using u by blast
  then have start: "phase (actors (shared r') ! i) \<noteq> Starting"
    using nth(3) actor_evolves_started u by blast
  have others: "actor_at (take n (steps (run_schedule_of r))) (actors (shared r') ! j)"
    if "j < length (actors (shared r))" "j \<noteq> i" for j
    using nth(3) actor_evolves_at u that by blast
  show "\<not> stopping (shared r') \<and> \<not> schedule_completed (report (shared r')) \<and> n < length ?ss
      \<and> distinct (map decl_actor ?ds)
      \<and> events (report (shared r')) = expected_events ?ds ?ss n @ [permit_row ?ds ?ss n]
      \<and> observed_after (observations (report (shared r'))) = map json_nat [0..<Suc n]
      \<and> i < length (actors (shared r')) \<and> map declared (actors (shared r')) = ?ds
      \<and> decl_actor (?ds ! i) = actor (?ss ! n)
      \<and> phase (actors (shared r') ! i) \<noteq> Starting
      \<and> (\<forall>j < length (actors (shared r')). j \<noteq> i \<longrightarrow> actor_at (take n ?ss) (actors (shared r') ! j))"
    unfolding f rep nth(1) nth(2)
    using u start others by blast
qed

definition on_way :: "nat \<Rightarrow> run \<Rightarrow> bool" where
  "on_way i r \<longleftrightarrow> reachable (checkpoints r) (cfg r) \<and> underway (next_step r) i r"

lemma on_way_locked: "on_way i r \<Longrightarrow> on_way i (locked r)"
  using path_reachable [OF path_locked] underway_evolves [OF reachable_evolves, of r]
  by (auto simp: on_way_def frame_simps)

lemma on_way_fail: "on_way i r \<Longrightarrow> out \<noteq> Completed \<Longrightarrow> on_way i (on_shared (fail out d) r)"
  using path_reachable [OF path_fail [of out r d]]
  by (simp add: on_way_def underway_failed failed_outcome)

text \<open>
  Waiting at the condition variable keeps every invariant that the other threads and a failure keep.
\<close>

locale wait_invariant =
  fixes I :: "run \<Rightarrow> bool"
  assumes keep_locked: "I r \<Longrightarrow> I (locked r)"
    and keep_fail: "I r \<Longrightarrow> out \<noteq> Completed \<Longrightarrow> I (on_shared (fail out d) r)"
    and stopped: "I r \<Longrightarrow> stopping (shared r) \<Longrightarrow> outcome_of (shared r) \<noteq> Completed"
begin

lemma wait_for_inv:
  "I r \<Longrightarrow> I (snd (wait_for P r)) \<and> fixed (snd (wait_for P r)) = fixed r
     \<and> next_step (snd (wait_for P r)) = next_step r
     \<and> (if fst (wait_for P r) then P (shared (snd (wait_for P r)))
         else outcome_of (shared (snd (wait_for P r))) \<noteq> Completed)"
proof (induction P r rule: wait_for.induct)
  case (1 P r0)
  note l = keep_locked [OF 1(2)]
  show ?case
    using 1 l stopped [OF l] keep_fail [OF l]
    by (subst (1 2 3 4 5 6) wait_for.simps) (auto simp: Let_def frame_simps failed_outcome)
qed

end

interpretation way: wait_invariant "on_way i" for i
  by (unfold_locales; (rule on_way_locked on_way_fail; assumption)?)
    (auto simp: on_way_def underway_def Let_def)

lemma on_wayD:
  assumes "on_way i r" and "outcome_of (shared r) = Completed"
  shows "\<not> stopping (shared r)" and "\<not> schedule_completed (report (shared r))"
    and "next_step r < length (steps (run_schedule_of r))"
    and "distinct (map decl_actor (declarations r))"
    and "events (report (shared r)) = expected_events (declarations r) (steps (run_schedule_of r)) (next_step r)
           @ [permit_row (declarations r) (steps (run_schedule_of r)) (next_step r)]"
    and "observed_after (observations (report (shared r))) = map json_nat [0..<Suc (next_step r)]"
    and "i < length (actors (shared r))" and "map declared (actors (shared r)) = declarations r"
    and "decl_actor (declarations r ! i) = actor (steps (run_schedule_of r) ! next_step r)"
    and "phase (actors (shared r) ! i) \<noteq> Starting"
    and "j < length (actors (shared r)) \<Longrightarrow> j \<noteq> i \<Longrightarrow>
           actor_at (take (next_step r) (steps (run_schedule_of r))) (actors (shared r) ! j)"
  using assms unfolding on_way_def underway_def Let_def by blast+

lemma on_trackD:
  assumes "on_track r" and "outcome_of (shared r) = Completed"
  shows "logged (declarations r) (steps (run_schedule_of r)) (next_step r) (Suc (next_step r)) (report (shared r))"
    and "stopping (shared r) \<Longrightarrow> schedule_completed (report (shared r))"
    and "\<not> stopping (shared r) \<Longrightarrow>
           placed (declarations r) (take (next_step r) (steps (run_schedule_of r))) (actors (shared r))"
  using assms unfolding on_track_def tracked_def Let_def by (auto split: if_splits)

lemma on_track_reachable: "on_track r \<Longrightarrow> reachable (checkpoints r) (cfg r)"
  by (simp add: on_track_def)

lemma on_way_reachable: "on_way i r \<Longrightarrow> reachable (checkpoints r) (cfg r)"
  by (simp add: on_way_def)

lemma retain_event_cases:
  assumes "outcome_of (retain_event c kind n i s) = Completed"
  shows "report (retain_event c kind n i s) = (report s)\<lparr>events := events (report s)
      @ [event_row (length (events (report s))) kind n (declared (actors s ! i)) (at_checkpoint (actors s ! i))]\<rparr>"
    and "stopping (retain_event c kind n i s) = stopping s"
    and "actors (retain_event c kind n i s) = actors s"
  using assms by (auto simp: retain_event_def Let_def fail_def split: if_splits)

lemma retain_event_actors [simp]: "actors (retain_event c kind n i s) = actors s"
  by (simp add: retain_event_def Let_def)

lemma retain_failed: "outcome_of s \<noteq> Completed \<Longrightarrow> outcome_of (retain_event c kind n i s) \<noteq> Completed"
  by (simp add: retain_event_def Let_def fail_def)

lemma position_Some:
  assumes "position P as = Some i"
  shows "i < length as \<and> P (as ! i)"
proof -
  obtain ks where "filter (\<lambda>i. P (as ! i)) [0..<length as] = i # ks"
    using assms by (auto simp: position_def split: list.splits)
  then have "i \<in> set (filter (\<lambda>i. P (as ! i)) [0..<length as])" by simp
  then show ?thesis by simp
qed

lemma placed_quiet: "placed ds ss as \<Longrightarrow> a \<in> set as \<Longrightarrow> phase a \<noteq> Running"
  by (auto simp: placed_def actor_at_def)

lemma quiet_nobody: "placed ds ss (actors s) \<Longrightarrow> nobody_runs s"
  by (auto simp: nobody_runs_def dest: placed_quiet)

lemma declaration_of_nth:
  "distinct (map decl_actor ds) \<Longrightarrow> i < length ds \<Longrightarrow> declaration_of ds (decl_actor (ds ! i)) = ds ! i"
  by (simp add: declaration_of_member)

text \<open>The permit of the next interval: the actor is the one the schedule names.\<close>

lemma permit_track:
  fixes c r i
  defines "s' \<equiv> retain_event c ''permit'' (next_step r) i (shared r)"
  defines "r' \<equiv> r\<lparr>shared := set_actor i (\<lambda>a. a\<lparr>phase := Running\<rparr>) s'\<rparr>"
  assumes tr: "on_track r" and out: "outcome_of (shared r) = Completed"
    and more: "next_step r < length (steps (run_schedule_of r))"
    and i: "i < length (actors (shared r))" "phase (actors (shared r) ! i) = Parked"
    and name: "decl_actor (declared (actors (shared r) ! i)) = actor (steps (run_schedule_of r) ! next_step r)"
    and go: "\<not> stopping s'"
  shows "on_way i r'"
proof -
  let ?ss = "steps (run_schedule_of r)" and ?ds = "declarations r" and ?n = "next_step r"
  have reach: "reachable (checkpoints r) (s', workers r)"
    using path_reachable [OF path_retain_event [of r c "''permit''" ?n i] on_track_reachable [OF tr]]
    by (simp add: s'_def)
  have out': "outcome_of s' = Completed" using go reachable_ok [OF reach] by (auto simp: sched_ok_def)
  note keep = retain_event_cases [OF out' [unfolded s'_def], folded s'_def]
  have st: "\<not> stopping (shared r)" using go keep(2) by simp
  note log = on_trackD(1) [OF tr out, unfolded logged_def]
  have pl: "placed ?ds (take ?n ?ss) (actors (shared r))" using on_trackD(3) [OF tr out] st by simp
  then have decls: "map declared (actors (shared r)) = ?ds"
    and at: "j < length (actors (shared r)) \<Longrightarrow> actor_at (take ?n ?ss) (actors (shared r) ! j)" for j
    by (simp_all add: placed_def)
  have il: "i < length ?ds" using i(1) decls length_map by metis
  have di: "declared (actors (shared r) ! i) = ?ds ! i" using decls i(1) by (metis nth_map)
  then have row: "event_row (length (events (report (shared r)))) ''permit'' ?n (declared (actors (shared r) ! i))
      (at_checkpoint (actors (shared r) ! i)) = permit_row ?ds ?ss ?n"
    using log at [OF i(1)] name declaration_of_nth [of ?ds i] il di
    by (simp add: permit_row_def actor_at_def)
  have "nobody_runs s'" using quiet_nobody [OF pl] keep(3) by (simp add: nobody_runs_def)
  then have "sched_step (checkpoints r) (s', workers r) (cfg r')"
    unfolding r'_def using sched_step.Permit [of i s'] i keep(3) by simp
  then have "reachable (checkpoints r') (cfg r')" using reach by (auto simp: r'_def intro: reachable.step)
  moreover have "underway ?n i r'"
    using st log more row i(1) decls at name di keep unfolding underway_def Let_def r'_def
    by (simp add: set_actor_nth) (simp add: set_actor_def map_update)
  ultimately show ?thesis by (simp add: on_way_def r'_def)
qed

lemma retain_fails:
  assumes tr: "on_track r" and more: "next_step r < length (steps (run_schedule_of r))"
    and st: "stopping (retain_event c kind n i (shared r))"
  shows "outcome_of (retain_event c kind n i (shared r)) \<noteq> Completed"
proof
  assume out: "outcome_of (retain_event c kind n i (shared r)) = Completed"
  note keep = retain_event_cases [OF out]
  have "outcome_of (shared r) = Completed" using out keep(1) by simp
  note d = on_trackD [OF tr this]
  have "schedule_completed (report (shared r))" using d(2) st keep(2) by simp
  then show False using d(1) more by (simp add: logged_def)
qed

lemma grant_None_track:
  assumes tr: "on_track r" and g: "grant c requested r = (None, r')"
  shows "on_track r' \<and> fixed r' = fixed r \<and> control r' = control r"
proof -
  let ?g = "\<lambda>i. retain_event c ''permit'' (next_step r) i (shared r)"
  have retained: "on_track (r\<lparr>shared := ?g i\<rparr>)"
    if "next_step r < length (steps (run_schedule_of r))" "stopping (?g i)" for i
  proof (rule on_track_failed)
    show "outcome_of (shared (r\<lparr>shared := ?g i\<rparr>)) \<noteq> Completed" using retain_fails [OF tr that] by simp
    show "reachable (checkpoints (r\<lparr>shared := ?g i\<rparr>)) (cfg (r\<lparr>shared := ?g i\<rparr>))"
      using path_reachable [OF path_retain_event [of r c "''permit''" "next_step r" i] on_track_reachable [OF tr]]
      by simp
  qed
  have fr: "fixed (r\<lparr>shared := x\<rparr>) = fixed r" "control (r\<lparr>shared := x\<rparr>) = control r" for x
    by (simp_all add: fixed_def control_def)
  show ?thesis
    using g retained on_track_fail [OF tr] tr
    by (auto simp: grant_def Let_def frame_simps fr split: if_splits option.splits)
qed

lemma grant_Some_track:
  assumes tr: "on_track r" and out: "outcome_of (shared r) = Completed" and g: "grant c requested r = (Some i, r')"
  shows "on_way i r'" and "fixed r' = fixed r" and "control r' = control r"
    and "steps (run_schedule_of r) ! next_step r = requested"
proof -
  have pos: "position (\<lambda>a. decl_actor (declared a) = actor requested) (actors (shared r)) = Some i"
    and parked: "phase (actors (shared r) ! i) = Parked"
    and more: "next_step r < length (steps (run_schedule_of r))"
    and go: "\<not> stopping (retain_event c ''permit'' (next_step r) i (shared r))"
    and r': "r' = r\<lparr>shared := set_actor i (\<lambda>a. a\<lparr>phase := Running\<rparr>)
        (retain_event c ''permit'' (next_step r) i (shared r))\<rparr>"
    and step: "steps (run_schedule_of r) ! next_step r = requested"
    using g by (auto simp: grant_def Let_def split: if_splits option.splits)
  have i: "i < length (actors (shared r))"
    "decl_actor (declared (actors (shared r) ! i)) = actor (steps (run_schedule_of r) ! next_step r)"
    using position_Some [OF pos] step by simp_all
  show "on_way i r'"
    unfolding r' by (rule permit_track) (use tr out more i parked go in simp_all)
  show "fixed r' = fixed r" "control r' = control r" by (simp_all add: r' fixed_def control_def)
  show "steps (run_schedule_of r) ! next_step r = requested" by (rule step)
qed

text \<open>The interval has ended and its observation is still to come.\<close>

definition arrived :: "run \<Rightarrow> bool" where
  "arrived r \<longleftrightarrow> reachable (checkpoints r) (cfg r) \<and> tracked (Suc (next_step r)) (Suc (next_step r)) r
     \<and> (outcome_of (shared r) = Completed \<longrightarrow> \<not> schedule_completed (report (shared r)))"

lemma arrived_failed:
  "reachable (checkpoints r) (cfg r) \<Longrightarrow> outcome_of (shared r) \<noteq> Completed \<Longrightarrow> arrived r"
  by (simp add: arrived_def tracked_failed)

lemma arrived_locked: "arrived r \<Longrightarrow> arrived (locked r)"
proof -
  assume r: "arrived r"
  then have "evolves (shared r) (shared (locked r))" by (auto simp: arrived_def intro: reachable_evolves)
  from evolves_completed [OF this]
  have "outcome_of (shared (locked r)) = Completed \<Longrightarrow> report (shared (locked r)) = report (shared r)" by blast
  then show ?thesis
    using r path_reachable [OF path_locked] tracked_locked unfolding arrived_def by fastforce
qed

lemma tracked_cong: "fixed r' = fixed r \<Longrightarrow> shared r' = shared r \<Longrightarrow> tracked n k r' = tracked n k r"
  by (simp add: tracked_def fixed_iff)

lemma on_track_cong:
  "fixed r' = fixed r \<Longrightarrow> cfg r' = cfg r \<Longrightarrow> next_step r' = next_step r \<Longrightarrow> on_track r' = on_track r"
  by (auto simp: on_track_def tracked_def fixed_iff)

lemma placed_arrival:
  assumes i: "i < length as" and decls: "map declared as = ds" and ds: "distinct (map decl_actor ds)"
    and n: "n < length ss" and name: "decl_actor (ds ! i) = actor (ss ! n)"
    and here: "at_checkpoint (as ! i) = checkpoint (ss ! n)" "phase (as ! i) = Parked \<or> phase (as ! i) = Finished"
    and others: "\<And>j. j < length as \<Longrightarrow> j \<noteq> i \<Longrightarrow> actor_at (take n ss) (as ! j)"
  shows "placed ds (take (Suc n) ss) as"
proof -
  have len: "length ds = length as" using decls by auto
  have declared: "declared (as ! j) = ds ! j" if "j < length as" for j using decls that by (metis nth_map)
  have "actor_at (take (Suc n) ss) (as ! j)" if j: "j < length as" for j
  proof (cases "j = i")
    case True
    then show ?thesis using here name i n by (simp add: actor_at_def declared last_checkpoint_take)
  next
    case False
    then have "decl_actor (ds ! j) \<noteq> decl_actor (ds ! i)"
      using ds i j len by (simp add: distinct_conv_nth)
    then show ?thesis
      using others [OF j False] name n j by (simp add: actor_at_def declared last_checkpoint_take)
  qed
  then show ?thesis using decls by (auto simp: placed_def all_set_conv_all_nth)
qed

lemma record_arrival_frame [frame_simps]:
  "fixed (record_arrival c st i r) = fixed r" "control (record_arrival c st i r) = control r"
  by (simp_all add: record_arrival_def Let_def fixed_def control_def)

lemma record_arrival_track:
  assumes way: "on_way i r" and rest: "phase (actors (shared r) ! i) \<noteq> Running"
    and step: "steps (run_schedule_of r) ! next_step r = st"
  shows "arrived (record_arrival c st i r)"
proof -
  let ?r = "record_arrival c st i r" and ?ss = "steps (run_schedule_of r)" and ?ds = "declarations r"
  let ?n = "next_step r" and ?s = "retain_event c ''arrival'' (next_step r) i (shared r)"
  have reach: "reachable (checkpoints ?r) (cfg ?r)"
    by (rule path_reachable [OF path_record_arrival on_way_reachable [OF way]])
  have fr: "run_schedule_of ?r = run_schedule_of r" "declarations ?r = ?ds" "next_step ?r = ?n"
    using record_arrival_frame [of c st i r] by (simp_all add: fixed_iff control_iff)
  show ?thesis
  proof (cases "outcome_of (shared ?r) = Completed")
    case True
    then have there: "at_checkpoint (actors (shared r) ! i) = checkpoint st" and sh: "shared ?r = ?s"
      and out: "outcome_of ?s = Completed"
      by (auto simp: record_arrival_def Let_def fail_def split: if_splits)
    note keep = retain_event_cases [OF out]
    have out': "outcome_of (shared r) = Completed" using out keep(1) by simp
    note w = on_wayD [OF way out']
    have declared: "declared (actors (shared r) ! i) = ?ds ! i" using w(7,8) by (metis nth_map)
    have il: "i < length ?ds" using w(7,8) length_map by metis
    have "event_row (length (events (report (shared r)))) ''arrival'' ?n (declared (actors (shared r) ! i))
        (at_checkpoint (actors (shared r) ! i)) = arrival_row ?ds ?ss ?n"
      using w(4,5,9) declaration_of_nth [of ?ds i] il there step by (simp add: arrival_row_def declared)
    then have "logged ?ds ?ss (Suc ?n) (Suc ?n) (report ?s)"
      using w keep(1) by (simp add: logged_def)
    moreover have "placed ?ds (take (Suc ?n) ?ss) (actors ?s)"
      unfolding keep(3)
    proof (rule placed_arrival [OF w(7,8,4,3,9)])
      show "at_checkpoint (actors (shared r) ! i) = checkpoint (?ss ! ?n)" using there step by simp
      show "phase (actors (shared r) ! i) = Parked \<or> phase (actors (shared r) ! i) = Finished"
        using w(10) rest by (cases "phase (actors (shared r) ! i)") auto
    qed (rule w(11))
    ultimately show ?thesis
      using reach w(1,2) keep by (simp add: arrived_def tracked_def Let_def fr sh)
  qed (use reach in \<open>simp add: arrived_failed\<close>)
qed

lemma join_worker_frame [simp]:
  "fixed (join_worker i r) = fixed r" "next_step (join_worker i r) = next_step r"
proof -
  obtain b where "tick r = (b, locked r)" by (rule tick_cases)
  then show "fixed (join_worker i r) = fixed r" "next_step (join_worker i r) = next_step r"
    by (simp_all add: join_worker_def Let_def frame_simps) (simp add: fixed_def)
qed

lemma join_worker_arrived: "arrived r \<Longrightarrow> arrived (join_worker i r)"
proof -
  assume r: "arrived r"
  obtain b where b: "tick r = (b, locked r)" by (rule tick_cases)
  have reach: "reachable (checkpoints (join_worker i r)) (cfg (join_worker i r))"
    using r path_reachable [OF path_join_worker] by (simp add: arrived_def)
  have "join_worker i r = r \<or> outcome_of (shared (join_worker i r)) \<noteq> Completed
      \<or> shared (join_worker i r) = shared (locked r)"
    by (cases "handle_live r i"; cases "b_join_panics b") (simp_all add: join_worker_def b failed_outcome)
  then consider "join_worker i r = r" | "outcome_of (shared (join_worker i r)) \<noteq> Completed"
    | "shared (join_worker i r) = shared (locked r)"
    by blast
  then show ?thesis
  proof cases
    case 3
    have "tracked n k (join_worker i r) = tracked n k (locked r)" for n k
      by (rule tracked_cong) (simp_all add: frame_simps 3)
    then show ?thesis using reach arrived_locked [OF r] 3 by (simp add: arrived_def)
  qed (use r reach in \<open>simp_all add: arrived_failed\<close>)
qed

lemma observe_result_cases:
  assumes "outcome_of (observe_result c n result s) = Completed"
  obtains v where "report (observe_result c n result s) = (report s)\<lparr>observations :=
      observations (report s) @ [json_obj [(''afterSteps'', json_nat n), (''state'', v)]]\<rparr>"
    and "stopping (observe_result c n result s) = stopping s"
    and "actors (observe_result c n result s) = actors s"
proof (cases result)
  case (CallOk v)
  let ?bad = "(case parse (c_strtok c) (c_render c v) observation_limits of Inl _ \<Rightarrow> True | Inr _ \<Rightarrow> False)
    \<or> evidence_bytes s + length (c_render c v) > evidence_limit"
  have fine: "\<not> ?bad"
  proof
    assume bad: ?bad
    have "observe_result c n result s
        = fail ObservationFailed (Detail ''observation evidence bound exceeded'') s"
      unfolding observe_result_def CallOk Let_def callback.case by (rule if_P [OF bad])
    then show False using assms failed_outcome by simp
  qed
  have eq: "observe_result c n result s = s\<lparr>evidence_bytes := evidence_bytes s + length (c_render c v),
      report := (report s)\<lparr>observations := observations (report s)
        @ [json_obj [(''afterSteps'', json_nat n), (''state'', v)]]\<rparr>\<rparr>"
    unfolding observe_result_def CallOk Let_def callback.case by (rule if_not_P [OF fine])
  show thesis by (rule that [of v]) (simp_all add: eq)
qed (use assms in \<open>simp_all add: observe_result_def failed_outcome\<close>)

lemma observe_cases:
  assumes "outcome_of (shared (observe c r)) = Completed"
  shows "stopping (shared (locked r)) \<and> observe c r = locked r
    \<or> \<not> stopping (shared (locked r))
      \<and> (\<exists>result. observe c r = on_shared (observe_result c (next_step r) result) (locked r))"
proof -
  obtain b where b: "tick r = (b, locked r)" by (rule tick_cases)
  show ?thesis using assms by (auto simp: observe_def b failed_outcome split: if_splits)
qed

lemma observe_frame [simp]:
  "fixed (observe c r) = fixed r" "control (observe c r) = control r"
proof -
  obtain b where b: "tick r = (b, locked r)" by (rule tick_cases)
  show "fixed (observe c r) = fixed r" "control (observe c r) = control r"
    by (simp_all add: observe_def b frame_simps)
qed

lemma observe_track:
  assumes reach: "reachable (checkpoints r) (cfg r)" and tr: "tracked (next_step r) (next_step r) r"
    and fresh: "outcome_of (shared r) = Completed \<Longrightarrow> \<not> schedule_completed (report (shared r))"
  shows "on_track (observe c r)"
proof -
  let ?o = "observe c r" and ?l = "locked r" and ?n = "next_step r"
  have nx: "next_step ?o = ?n" using observe_frame(2) [of c r, unfolded control_iff] by simp
  have reach': "reachable (checkpoints ?o) (cfg ?o)" by (rule path_reachable [OF path_observe reach])
  show ?thesis
  proof (cases "outcome_of (shared ?o) = Completed")
    case True
    have fo: "run_schedule_of ?o = run_schedule_of ?l" "declarations ?o = declarations ?l"
      using observe_frame(1) [of c r, unfolded fixed_iff] by simp_all
    have lk: "tracked ?n ?n ?l" by (rule tracked_locked [OF reach tr])
    have nd: "\<not> stopping (shared ?l)" if "outcome_of (shared ?l) = Completed"
    proof -
      have "report (shared ?l) = report (shared r)"
        using evolves_completed [OF reachable_evolves [OF reach] that] by blast
      then show ?thesis using lk that fresh by (auto simp: tracked_def Let_def)
    qed
    obtain result where go: "?o = on_shared (observe_result c ?n result) ?l"
      using observe_cases [OF True] nd True by auto
    have ok: "outcome_of (observe_result c ?n result (shared ?l)) = Completed" using True go by simp
    then obtain v where v: "report (shared ?o) = (report (shared ?l))\<lparr>observations :=
          observations (report (shared ?l)) @ [json_obj [(''afterSteps'', json_nat ?n), (''state'', v)]]\<rparr>"
      and same: "stopping (shared ?o) = stopping (shared ?l)" "actors (shared ?o) = actors (shared ?l)"
      using observe_result_cases [OF ok] unfolding go on_shared_simps by blast
    have out: "outcome_of (shared ?l) = Completed" using True v by simp
    have "tracked ?n (Suc ?n) ?o"
      using lk out nd [OF out]
      by (simp add: tracked_def Let_def fo v same logged_def observed_after_def jfield_json_obj)
    then show ?thesis using reach' nx by (simp add: on_track_def)
  qed (use reach' in \<open>rule on_track_failed\<close>)
qed

lemma observe_arrived:
  assumes "arrived r"
  shows "on_track (observe c (r\<lparr>next_step := Suc (next_step r)\<rparr>))"
proof (rule observe_track)
  let ?r = "r\<lparr>next_step := Suc (next_step r)\<rparr>"
  have "fixed ?r = fixed r" by (simp add: fixed_def)
  note cong = tracked_cong [OF this]
  show "tracked (next_step ?r) (next_step ?r) ?r" using assms cong by (simp add: arrived_def)
qed (use assms in \<open>simp_all add: arrived_def\<close>)

lemma run_interval_track:
  assumes way: "on_way i r" and step: "steps (run_schedule_of r) ! next_step r = st"
  shows "on_track (run_interval c st i r) \<and> fixed (run_interval c st i r) = fixed r"
proof -
  obtain ok r1 where w: "wait_for (\<lambda>s. phase (actors s ! i) \<noteq> Running) r = (ok, r1)" by fastforce
  note d = way.wait_for_inv [OF way, of "\<lambda>s. phase (actors s ! i) \<noteq> Running", unfolded w fst_conv snd_conv]
  show ?thesis
  proof (cases ok)
    case False
    then have "on_track r1" using d by (intro on_track_failed on_way_reachable [of i]) auto
    then show ?thesis using False d by (simp add: run_interval_def w)
  next
    case True
    let ?l = "locked r1"
    let ?r2 = "record_arrival c st i ?l"
    let ?r3 = "if phase (actors (shared ?r2) ! i) = Finished then join_worker i ?r2 else ?r2"
    let ?r4 = "locked ?r3"
    have l: "on_way i ?l" using d on_way_locked by blast
    have fl: "fixed ?l = fixed r" "next_step ?l = next_step r" using d by (simp_all add: frame_simps)
    have rest: "phase (actors (shared ?l) ! i) \<noteq> Running \<or> outcome_of (shared ?l) \<noteq> Completed"
    proof (rule disjCI)
      assume "\<not> outcome_of (shared ?l) \<noteq> Completed"
      then have ok: "outcome_of (shared ?l) = Completed" by simp
      have ev: "evolves (shared r1) (shared ?l)" using d by (intro reachable_evolves on_way_reachable) blast
      have "\<not> stopping (shared ?l)" by (rule on_wayD(1) [OF l ok])
      then have ae: "list_all2 actor_evolves (actors (shared r1)) (actors (shared ?l))"
        using evolves_healthy [OF ev] by blast
      have "outcome_of (shared r1) = Completed" using evolves_completed [OF ev ok] ok by simp
      then have "i < length (actors (shared r1))" "phase (actors (shared r1) ! i) \<noteq> Starting"
        using d on_wayD(7,10) by blast+
      then have "phase (actors (shared ?l) ! i) = phase (actors (shared r1) ! i)"
        using evolves_nth(3) [OF ae] actor_evolves_stopped d True by auto
      then show "phase (actors (shared ?l) ! i) \<noteq> Running" using d True by auto
    qed
    have r2: "arrived ?r2"
    proof (cases "outcome_of (shared ?l) = Completed")
      case True
      then show ?thesis
        using record_arrival_track [OF l] rest step fl by (simp add: fixed_iff)
    next
      case False
      then have "outcome_of (shared ?r2) \<noteq> Completed"
        by (auto simp: record_arrival_def Let_def fail_def retain_failed)
      then show ?thesis
        by (intro arrived_failed path_reachable [OF path_record_arrival on_way_reachable [OF l]])
    qed
    then have r4: "arrived ?r4" by (auto intro: arrived_locked join_worker_arrived)
    have f4: "fixed ?r4 = fixed r" using d by (simp add: frame_simps)
    have eq: "run_interval c st i r =
        (if outcome_of (shared ?r4) = Completed then observe c (?r4\<lparr>next_step := next_step ?r4 + 1\<rparr>) else ?r4)"
      using True by (simp only: run_interval_def w Let_def prod.case bool.case)
    have "on_track (observe c (?r4\<lparr>next_step := next_step ?r4 + 1\<rparr>))" using observe_arrived [OF r4] by simp
    moreover have "on_track ?r4" if "outcome_of (shared ?r4) \<noteq> Completed"
      using r4 that by (intro on_track_failed) (simp add: arrived_def)
    moreover have "fixed (x\<lparr>next_step := k\<rparr>) = fixed x" for x k by (simp add: fixed_def)
    ultimately show ?thesis using eq f4 by simp
  qed
qed

section \<open>Closing\<close>

text \<open>What closing an execution keeps: the intervals performed.\<close>

definition keeps :: "run \<Rightarrow> run \<Rightarrow> bool" where
  "keeps r r' \<longleftrightarrow> fixed r' = fixed r \<and> next_step r' = next_step r \<and> (on_track r \<longrightarrow> on_track r')"

lemma keeps_refl [simp]: "keeps r r"
  by (simp add: keeps_def)

lemma keeps_trans [trans]: "keeps r s \<Longrightarrow> keeps s t \<Longrightarrow> keeps r t"
  by (simp add: keeps_def)

lemma keeps_locked [intro]: "keeps r (locked r)"
  using on_track_locked by (auto simp: keeps_def frame_simps)

lemma keeps_tick: "tick r = (b, r') \<Longrightarrow> keeps r r'"
  using keeps_locked [of r] by (simp add: locked_def)

lemma keeps_fail: "out \<noteq> Completed \<Longrightarrow> keeps r (on_shared (fail out d) r)"
  using on_track_fail by (auto simp: keeps_def frame_simps)

text \<open>A write to the report that leaves the evidence alone.\<close>

lemma keeps_report:
  assumes sh: "actors (shared r') = actors (shared r)" "stopping (shared r') = stopping (shared r)"
    and fx: "fixed r' = fixed r" and wk: "workers r' = workers r" and nx: "next_step r' = next_step r"
    and ev: "outcome_of (shared r') = outcome_of (shared r)"
      "events (report (shared r')) = events (report (shared r))"
      "observations (report (shared r')) = observations (report (shared r))"
      "schedule_completed (report (shared r')) = schedule_completed (report (shared r))"
  shows "keeps r r'"
proof -
  have "path r r'" by (rule path_write) (simp_all add: assms)
  then have "reachable (checkpoints r') (cfg r')" if "on_track r"
    using path_reachable on_track_reachable that by blast
  moreover have "tracked n k r' = tracked n k r" for n k
    using fx by (simp add: tracked_def logged_def Let_def sh ev fixed_iff)
  ultimately show ?thesis using fx nx by (auto simp: keeps_def on_track_def)
qed

lemma keeps_handles:
  "keeps r (r\<lparr>handles := hs\<rparr>)"
proof -
  have "on_track (r\<lparr>handles := hs\<rparr>) = on_track r"
    by (rule on_track_cong) (simp_all add: fixed_def)
  then show ?thesis by (simp add: keeps_def fixed_def)
qed

lemma keeps_await_exit: "keeps r (await_exit r)"
proof (induction r rule: await_exit.induct)
  case (1 r)
  obtain b where b: "tick r = (b, locked r)" by (rule tick_cases)
  show ?case
    using 1 keeps_locked [of r] keeps_trans [of r "locked r"]
    by (subst await_exit.simps) (auto simp: b)
qed

lemma keeps_join_handle: "keeps r (join_handle r i)"
  using keeps_trans [OF keeps_locked keeps_handles, of r]
  by (auto simp: join_handle_def Let_def)

lemma keeps_join_handles: "keeps r (foldl join_handle r is')"
  by (induction is' arbitrary: r) (auto intro: keeps_trans keeps_join_handle)

lemma keeps_stop:
  "outcome_of (shared r) \<noteq> Completed \<or> schedule_completed (report (shared r)) \<Longrightarrow>
     keeps r (on_shared (\<lambda>s. s\<lparr>stopping := True\<rparr>) r)"
proof -
  assume fin: "outcome_of (shared r) \<noteq> Completed \<or> schedule_completed (report (shared r))"
  let ?r = "on_shared (\<lambda>s. s\<lparr>stopping := True\<rparr>) r"
  have "on_track ?r" if tr: "on_track r"
  proof -
    have "reachable (checkpoints ?r) (cfg ?r)"
      using on_track_reachable [OF tr] reachable.step [OF _ sched_step.Stop] by auto
    moreover have "tracked (next_step r) (Suc (next_step r)) ?r"
      using tr fin by (auto simp: on_track_def tracked_def Let_def)
    ultimately show ?thesis by (simp add: on_track_def)
  qed
  then show ?thesis by (simp add: keeps_def frame_simps)
qed

lemma keeps_begin_cleanup: "keeps r (on_shared begin_cleanup r)"
proof (cases "outcome_of (shared r) = Completed \<and> \<not> schedule_completed (report (shared r))")
  case True
  let ?f = "on_shared (fail Cancelled (Detail ''cleanup requested before completion'')) r"
  have "keeps r ?f" by (rule keeps_fail) simp
  also have "keeps ?f (on_shared (\<lambda>s. s\<lparr>stopping := True\<rparr>) ?f)"
    by (rule keeps_stop) (simp add: failed_outcome)
  finally show ?thesis using True by (simp add: on_shared_def begin_cleanup_def)
next
  case False
  then show ?thesis using keeps_stop [of r] by (auto simp: on_shared_def begin_cleanup_def)
qed

lemma keeps_close_run: "keeps r (close_run result r)"
  by (rule keeps_report) (simp_all add: close_run_def Let_def fixed_def)

lemma keeps_incomplete: "keeps r (cleanup_incomplete r)"
  by (rule keeps_report) (simp_all add: cleanup_incomplete_def on_shared_def fixed_def)

lemma keeps_cleanup: "keeps r (snd (cleanup_run ctx timeout r))"
proof -
  let ?r3 = "foldl join_handle (await_exit (on_shared begin_cleanup (locked r)))
    [0..<length (handles (await_exit (on_shared begin_cleanup (locked r))))]"
  have r3: "keeps r ?r3"
    by (rule keeps_trans [OF keeps_locked keeps_trans [OF keeps_begin_cleanup
          keeps_trans [OF keeps_await_exit keeps_join_handles]]])
  obtain b where b: "tick ?r3 = (b, locked ?r3)" by (rule tick_cases)
  have "keeps r (cleanup_incomplete (locked ?r3))" "keeps r (close_run (b_teardown b) (locked ?r3))"
    using keeps_trans [OF r3 keeps_trans [OF keeps_locked keeps_incomplete]]
      keeps_trans [OF r3 keeps_trans [OF keeps_locked keeps_close_run]] by blast+
  then show ?thesis using b by (auto simp: cleanup_run_def Let_def)
qed

section \<open>Starting\<close>

text \<open>The workers are being spawned and come to their first wait.\<close>

definition booting :: "run \<Rightarrow> bool" where
  "booting r \<longleftrightarrow>
     reachable (checkpoints r) (cfg r) \<and> next_step r = 0
     \<and> (outcome_of (shared r) = Completed \<longrightarrow>
          \<not> stopping (shared r) \<and> \<not> schedule_completed (report (shared r))
          \<and> logged (declarations r) (steps (run_schedule_of r)) 0 0 (report (shared r))
          \<and> map declared (actors (shared r)) = declarations r
          \<and> (\<forall>a \<in> set (actors (shared r)).
               (phase a = Starting \<or> phase a = Parked) \<and> at_checkpoint a = ''$start''))"

lemma actor_boots:
  "actor_evolves a b \<Longrightarrow> (phase a = Starting \<or> phase a = Parked) \<and> at_checkpoint a = cp \<Longrightarrow>
     (phase b = Starting \<or> phase b = Parked) \<and> at_checkpoint b = cp"
  by (auto simp: actor_evolves_def split: if_splits)

lemma booting_failed:
  "reachable (checkpoints r) (cfg r) \<Longrightarrow> next_step r = 0 \<Longrightarrow> outcome_of (shared r) \<noteq> Completed \<Longrightarrow> booting r"
  by (simp add: booting_def)

lemma booting_locked:
  assumes boot: "booting r"
  shows "booting (locked r)"
proof (cases "outcome_of (shared (locked r)) = Completed")
  case True
  have reach: "reachable (checkpoints r) (cfg r)" using boot by (simp add: booting_def)
  note ev = reachable_evolves [OF reach]
  have rep: "report (shared (locked r)) = report (shared r)" "stopping (shared (locked r)) = stopping (shared r)"
    using evolves_completed [OF ev True] by blast+
  then have "outcome_of (shared r) = Completed" using True by simp
  then have b: "\<not> stopping (shared r)" "\<not> schedule_completed (report (shared r))"
    "logged (declarations r) (steps (run_schedule_of r)) 0 0 (report (shared r))"
    "map declared (actors (shared r)) = declarations r"
    "\<forall>a \<in> set (actors (shared r)). (phase a = Starting \<or> phase a = Parked) \<and> at_checkpoint a = ''$start''"
    using boot unfolding booting_def by blast+
  have ae: "list_all2 actor_evolves (actors (shared r)) (actors (shared (locked r)))"
    using evolves_healthy [OF ev] rep(2) b(1) by simp
  then have "\<forall>b \<in> set (actors (shared (locked r))).
      (phase b = Starting \<or> phase b = Parked) \<and> at_checkpoint b = ''$start''"
    using b(5) actor_boots by (auto simp: list_all2_conv_all_nth all_set_conv_all_nth) metis+
  then show ?thesis
    using b boot rep path_reachable [OF path_locked reach] evolves_nth(2) [OF ae]
    by (simp add: booting_def)
next
  case False
  then show ?thesis
    using boot path_reachable [OF path_locked, of r] by (intro booting_failed) (simp_all add: booting_def)
qed

lemma booting_fail: "booting r \<Longrightarrow> out \<noteq> Completed \<Longrightarrow> booting (on_shared (fail out d) r)"
  using path_reachable [OF path_fail [of out r d]]
  by (intro booting_failed) (simp_all add: booting_def failed_outcome)

interpretation boot: wait_invariant booting
  by (unfold_locales; (rule booting_locked booting_fail; assumption)?) (auto simp: booting_def)

lemma booting_quiet:
  assumes "booting r" and "list_all (\<lambda>a. phase a = Parked) (actors (shared r))"
  shows "on_track (observe c r)"
proof (rule observe_track)
  have "last_checkpoint [] a = ''$start''" for a by (simp add: last_checkpoint_def)
  then show "tracked (next_step r) (next_step r) r"
    using assms by (auto simp: booting_def tracked_def Let_def placed_def actor_at_def list_all_iff)
qed (use assms in \<open>simp_all add: booting_def\<close>)

text \<open>A thread not spawned yet is left alone by all others.\<close>

lemma worker_step_unspawned:
  "ws ! j = Unspawned \<Longrightarrow> snd (worker_step cps i e (s, ws)) ! j = Unspawned"
  by (cases e; cases "i = j") (auto split: prod.splits sum.splits worker_pc.splits)

lemma worker_events_unspawned:
  "snd x ! j = Unspawned \<Longrightarrow> snd (worker_events cps es x) ! j = Unspawned"
proof (induction cps es x rule: worker_events.induct)
  case (2 cps i e es x)
  then show ?case using worker_step_unspawned [of "snd x" j cps i e "fst x"] by auto
qed simp

lemma booting_spawn:
  assumes "booting r" and "workers r ! i = Unspawned"
  shows "booting (r\<lparr>handles := hs, workers := (workers r)[i := Spawned]\<rparr>)"
  using assms reachable.step [OF _ sched_step.Spawn [OF assms(2)]] by (simp add: booting_def)

lemma booting_spawn_workers:
  "booting r \<Longrightarrow> distinct is' \<Longrightarrow> (\<And>j. j \<in> set is' \<Longrightarrow> workers r ! j = Unspawned) \<Longrightarrow>
     booting (spawn_workers e is' r) \<and> fixed (spawn_workers e is' r) = fixed r"
proof (induction e is' r rule: spawn_workers.induct)
  case (2 e i is' r0)
  let ?l = "locked r0"
  let ?s = "?l\<lparr>handles := handles ?l @ [True], workers := (workers ?l)[i := Spawned]\<rparr>"
  have l: "booting ?l" by (rule booting_locked [OF 2(2)])
  have un: "workers ?l ! j = Unspawned" if "j \<in> set (i # is')" for j
    using 2(4) [OF that] worker_events_unspawned [of "cfg r0"] by (simp add: locked_def tick_def Let_def)
  have "booting ?s" using booting_spawn [OF l] un by simp
  moreover have "workers ?s ! j = Unspawned" if "j \<in> set is'" for j
    using un that 2(3) by (cases "i = j") auto
  moreover have "fixed ?s = fixed r0" using locked_frame(1) [of r0] by (simp add: fixed_def)
  ultimately show ?case
    using 2(1) [of ?l] 2(3) booting_fail [OF l]
    by (auto simp: Let_def frame_simps split: option.split)
qed simp

end
