(* ===== verification/Schedule_Theorems.thy ===== *)
theory Schedule_Theorems
  imports Schedule_Track
begin

text \<open>
  The public operations of an execution, and what they guarantee: mutual exclusion of the workers,
  the exact evidence of a passed run, one teardown after every thread is joined, and the stability of
  the first failure.
\<close>

section \<open>The public operations stay on track\<close>

lemma on_track_stop_marker:
  assumes tr: "on_track r" and fin: "next_step r = length (steps (run_schedule_of r))"
  shows "on_track (on_shared (\<lambda>s. s\<lparr>report := (report s)\<lparr>schedule_completed := True\<rparr>\<rparr>) r)" (is "on_track ?r")
proof -
  have "path r ?r" by (rule path_write) (simp_all add: frame_simps)
  then have "reachable (checkpoints ?r) (cfg ?r)" by (rule path_reachable [OF _ on_track_reachable [OF tr]])
  moreover have "tracked (next_step r) (Suc (next_step r)) ?r"
    using tr fin by (auto simp: on_track_def tracked_def logged_def Let_def split: if_splits)
  ultimately show ?thesis by (simp add: on_track_def)
qed

lemma cleanup_track:
  "on_track r \<Longrightarrow> on_track (snd (cleanup_run ctx t r)) \<and> fixed (snd (cleanup_run ctx t r)) = fixed r"
  using keeps_cleanup [of r ctx t] by (simp add: keeps_def)

lemma advance_track:
  assumes tr: "on_track r"
  shows "on_track (snd (advance c ctx st r)) \<and> fixed (snd (advance c ctx st r)) = fixed r"
proof -
  let ?l = "locked r"
  let ?r2 = "case grant c st ?l of (None, r) \<Rightarrow> r | (Some i, r) \<Rightarrow> run_interval c st i r"
  let ?r3 = "locked ?r2"
  let ?r4 = "on_shared (\<lambda>s. s\<lparr>report := (report s)\<lparr>schedule_completed := True\<rparr>\<rparr>) (locked ?r3)"
  have l: "on_track ?l" by (rule on_track_locked [OF tr])
  have r2: "on_track ?r2 \<and> fixed ?r2 = fixed ?l" if out: "outcome_of (shared ?l) = Completed"
  proof -
    obtain w r' where g: "grant c st ?l = (w, r')" by fastforce
    show ?thesis
    proof (cases w)
      case None
      then show ?thesis using grant_None_track [OF l] g by simp
    next
      case (Some i)
      note s = grant_Some_track [OF l out g [unfolded Some]]
      have "steps (run_schedule_of r') ! next_step r' = st" using s by (simp add: fixed_iff control_iff)
      then show ?thesis using run_interval_track [OF s(1)] s(2) g Some by simp
    qed
  qed
  have r3: "on_track ?r3" "on_track (locked ?r3)" "fixed ?r3 = fixed r"
    if "outcome_of (shared ?l) = Completed"
    using r2 [OF that] on_track_locked by (simp_all add: frame_simps)
  have r4: "on_track ?r4" if "outcome_of (shared ?l) = Completed"
    "next_step ?r3 = length (steps (run_schedule_of ?r3))"
    using that by (intro on_track_stop_marker r3) simp_all
  have f4: "fixed ?r4 = fixed ?r3" by (simp add: frame_simps)
  show ?thesis
    unfolding advance_def Let_def
    using tr l r3 r4 f4 cleanup_track by (auto simp: frame_simps)
qed

lemma finish_track:
  assumes tr: "on_track r"
  shows "on_track (snd (finish ctx r)) \<and> fixed (snd (finish ctx r)) = fixed r"
proof -
  let ?f = "on_shared (fail InvalidSchedule (Detail ''execution finished before all intervals'')) (locked r)"
  have "on_track ?f" "fixed ?f = fixed r"
    using on_track_fail [OF on_track_locked [OF tr]] by (simp_all add: frame_simps)
  then show ?thesis
    unfolding finish_def Let_def
    using tr on_track_locked cleanup_track by (auto simp: frame_simps)
qed

lemma admit_distinct:
  assumes "admit c sch ad p = Inr ()"
  shows "distinct (map decl_actor (adapter_actors ad))"
proof -
  have "admissible sch ad p" using assms admit_accepts by blast
  then show ?thesis by (simp add: admissible_def)
qed

lemma admit_refuses: "admit c sch ad p = Inl (out, d) \<Longrightarrow> out \<noteq> Completed"
  by (auto simp: admit_def Let_def split: sum.splits option.splits if_splits)

lemma refused_track:
  assumes "out \<noteq> Completed"
  shows "on_track (refuse out d (initial_run e ctx sch ad p k bs))"
proof (rule on_track_failed)
  let ?r = "refuse out d (initial_run e ctx sch ad p k bs)"
  have "reachable (checkpoints ?r) (shared ?r, map (\<lambda>_. Unspawned) ([] :: actor_declaration list))"
    by (rule reachable.init) (simp_all add: refuse_def initial_run_def)
  then show "reachable (checkpoints ?r) (cfg ?r)" by (simp add: refuse_def initial_run_def)
  show "outcome_of (shared ?r) \<noteq> Completed" using assms by (simp add: refuse_def failed_outcome)
qed

lemma workers_error_fail:
  "outcome_of s = Completed \<Longrightarrow> outcome_of (workers_error ns ds s) \<noteq> Completed \<and> stopping (workers_error ns ds s)
      \<and> actors (workers_error ns ds s) = actors s
    \<or> workers_error ns ds s = s"
  by (auto simp: workers_error_def Let_def fail_def)

lemma workers_error_stop:
  "outcome_of s = Completed \<Longrightarrow> outcome_of (workers_error ns ds s) \<noteq> Completed \<Longrightarrow>
     stopping (workers_error ns ds s)"
  by (auto simp: workers_error_def Let_def fail_def)

text \<open>The stages of starting: the program is made, and the actors are.\<close>

definition made :: "adapter \<Rightarrow> string list \<Rightarrow> run \<Rightarrow> run" where
  "made ad names r = on_shared (workers_error names (adapter_actors ad)) (r\<lparr>program := True\<rparr>)"

definition manned :: "adapter \<Rightarrow> string list \<Rightarrow> run \<Rightarrow> run" where
  "manned ad names r =
     (made ad names r)\<lparr>shared := (shared (made ad names r))\<lparr>actors := map new_actor (adapter_actors ad)\<rparr>,
        workers := map (\<lambda>_. Unspawned) (adapter_actors ad)\<rparr>"

definition awaited :: "codec \<Rightarrow> start_env \<Rightarrow> run \<Rightarrow> run" where
  "awaited c e r =
     (case wait_for (\<lambda>s. list_all (\<lambda>a. phase a = Parked) (actors s)) r of
        (True, r') \<Rightarrow> observe c r' | (False, r') \<Rightarrow> r')"

lemma made_fixed: "fixed (made ad names r) = fixed r" "fixed (manned ad names r) = fixed r"
  by (simp_all add: made_def manned_def fixed_def on_shared_def)

lemma made_track:
  assumes "outcome_of (shared (made ad names (initial_run e ctx sch ad p k bs))) \<noteq> Completed"
  shows "on_track (made ad names (initial_run e ctx sch ad p k bs))" (is "on_track ?r")
proof (rule on_track_failed [OF _ assms])
  let ?init = "initial_run e ctx sch ad p k bs"
  have "actors (shared ?r) = map new_actor ([] :: actor_declaration list)"
    by (simp add: made_def workers_error_def Let_def initial_run_def)
  moreover have sh: "shared ?r = workers_error names (adapter_actors ad) (shared ?init)"
    by (simp add: made_def)
  have "outcome_of (shared ?init) = Completed" by (simp add: initial_run_def initial_report_def)
  then have "stopping (shared ?r)" using assms unfolding sh by (rule workers_error_stop)
  ultimately have "reachable (checkpoints ?r) (shared ?r, map (\<lambda>_. Unspawned) ([] :: actor_declaration list))"
    by (rule reachable.init)
  then show "reachable (checkpoints ?r) (cfg ?r)" by (simp add: made_def initial_run_def)
qed

lemma manned_boots:
  assumes "outcome_of (shared (made ad names (initial_run e ctx sch ad p k bs))) = Completed"
    and adm: "admit c sch ad p = Inr ()"
  shows "booting (manned ad names (initial_run e ctx sch ad p k bs))"
proof -
  let ?init = "initial_run e ctx sch ad p k bs" and ?ds = "adapter_actors ad"
  have same: "workers_error names ?ds (shared ?init) = shared ?init"
    using assms(1) workers_error_fail [of "shared ?init" names ?ds]
    by (auto simp: made_def initial_run_def initial_report_def)
  have "reachable (checkpoints ?init) ((shared ?init)\<lparr>actors := map new_actor ?ds\<rparr>, map (\<lambda>_. Unspawned) ?ds)"
    by (rule reachable.init) (simp_all add: initial_run_def initial_report_def)
  then show ?thesis
    using admit_distinct [OF adm] same
    by (auto simp: booting_def made_def manned_def initial_run_def initial_report_def logged_def
        observed_after_def new_actor_def comp_def)
qed

lemma awaited_track:
  assumes "booting r"
  shows "on_track (awaited c e r) \<and> fixed (awaited c e r) = fixed r"
proof -
  obtain ok r' where w: "wait_for (\<lambda>s. list_all (\<lambda>a. phase a = Parked) (actors s)) r = (ok, r')" by fastforce
  note b = boot.wait_for_inv [OF assms, of "\<lambda>s. list_all (\<lambda>a. phase a = Parked) (actors s)", unfolded w fst_conv snd_conv]
  show ?thesis
  proof (cases ok)
    case True
    then show ?thesis using b booting_quiet w by (simp add: awaited_def)
  next
    case False
    then have "on_track r'" using b by (intro on_track_failed) (auto simp: booting_def)
    then show ?thesis using False b w by (simp add: awaited_def)
  qed
qed

lemma start_stages:
  "start_schedule c e ctx sch ad p k bs =
     (let r0 = initial_run e ctx sch ad p k bs;
          rejected =
            (if in_callback ctx then Some (InvalidSchedule, Detail ''scheduler callback reentry'')
             else if k then Some (Cancelled, Detail ''cancelled before acquisition'')
             else (case admit c sch ad p of Inl err \<Rightarrow> Some err | Inr _ \<Rightarrow> None))
      in case rejected of
           Some (out, d) \<Rightarrow> refuse out d r0
         | None \<Rightarrow>
             (case factory e (inputs sch) of
                FactoryErr err \<Rightarrow> refuse ApplicationFailed (Detail err) r0
              | FactoryPanic \<Rightarrow> refuse ApplicationFailed (Detail ''factory panicked'') r0
              | FactoryOk names \<Rightarrow>
                  (let r1 = made ad names r0
                   in if outcome_of (shared r1) \<noteq> Completed then snd (cleanup_run ctx (cleanup_timeout p) r1)
                      else
                        (let r5 = locked (awaited c e
                               (spawn_workers e [0..<length (adapter_actors ad)] (manned ad names r0)))
                         in if outcome_of (shared r5) \<noteq> Completed
                            then snd (cleanup_run ctx (cleanup_timeout p) r5) else r5))))"
  by (simp only: start_schedule_def made_def manned_def awaited_def Let_def)

lemma started_track:
  assumes "outcome_of (shared (made ad names (initial_run e ctx sch ad p k bs))) = Completed"
    and "admit c sch ad p = Inr ()"
  defines "r5 \<equiv> locked (awaited c e (spawn_workers e [0..<length (adapter_actors ad)]
      (manned ad names (initial_run e ctx sch ad p k bs))))"
  shows "on_track r5 \<and> fixed r5 = fixed (initial_run e ctx sch ad p k bs)"
proof -
  let ?r2 = "manned ad names (initial_run e ctx sch ad p k bs)" and ?is = "[0..<length (adapter_actors ad)]"
  have "workers ?r2 ! j = Unspawned" if "j \<in> set ?is" for j using that by (simp add: manned_def)
  then have "booting (spawn_workers e ?is ?r2) \<and> fixed (spawn_workers e ?is ?r2) = fixed ?r2"
    using booting_spawn_workers [OF manned_boots [OF assms(1,2)], of ?is e] by simp
  then show ?thesis using awaited_track on_track_locked by (simp add: r5_def frame_simps made_fixed)
qed

lemma start_track:
  "on_track (start_schedule c e ctx sch ad p k bs)
     \<and> fixed (start_schedule c e ctx sch ad p k bs) = fixed (initial_run e ctx sch ad p k bs)"
proof -
  have refused: "on_track (refuse out d (initial_run e ctx sch ad p k bs))
      \<and> fixed (refuse out d (initial_run e ctx sch ad p k bs)) = fixed (initial_run e ctx sch ad p k bs)"
    if "out \<noteq> Completed" for out d
    using refused_track [OF that] by (simp add: refuse_def fixed_def on_shared_def)
  show ?thesis
    unfolding start_stages Let_def
    using refused admit_refuses made_track made_fixed(1) started_track cleanup_track
    by (auto split: option.split created.split sum.split prod.split)
qed

end
