(* ===== verification/Schedule_Cleanup.thy ===== *)
theory Schedule_Cleanup
  imports Schedule_Theorems
begin

text \<open>
  Closing an execution: its threads are joined before its program is torn down, once.
\<close>

section \<open>Joined threads stay gone\<close>

text \<open>
  What a step of a worker leaves of every thread: one not spawned is not, one past its last section
  can only go away, and a gone one stays gone.
\<close>

definition pc_keeps :: "worker_pc \<Rightarrow> worker_pc \<Rightarrow> bool" where
  "pc_keeps pc pc' \<longleftrightarrow>
     (pc = Unspawned \<longrightarrow> pc' = Unspawned) \<and> (pc = Ended \<longrightarrow> pc' = Ended \<or> pc' = Exited)
     \<and> (pc = Exited \<longrightarrow> pc' = Exited)"

lemma pc_keeps_refl [simp]: "pc_keeps pc pc"
  by (simp add: pc_keeps_def)

lemma pc_keeps_trans: "pc_keeps a b \<Longrightarrow> pc_keeps b d \<Longrightarrow> pc_keeps a d"
  by (auto simp: pc_keeps_def)

lemma pcs_refl [simp]: "list_all2 pc_keeps ws ws"
  by (simp add: list_all2_refl)

lemma pcs_trans: "list_all2 pc_keeps a b \<Longrightarrow> list_all2 pc_keeps b d \<Longrightarrow> list_all2 pc_keeps a d"
  using list_all2_trans [of pc_keeps pc_keeps pc_keeps] pc_keeps_trans by blast

lemma pcs_update: "pc_keeps (ws ! i) pc \<Longrightarrow> list_all2 pc_keeps ws (ws[i := pc])"
  using list_all2_update_cong [of pc_keeps ws ws "ws ! i" pc i] by simp

lemma worker_step_pcs: "list_all2 pc_keeps ws (snd (worker_step cps i e (s, ws)))"
proof (cases e)
  case WWake
  then show ?thesis by (auto intro!: pcs_update simp: pc_keeps_def)
next
  case (WArrive t cp)
  then show ?thesis by (auto intro!: pcs_update simp: pc_keeps_def split: prod.split sum.split)
next
  case WEnd
  then show ?thesis by (auto intro!: pcs_update simp: pc_keeps_def split: worker_pc.split)
qed (auto intro!: pcs_update simp: pc_keeps_def)

lemma worker_events_pcs: "list_all2 pc_keeps (snd x) (snd (worker_events cps es x))"
proof (induction cps es x rule: worker_events.induct)
  case (2 cps i e es x)
  have "list_all2 pc_keeps (snd x) (snd (if i < length (snd x) then worker_step cps i e x else x))"
    using worker_step_pcs [of "snd x" cps i e "fst x"] by simp
  from pcs_trans [OF this 2] show ?case by simp
qed simp

lemma locked_pcs: "list_all2 pc_keeps (workers r) (workers (locked r))"
  using worker_events_pcs [of "cfg r" "checkpoints r" "b_events (fst (tick r))"]
  by (simp add: locked_cfg [symmetric])

section \<open>Handles and threads\<close>

text \<open>
  The handles belong to the threads spawned so far, a joined one to a thread that is gone; the
  program is torn down when the execution closes and every handle has been joined.
\<close>

abbreviation same_cleanup :: "sched \<Rightarrow> sched \<Rightarrow> bool" where
  "same_cleanup s s' \<equiv> r_cleanup (report s) = r_cleanup (report s')
     \<and> remaining_actors (report s) = remaining_actors (report s')"

definition settled :: "run \<Rightarrow> bool" where
  "settled r \<longleftrightarrow>
     length (handles r) \<le> length (workers r)
     \<and> (\<forall>i < length (handles r). \<not> handles r ! i \<longrightarrow> workers r ! i = Exited)
     \<and> (\<forall>i < length (workers r). length (handles r) \<le> i \<longrightarrow> workers r ! i = Unspawned)
     \<and> (closed r \<longrightarrow> True \<notin> set (handles r))
     \<and> teardowns r = (if closed r \<and> program r then 1 else 0)
     \<and> (r_cleanup (report (shared r)) \<in> {Confirmed, TeardownFailed}
          \<longrightarrow> closed r \<and> program r \<and> remaining_actors (report (shared r)) = [])"

lemma settled_pcs:
  assumes r: "settled r" and pcs: "list_all2 pc_keeps (workers r) (workers r')" and "handles r' = handles r"
    and "closed r' = closed r" and "program r' = program r" and "teardowns r' = teardowns r"
    and "same_cleanup (shared r') (shared r)"
  shows "settled r'"
proof -
  have len: "length (workers r') = length (workers r)" using pcs by (simp add: list_all2_lengthD)
  have keeps: "pc_keeps (workers r ! i) (workers r' ! i)" if "i < length (workers r)" for i
    using pcs that by (simp add: list_all2_conv_all_nth)
  have "workers r' ! i = Exited" if "i < length (handles r)" "\<not> handles r ! i" for i
    using r that keeps [of i] by (auto simp: settled_def pc_keeps_def)
  moreover have "workers r' ! i = Unspawned" if "i < length (workers r)" "length (handles r) \<le> i" for i
    using r that keeps [of i] by (auto simp: settled_def pc_keeps_def)
  ultimately show ?thesis using r assms(3-) len unfolding settled_def by auto
qed

lemma worker_step_cleanup: "same_cleanup (fst (worker_step cps i e (s, ws))) s"
proof (cases e)
  case (WArrive t cp)
  have "same_cleanup (snd (arrive cps i t cp s)) s" by (simp add: arrive_def)
  then show ?thesis using WArrive by (auto split: prod.split sum.split)
next
  case WEnd
  have "same_cleanup (finish_worker i x s) s" for x
    by (simp add: finish_worker_def split: callback.split)
  then show ?thesis using WEnd by (auto split: worker_pc.split)
qed auto

lemma worker_events_cleanup: "same_cleanup (fst (worker_events cps es x)) (fst x)"
proof (induction cps es x rule: worker_events.induct)
  case (2 cps i e es x)
  then show ?case using worker_step_cleanup [of cps i e "fst x" "snd x"] by simp
qed simp

lemma settled_locked: "settled r \<Longrightarrow> settled (locked r)"
proof (rule settled_pcs [OF _ locked_pcs])
  show "same_cleanup (shared (locked r)) (shared r)"
    using worker_events_cleanup [of "checkpoints r" "b_events (fst (tick r))" "cfg r"]
    by (simp add: locked_cfg [symmetric])
qed simp_all

text \<open>Writing to the shared state does not touch the threads.\<close>

lemma settled_shared:
  "settled r \<Longrightarrow> same_cleanup s (shared r) \<Longrightarrow> settled (r\<lparr>shared := s\<rparr>)"
  by (erule settled_pcs) simp_all

lemma settled_on_shared:
  "settled r \<Longrightarrow> same_cleanup (f (shared r)) (shared r) \<Longrightarrow> settled (on_shared f r)"
  unfolding on_shared_def by (rule settled_shared)

lemma settled_fail: "settled r \<Longrightarrow> settled (on_shared (fail out d) r)"
  by (rule settled_on_shared) simp_all

lemma settled_wait_for: "settled r \<Longrightarrow> settled (snd (wait_for P r))"
proof (induction P r rule: wait_for.induct)
  case (1 P r)
  note l = settled_locked [OF 1(2)]
  show ?case
    using 1 l settled_fail [OF l] by (subst wait_for.simps) (auto simp: Let_def)
qed

lemma settled_await_exit: "settled r \<Longrightarrow> settled (await_exit r)"
proof (induction r rule: await_exit.induct)
  case (1 r)
  obtain b where b: "tick r = (b, locked r)" by (rule tick_cases)
  show ?case using 1 settled_locked [OF 1(2)] by (subst await_exit.simps) (auto simp: b)
qed

lemma retain_event_cleanup [simp]:
  "same_cleanup (retain_event c kind n i s) s"
  by (simp add: retain_event_def Let_def)

lemma observe_result_cleanup [simp]:
  "same_cleanup (observe_result c n result s) s"
  by (simp add: observe_result_def Let_def split: callback.split)

lemma settled_observe: "settled r \<Longrightarrow> settled (observe c r)"
proof -
  assume r: "settled r"
  obtain b where b: "tick r = (b, locked r)" by (rule tick_cases)
  show ?thesis
    using settled_locked [OF r] by (auto simp: observe_def b intro: settled_fail settled_on_shared)
qed

lemma settled_record_arrival: "settled r \<Longrightarrow> settled (record_arrival c st i r)"
  unfolding record_arrival_def Let_def by (erule settled_shared) simp

lemma settled_grant: "settled r \<Longrightarrow> grant c st r = (w, r') \<Longrightarrow> settled r'"
  by (auto simp: grant_def Let_def set_actor_def intro: settled_fail settled_shared
      split: if_splits option.splits)

lemma settled_next: "settled r \<Longrightarrow> settled (r\<lparr>next_step := n\<rparr>)"
  by (erule settled_pcs) simp_all

text \<open>Joining a thread: when it is gone, or about to go.\<close>

lemma settled_join:
  assumes r: "settled r" and i: "i < length (handles r)" and cl: "\<not> closed r"
    and gone: "pc = Exited" and sh: "same_cleanup (shared r') (shared r)"
    and eq: "handles r' = (handles r)[i := False]" "workers r' = (workers r)[i := pc]"
      "closed r' = closed r" "program r' = program r" "teardowns r' = teardowns r"
  shows "settled r'"
proof -
  have "workers r' ! j = Exited" if "j < length (handles r)" "\<not> handles r' ! j" for j
    using r i that gone by (cases "j = i") (auto simp: settled_def eq)
  then show ?thesis using r i cl gone sh by (auto simp: settled_def eq nth_list_update)
qed

lemma handle_live_D: "handle_live r i \<Longrightarrow> i < length (handles r)"
  by (simp add: handle_live_def)

lemma settled_join_handle:
  assumes "settled r" and "\<not> closed r"
  shows "settled (join_handle r i) \<and> \<not> closed (join_handle r i)"
proof (cases "handle_live (locked r) i \<and> workers (locked r) ! i = Exited")
  case True
  have "settled (join_handle r i)"
  proof (rule settled_join [OF settled_locked [OF assms(1)]])
    show "i < length (handles (locked r))" using True handle_live_D by blast
    show "workers (join_handle r i) = (workers (locked r))[i := Exited]"
      using True by (simp add: join_handle_def Let_def) (metis list_update_id)
  qed (use True assms in \<open>simp_all add: join_handle_def Let_def\<close>)
  then show ?thesis using True assms by (simp add: join_handle_def Let_def)
next
  case False
  then show ?thesis using assms settled_locked by (auto simp: join_handle_def Let_def)
qed

lemma settled_join_handles:
  "settled r \<Longrightarrow> \<not> closed r \<Longrightarrow>
     settled (foldl join_handle r ks) \<and> \<not> closed (foldl join_handle r ks)"
  by (induction ks arbitrary: r) (simp_all add: settled_join_handle)

lemma settled_join_worker:
  assumes r: "settled r" and cl: "\<not> closed r" and pc: "workers r ! i = Ended \<or> workers r ! i = Exited"
  shows "settled (join_worker i r)"
proof (cases "handle_live r i")
  case True
  obtain b where b: "tick r = (b, locked r)" by (rule tick_cases)
  let ?l = "locked r"
  let ?j = "?l\<lparr>handles := (handles ?l)[i := False],
    workers := if workers ?l ! i = Ended then (workers ?l)[i := Exited] else workers ?l\<rparr>"
  have i: "i < length (handles r)" using True by (rule handle_live_D)
  then have "i < length (workers r)" using r by (simp add: settled_def)
  then have "pc_keeps (workers r ! i) (workers ?l ! i)"
    using locked_pcs [of r] by (simp add: list_all2_conv_all_nth)
  then have "workers ?l ! i = Ended \<or> workers ?l ! i = Exited" using pc by (auto simp: pc_keeps_def)
  moreover have "(workers ?l)[i := Exited] = workers ?l" if "workers ?l ! i = Exited"
    by (metis list_update_id that)
  ultimately have "settled ?j"
    using i cl by (intro settled_join [OF settled_locked [OF r], of i Exited]) auto
  moreover have "join_worker i r =
      (if b_join_panics b then on_shared (fail ApplicationFailed (Detail ''worker exit panicked'')) ?j else ?j)"
    using True by (simp only: join_worker_def b Let_def prod.case if_True)
  ultimately show ?thesis using settled_fail by simp
qed (use r in \<open>simp add: join_worker_def\<close>)

section \<open>Every operation settles its threads\<close>

lemma wait_for_control: "control (snd (wait_for P r)) = control r"
proof (induction P r rule: wait_for.induct)
  case (1 P r)
  then show ?case by (subst wait_for.simps) (auto simp: Let_def frame_simps)
qed

lemma await_exit_control: "control (await_exit r) = control r"
proof (induction r rule: await_exit.induct)
  case (1 r)
  obtain b where b: "tick r = (b, locked r)" by (rule tick_cases)
  show ?case using 1 by (subst await_exit.simps) (auto simp: b frame_simps)
qed

lemma begin_cleanup_status [simp]: "same_cleanup (begin_cleanup s) s"
  by (simp add: begin_cleanup_def Let_def)

lemma remaining_none: "remaining_of r = [] \<Longrightarrow> True \<notin> set (handles r)"
  by (auto simp: remaining_of_def handle_live_def filter_empty_conv in_set_conv_nth)

lemma settled_close_run:
  assumes "settled r" and "\<not> closed r" and "True \<notin> set (handles r)"
  shows "settled (close_run result r)"
  using assms by (auto simp: settled_def close_run_def Let_def)

lemma settled_incomplete: "settled r \<Longrightarrow> \<not> closed r \<Longrightarrow> settled (cleanup_incomplete r)"
  by (simp add: cleanup_incomplete_def settled_def)

lemma settled_cleanup:
  assumes r: "settled r"
  shows "settled (snd (cleanup_run ctx timeout r))"
proof (cases "check_owner ctx r \<and> budget timeout \<and> \<not> closed r")
  case True
  let ?w = "await_exit (on_shared begin_cleanup (locked r))"
  let ?j = "foldl join_handle ?w [0..<length (handles ?w)]"
  have "settled ?w" by (intro settled_await_exit settled_on_shared settled_locked r) simp
  moreover have "\<not> closed ?w"
    using True await_exit_control [of "on_shared begin_cleanup (locked r)"] by (simp add: control_iff)
  ultimately have j: "settled ?j \<and> \<not> closed ?j" by (rule settled_join_handles)
  obtain b where b: "tick ?j = (b, locked ?j)" by (rule tick_cases)
  have "settled (cleanup_incomplete (locked ?j))" using j by (intro settled_incomplete settled_locked) simp_all
  moreover have "settled (close_run (b_teardown b) (locked ?j))" if "remaining_of ?j = []"
    using j remaining_none [OF that] by (intro settled_close_run settled_locked) simp_all
  ultimately show ?thesis using True b by (auto simp: cleanup_run_def Let_def)
next
  case False
  then show ?thesis using r settled_locked [OF r] by (auto simp: cleanup_run_def Let_def)
qed

lemma finished_pc:
  assumes "sched_ok (s, ws)" and "i < length ws" and "phase (actors s ! i) = Finished"
  shows "ws ! i = Ended \<or> ws ! i = Exited"
  using sched_ok_fits [OF assms(1,2)] assms(3) by (auto simp: pc_fits_def split: worker_pc.splits)

lemma settled_run_interval:
  assumes r: "settled r" and cl: "\<not> closed r" and way: "on_way i r"
  shows "settled (run_interval c st i r) \<and> \<not> closed (run_interval c st i r)"
proof -
  let ?P = "\<lambda>s. phase (actors s ! i) \<noteq> Running"
  obtain ok r1 where w: "wait_for ?P r = (ok, r1)" by fastforce
  have r1: "settled r1" and cl1: "\<not> closed r1" and way1: "on_way i r1"
    using settled_wait_for [OF r, of ?P] wait_for_control [of ?P r, unfolded control_iff]
      way.wait_for_inv [OF way, of ?P] cl by (simp_all add: w)
  let ?r2 = "record_arrival c st i (locked r1)"
  have r2: "settled ?r2" by (intro settled_record_arrival settled_locked r1)
  have cl2: "\<not> closed ?r2"
    using cl1 record_arrival_frame(2) [of c st i "locked r1", unfolded control_iff] by simp
  have reach: "reachable (checkpoints ?r2) (cfg ?r2)"
    by (rule path_reachable [OF path_record_arrival on_way_reachable [OF on_way_locked [OF way1]]])
  have r3: "settled (join_worker i ?r2)" if "phase (actors (shared ?r2) ! i) = Finished"
  proof (cases "i < length (handles ?r2)")
    case True
    then have "i < length (workers ?r2)" using r2 by (simp add: settled_def)
    then show ?thesis
      using settled_join_worker [OF r2 cl2] finished_pc [OF reachable_ok [OF reach]] that by blast
  next
    case False
    then show ?thesis using r2 by (simp add: join_worker_def handle_live_def)
  qed
  have cl3: "\<not> closed (join_worker i ?r2)"
  proof -
    obtain b where "tick ?r2 = (b, locked ?r2)" by (rule tick_cases)
    then show ?thesis using cl2 by (simp add: join_worker_def Let_def)
  qed
  let ?r4 = "locked (if phase (actors (shared ?r2) ! i) = Finished then join_worker i ?r2 else ?r2)"
  have r4: "settled ?r4" "\<not> closed ?r4" using r2 r3 cl2 cl3 by (auto intro: settled_locked)
  have "settled (observe c (?r4\<lparr>next_step := k\<rparr>))" for k by (intro settled_observe settled_next r4)
  moreover have "\<not> closed (observe c (?r4\<lparr>next_step := k\<rparr>))" for k
    using r4(2) observe_frame(2) [of c "?r4\<lparr>next_step := k\<rparr>", unfolded control_iff] by simp
  moreover have "run_interval c st i r =
      (if ok then if outcome_of (shared ?r4) = Completed then observe c (?r4\<lparr>next_step := next_step ?r4 + 1\<rparr>) else ?r4
       else r1)"
    by (cases ok) (simp_all only: run_interval_def w Let_def prod.case bool.case if_True if_False)
  ultimately show ?thesis using r1 cl1 r4 by simp
qed

lemma settled_advance:
  assumes r: "settled r" and tr: "on_track r"
  shows "settled (snd (advance c ctx st r))"
proof (cases "check_owner ctx r \<and> \<not> closed r")
  case True
  let ?l = "locked r"
  let ?r2 = "case grant c st ?l of (None, r) \<Rightarrow> r | (Some i, r) \<Rightarrow> run_interval c st i r"
  let ?r3 = "locked ?r2"
  let ?r4 = "on_shared (\<lambda>s. s\<lparr>report := (report s)\<lparr>schedule_completed := True\<rparr>\<rparr>) (locked ?r3)"
  have l: "settled ?l" "on_track ?l" by (rule settled_locked [OF r], rule on_track_locked [OF tr])
  have "settled ?r2" if out: "outcome_of (shared ?l) = Completed"
  proof -
    obtain w r' where g: "grant c st ?l = (w, r')" by fastforce
    then have r': "settled r'" using settled_grant l by blast
    show ?thesis
    proof (cases w)
      case (Some i)
      note s = grant_Some_track [OF l(2) out g [unfolded Some]]
      have "\<not> closed r'" using s(3) True by (simp add: control_iff)
      then show ?thesis using settled_run_interval [OF r' _ s(1)] g Some by simp
    qed (use r' g in simp)
  qed
  then have r3: "settled ?r3" "settled (locked ?r3)" if "outcome_of (shared ?l) = Completed"
    using that settled_locked by simp_all
  then have r4: "settled ?r4" if "outcome_of (shared ?l) = Completed"
    using that by (intro settled_on_shared) simp_all
  show ?thesis unfolding advance_def Let_def using r l r3 r4 settled_cleanup by auto
next
  case False
  then show ?thesis using r by (auto simp: advance_def)
qed

lemma settled_finish:
  assumes r: "settled r"
  shows "settled (snd (finish ctx r))"
  unfolding finish_def Let_def using r settled_locked settled_fail settled_cleanup by auto

section \<open>Starting settles, dropping too\<close>

lemma settled_spawn_one:
  assumes "settled r" and "\<not> closed r" and "length (handles r) < length (workers r)"
  shows "settled (r\<lparr>handles := handles r @ [True], workers := (workers r)[length (handles r) := Spawned]\<rparr>)"
  using assms by (auto simp: settled_def nth_append nth_list_update)

lemma settled_spawn:
  "settled r \<Longrightarrow> \<not> closed r \<Longrightarrow> n = length (workers r) \<Longrightarrow>
     settled (spawn_workers e [length (handles r)..<n] r)"
proof (induction "n - length (handles r)" arbitrary: r)
  case (Suc k)
  let ?l = "locked r"
  let ?s = "?l\<lparr>handles := handles ?l @ [True], workers := (workers ?l)[length (handles ?l) := Spawned]\<rparr>"
  have len: "length (workers ?l) = length (workers r)" using locked_pcs [of r] by (simp add: list_all2_lengthD)
  have more: "length (handles r) < n" using Suc(2) by simp
  have l: "settled ?l" by (rule settled_locked [OF Suc(3)])
  have s: "settled ?s" using settled_spawn_one [OF l] Suc(4,5) more len by simp
  have "settled (spawn_workers e [length (handles ?s)..<n] ?s)"
    by (rule Suc(1)) (use Suc(2,4,5) s len in simp_all)
  moreover have "[length (handles r)..<n] = length (handles r) # [Suc (length (handles r))..<n]"
    using more by (simp add: upt_conv_Cons)
  ultimately show ?case
    using settled_fail [OF l] by (simp add: Let_def split: option.split)
qed simp

lemma settled_made:
  "settled (manned ad names (initial_run e ctx sch ad p k bs))"
  "settled (made ad names (initial_run e ctx sch ad p k bs))"
  by (auto simp: settled_def manned_def made_def initial_run_def initial_report_def workers_error_def Let_def)

lemma settled_start: "settled (start_schedule c e ctx sch ad p k bs)"
proof -
  have refused: "settled (refuse out d (initial_run e ctx sch ad p k bs))" for out d
    by (simp add: settled_def refuse_def on_shared_def initial_run_def initial_report_def)
  have "settled (locked (awaited c e (spawn_workers e [0..<length (adapter_actors ad)]
      (manned ad names (initial_run e ctx sch ad p k bs)))))" for names
  proof -
    let ?m = "manned ad names (initial_run e ctx sch ad p k bs)"
    have "handles ?m = []" "\<not> closed ?m" "length (workers ?m) = length (adapter_actors ad)"
      by (simp_all add: manned_def made_def initial_run_def on_shared_def)
    then have s: "settled (spawn_workers e [0..<length (adapter_actors ad)] ?m)"
      using settled_spawn [OF settled_made(1) _ refl, of ad names e ctx sch p k bs e] by simp
    have "settled (awaited c e (spawn_workers e [0..<length (adapter_actors ad)] ?m))"
      using settled_wait_for [OF s] settled_observe
      by (auto simp: awaited_def split: prod.split bool.split) (metis snd_conv)+
    then show ?thesis by (rule settled_locked)
  qed
  then show ?thesis
    unfolding start_stages Let_def
    using refused settled_made(2) settled_cleanup
    by (auto split: option.split created.split sum.split prod.split)
qed

text \<open>The environment of a dropped execution lets its threads end, or dropping does not return.\<close>

lemma join_forever_settles:
  "join_forever r = Some r' \<Longrightarrow> settled r \<Longrightarrow>
     closed r' = closed r \<and> program r' = program r \<and> teardowns r' = teardowns r
     \<and> (\<forall>pc \<in> set (workers r'). pc = Exited \<or> pc = Unspawned) \<and> True \<notin> set (handles r')"
proof (induction r rule: join_forever.induct)
  case (1 r)
  show ?case
  proof (cases "all_finished r")
    case True
    have nth: "workers r ! i = Exited \<or> workers r ! i = Unspawned" if "i < length (workers r)" for i
    proof (cases "i < length (handles r)")
      case i: True
      then have "handles r ! i \<longrightarrow> workers r ! i = Exited" using True by (simp add: all_finished_def list_all_iff)
      then show ?thesis using i 1(3) by (auto simp: settled_def)
    next
      case False
      then show ?thesis using that 1(3) by (simp add: settled_def)
    qed
    have "\<forall>pc \<in> set (workers r). pc = Exited \<or> pc = Unspawned"
      unfolding all_set_conv_all_nth using nth by blast
    then show ?thesis
      using 1(2) True by (subst (asm) join_forever.simps) auto
  next
    case False
    then show ?thesis
      using 1 settled_locked [OF 1(3)]
      by (subst (asm) join_forever.simps) (auto split: if_splits)
  qed
qed

section \<open>What an execution guarantees\<close>

text \<open>
  An execution in the hands of its caller: started, advanced, finished, cleaned up and asked for its
  report by any calls in any order, against any environment.
\<close>

inductive operated :: "codec \<Rightarrow> schedule \<Rightarrow> adapter \<Rightarrow> run \<Rightarrow> bool"
  for c :: codec and sch :: schedule and ad :: adapter where
  started: "operated c sch ad (start_schedule c e ctx sch ad p k bs)"
| advanced: "operated c sch ad r \<Longrightarrow> operated c sch ad (snd (advance c ctx st r))"
| finished: "operated c sch ad r \<Longrightarrow> operated c sch ad (snd (finish ctx r))"
| cleaned: "operated c sch ad r \<Longrightarrow> operated c sch ad (snd (cleanup_run ctx t r))"
| reported: "operated c sch ad r \<Longrightarrow> operated c sch ad (locked r)"

lemma operated_inv:
  "operated c sch ad r \<Longrightarrow> on_track r \<and> settled r
     \<and> run_schedule_of r = sch \<and> declarations r = adapter_actors ad \<and> checkpoints r = adapter_checkpoints ad"
proof (induction rule: operated.induct)
  case (started e ctx p k bs)
  have "fixed (start_schedule c e ctx sch ad p k bs) = fixed (initial_run e ctx sch ad p k bs)"
    using start_track by blast
  then have "run_schedule_of (start_schedule c e ctx sch ad p k bs) = sch
      \<and> declarations (start_schedule c e ctx sch ad p k bs) = adapter_actors ad
      \<and> checkpoints (start_schedule c e ctx sch ad p k bs) = adapter_checkpoints ad"
    by (simp add: fixed_iff initial_run_def)
  then show ?case using start_track settled_start by blast
next
  case (advanced r ctx st)
  then show ?case using advance_track [of r c ctx st] settled_advance [of r c ctx st] by (simp add: fixed_iff)
next
  case (finished r ctx)
  then show ?case using finish_track [of r ctx] settled_finish [of r ctx] by (simp add: fixed_iff)
next
  case (cleaned r ctx t)
  then show ?case using cleanup_track [of r ctx t] settled_cleanup [of r ctx t] by (simp add: fixed_iff)
next
  case (reported r)
  then show ?case using on_track_locked settled_locked by simp
qed

lemma operated_advance_all:
  "operated c sch ad r \<Longrightarrow> operated c sch ad (advance_all c ctx ss r)"
proof (induction ss arbitrary: r)
  case (Cons s ss)
  then show ?case using reported advanced by (auto simp: Let_def)
qed simp

lemma operated_run_schedule: "operated c sch ad (run_schedule c e ctx sch ad p k bs)"
  unfolding run_schedule_def Let_def by (intro operated_advance_all started)

lemma reachable_drop:
  assumes "reachable (checkpoints r) (cfg r)" and "drop_execution r = Some r'"
  shows "reachable (checkpoints r') (cfg r')"
proof -
  have join: "reachable (checkpoints y) (cfg y)"
    if "join_forever x = Some y" "reachable (checkpoints x) (cfg x)" for x y
    using that
  proof (induction x rule: join_forever.induct)
    case (1 x)
    then show ?case
      using path_reachable [OF path_locked, of x]
      by (subst (asm) (2) join_forever.simps) (auto split: if_splits)
  qed
  let ?s = "on_shared (\<lambda>s. s\<lparr>stopping := True\<rparr>) (locked r)"
  have "reachable (checkpoints ?s) (cfg ?s)"
    using path_reachable [OF path_locked assms(1)] reachable.step [OF _ sched_step.Stop] by auto
  then show ?thesis using join assms(2) by (auto simp: drop_execution_def)
qed

definition in_application :: "worker_pc \<Rightarrow> bool" where
  "in_application pc \<longleftrightarrow> (case pc of InUser \<Rightarrow> True | Ending _ \<Rightarrow> True | _ \<Rightarrow> False)"

lemma in_application_running:
  "pc_fits False ph pc \<Longrightarrow> in_application pc \<Longrightarrow> ph = Running"
  by (auto simp: in_application_def pc_fits_def split: worker_pc.splits)

text \<open>
  C18. Mutual exclusion: at no point of any interleaving of the workers and the controller are two
  workers inside the application's code, unless the execution is being stopped.
\<close>

theorem workers_exclude:
  assumes "reachable cps (s, ws)" and "\<not> stopping s"
    and "i < length ws" "in_application (ws ! i)" and "j < length ws" "in_application (ws ! j)"
  shows "i = j"
proof -
  have ok: "sched_ok (s, ws)" by (rule reachable_ok [OF assms(1)])
  have "phase (actors s ! k) = Running" if "k < length ws" "in_application (ws ! k)" for k
    using sched_ok_fits [OF ok that(1)] in_application_running [OF _ that(2)] assms(2) by simp
  then have "phase (actors s ! i) = Running" "phase (actors s ! j) = Running" using assms by blast+
  then show ?thesis using ok assms by (auto simp: sched_ok_def one_running_def)
qed

text \<open>
  C19. The controller takes part in that interleaving: whatever the calls on an execution and whatever
  its environment, the shared state and the threads are always reachable by steps of workers, permits
  given when nobody runs, joins of ended threads, failures, stops and writes to the report; running
  a whole schedule is such a sequence of calls, and dropping an execution stays within it too.
\<close>

theorem executions_interleave:
  "(operated c sch ad r \<longrightarrow>
      reachable (checkpoints r) (cfg r)
      \<and> (\<forall>r'. drop_execution r = Some r' \<longrightarrow> reachable (checkpoints r') (cfg r')))
   \<and> operated c sch ad (run_schedule c e ctx sch ad p k bs)"
  using operated_inv reachable_drop operated_run_schedule unfolding on_track_def by blast

lemma operated_passed:
  assumes "operated c sch ad r" and "passed (report (shared r))"
  shows "next_step r = length (steps sch)
    \<and> events (report (shared r)) = expected_events (adapter_actors ad) (steps sch) (length (steps sch))
    \<and> observed_after (observations (report (shared r))) = map json_nat [0..<Suc (length (steps sch))]"
proof -
  have r: "on_track r" "run_schedule_of r = sch" "declarations r = adapter_actors ad"
    using operated_inv [OF assms(1)] by blast+
  have "outcome_of (shared r) = Completed" "schedule_completed (report (shared r))"
    using assms(2) by (simp_all add: passed_def)
  then show ?thesis using on_trackD(1) [OF r(1)] r(2,3) by (auto simp: logged_def)
qed

text \<open>
  C20. A passed report is exact evidence: every interval of the schedule was performed, the retained
  events are one permit and one arrival per interval in the order of the schedule, each permit at the
  checkpoint where the actor's interval before it ended, and the state was observed before the first
  and after every interval, once.
\<close>

theorem passed_evidence:
  assumes "operated c sch ad r" and "passed (report (shared r))"
  shows "next_step r = length (steps sch)
    \<and> events (report (shared r)) = expected_events (adapter_actors ad) (steps sch) (length (steps sch))
    \<and> observed_after (observations (report (shared r))) = map json_nat [0..<Suc (length (steps sch))]"
  by (rule operated_passed [OF assms])

text \<open>
  C21. Orderly closing: the program is torn down at most once, when the execution is closed and every
  thread ever spawned is gone, and a report only passes once that has happened.
\<close>

theorem closed_orderly:
  assumes "operated c sch ad r"
  shows "teardowns r = (if closed r \<and> program r then 1 else 0)
    \<and> (closed r \<longrightarrow> (\<forall>pc \<in> set (workers r). pc = Exited \<or> pc = Unspawned))
    \<and> (passed (report (shared r)) \<longrightarrow> closed r \<and> teardowns r = 1)"
proof -
  have s: "settled r" using operated_inv [OF assms] by blast
  have "workers r ! i = Exited \<or> workers r ! i = Unspawned" if "closed r" "i < length (workers r)" for i
  proof (cases "i < length (handles r)")
    case True
    then have "\<not> handles r ! i" using s that by (auto simp: settled_def in_set_conv_nth)
    then show ?thesis using s True by (auto simp: settled_def)
  qed (use s that in \<open>simp add: settled_def\<close>)
  then have "\<forall>pc \<in> set (workers r). pc = Exited \<or> pc = Unspawned" if "closed r"
    unfolding all_set_conv_all_nth using that by blast
  then show ?thesis using s by (auto simp: settled_def passed_def)
qed

section \<open>A run that passes\<close>

definition sample_adapter :: adapter where
  "sample_adapter =
     \<lparr>adapter_identity = sample_identity, adapter_actors = [\<lparr>decl_actor = ''w'', operation = ''op''\<rparr>],
      adapter_checkpoints = []\<rparr>"

text \<open>Workers that do what they are permitted to, in every batch.\<close>

definition calm :: batch where
  "calm = \<lparr>b_events = [(0, WStart 1), (0, WWake), (0, WReturn (CallOk JNull)), (0, WEnd)],
     b_cancel = False, b_expire = False, b_cleanup_expire = False, b_observe = CallOk (JObject [(''x'', JBool True)]),
     b_teardown = CallOk JNull, b_join_panics = False\<rparr>"

definition sample_env :: start_env where
  "sample_env = \<lparr>factory = (\<lambda>_. FactoryOk [''w'']), spawn_error = (\<lambda>_. None),
     next_generation = 1, fresh_id = replicate 32 (CHR ''a'')\<rparr>"

definition sample_caller :: caller where
  "sample_caller = \<lparr>caller_thread = 0, in_callback = False\<rparr>"

definition sample_run :: run where
  "sample_run = run_schedule sample_codec sample_env sample_caller sample_schedule sample_adapter
     policy_default False (replicate 20 calm)"

lemma admit_sample: "admit sample_codec sample_schedule sample_adapter policy_default = Inr ()"
proof -
  have "policy_valid policy_default" "identity_valid sample_identity" by code_simp+
  moreover have "is_identifier ''w''" "is_identifier ''op''" by code_simp+
  moreover have "steps_admissible {''w''} {} (steps sample_schedule)"
    by (auto simp: steps_admissible_def sample_schedule_def schedule_new_def step_new_def)
  ultimately have "admissible sample_schedule sample_adapter policy_default"
    by (simp add: admissible_def sample_adapter_def sample_schedule_def schedule_new_def policy_default_def)
  then show ?thesis using encode_sample_schedule by (simp add: admit_accepts)
qed

lemma sample_parts:
  "in_callback sample_caller = False" "factory sample_env x = FactoryOk [''w'']"
  by (simp_all add: sample_caller_def sample_env_def)

definition sample_started :: "batch list \<Rightarrow> run" where
  "sample_started bs =
     (let r0 = initial_run sample_env sample_caller sample_schedule sample_adapter policy_default False bs;
          r1 = made sample_adapter [''w''] r0
      in if outcome_of (shared r1) \<noteq> Completed
         then snd (cleanup_run sample_caller (cleanup_timeout policy_default) r1)
         else
           (let r5 = locked (awaited sample_codec sample_env
                  (spawn_workers sample_env [0..<length (adapter_actors sample_adapter)]
                    (manned sample_adapter [''w''] r0)))
            in if outcome_of (shared r5) \<noteq> Completed
               then snd (cleanup_run sample_caller (cleanup_timeout policy_default) r5) else r5))"

lemma sample_start:
  "start_schedule sample_codec sample_env sample_caller sample_schedule sample_adapter policy_default False bs
     = sample_started bs"
  by (simp only: start_stages admit_sample sample_parts Let_def sample_started_def if_False sum.case
      option.case created.case)

text \<open>The run, lock by lock: the permit, the wait, the arrival, the observation and the closing.\<close>

definition sample_step :: step where
  "sample_step = step_new ''w'' completion"

definition sample_begun :: run where
  "sample_begun = locked (sample_started (replicate 20 calm))"

definition sample_granted :: run where
  "sample_granted = snd (grant sample_codec sample_step (locked sample_begun))"

definition sample_waited :: run where
  "sample_waited = snd (wait_for (\<lambda>s. phase (actors s ! 0) \<noteq> Running) sample_granted)"

definition sample_arrival :: run where
  "sample_arrival = record_arrival sample_codec sample_step 0 (locked sample_waited)"

definition sample_joined :: run where
  "sample_joined = locked (join_worker 0 sample_arrival)"

definition sample_observed :: run where
  "sample_observed = locked (observe sample_codec (sample_joined\<lparr>next_step := next_step sample_joined + 1\<rparr>))"

definition sample_closed :: run where
  "sample_closed = snd (cleanup_run sample_caller (cleanup_timeout policy_default)
     (on_shared (\<lambda>s. s\<lparr>report := (report s)\<lparr>schedule_completed := True\<rparr>\<rparr>) (locked sample_observed)))"

lemma sample_facts:
  "check_owner sample_caller sample_begun" "closed sample_begun = False"
  "outcome_of (shared sample_begun) = Completed" "outcome_of (shared (locked sample_begun)) = Completed"
  "fst (grant sample_codec sample_step (locked sample_begun)) = Some 0"
  "fst (wait_for (\<lambda>s. phase (actors s ! 0) \<noteq> Running) sample_granted) = True"
  "phase (actors (shared sample_arrival) ! 0) = Finished"
  "outcome_of (shared sample_joined) = Completed"
  "outcome_of (shared sample_observed) = Completed"
  "next_step sample_observed = length (steps (run_schedule_of sample_observed))"
  "run_policy sample_observed = policy_default"
  by code_simp+

lemma sample_interval: "run_interval sample_codec sample_step 0 sample_granted
    = observe sample_codec (sample_joined\<lparr>next_step := next_step sample_joined + 1\<rparr>)"
proof -
  have w: "wait_for (\<lambda>s. phase (actors s ! 0) \<noteq> Running) sample_granted = (True, sample_waited)"
    using sample_facts(6) by (simp add: sample_waited_def prod_eq_iff)
  show ?thesis
    unfolding run_interval_def w Let_def prod.case bool.case sample_arrival_def [symmetric]
    by (simp only: sample_facts if_True simp_thms sample_joined_def [symmetric])
qed

lemma sample_advance: "snd (advance sample_codec sample_caller sample_step sample_begun) = sample_closed"
proof -
  have g: "grant sample_codec sample_step (locked sample_begun) = (Some 0, sample_granted)"
    using sample_facts(5) by (simp add: sample_granted_def prod_eq_iff)
  show ?thesis
    unfolding advance_def Let_def g prod.case option.case sample_interval
      sample_observed_def [symmetric]
    by (simp only: sample_facts sample_closed_def on_shared_fields locked_fields
        if_True if_False not_False_eq_True not_True_eq_False simp_thms)
qed

lemma sample_run_eq: "sample_run = sample_closed"
proof -
  have "steps (run_schedule_of (sample_started (replicate 20 calm))) = [sample_step]" by code_simp
  then show ?thesis
    using sample_advance sample_facts
    by (simp add: sample_run_def run_schedule_def sample_start sample_begun_def [symmetric] Let_def)
qed

lemma sample_closed_passes: "passed (report (shared sample_closed))" "closed sample_closed"
  by code_simp+

lemma sample_operated: "operated sample_codec sample_schedule sample_adapter sample_closed"
  using operated_run_schedule unfolding sample_run_eq [symmetric] sample_run_def .

theorem executions_interleave_witness:
  "closed sample_closed \<and> reachable (checkpoints sample_closed) (cfg sample_closed)"
  using executions_interleave [of sample_codec sample_schedule sample_adapter sample_closed]
    sample_operated sample_closed_passes(2) by blast

theorem passed_evidence_witness:
  "observed_after (observations (report (shared sample_closed))) = map json_nat [0, 1]"
  using passed_evidence [OF sample_operated sample_closed_passes(1)]
  by (simp add: sample_schedule_def schedule_new_def)

theorem closed_orderly_witness: "teardowns sample_closed = 1"
  using closed_orderly [OF sample_operated] sample_closed_passes(1) by blast

text \<open>Two actors, the first at work.\<close>

definition pair_actors :: "actor_declaration list" where
  "pair_actors = [\<lparr>decl_actor = ''v'', operation = ''op''\<rparr>, \<lparr>decl_actor = ''w'', operation = ''oq''\<rparr>]"

definition pair_start :: sched where
  "pair_start = \<lparr>actors = map new_actor pair_actors, stopping = False, report = initial_report sample_env,
     evidence_bytes = 0\<rparr>"

definition pair_ready :: "sched \<times> worker_pc list" where
  "pair_ready = worker_events [] [(0, WStart 1), (1, WStart 2)] (pair_start, [Spawned, Spawned])"

definition pair_busy :: "sched \<times> worker_pc list" where
  "pair_busy = worker_events [] [(0, WWake)]
     (set_actor 0 (\<lambda>a. a\<lparr>phase := Running\<rparr>) (fst pair_ready), snd pair_ready)"

lemma pair_reachable: "reachable [] (fst pair_busy, snd pair_busy)"
proof -
  have "reachable [] (pair_start, map (\<lambda>_. Unspawned) pair_actors)"
    by (rule reachable.init) (simp_all add: pair_start_def initial_report_def)
  then have "reachable [] (pair_start, [Unspawned, Unspawned])" by (simp add: pair_actors_def)
  from reachable.step [OF this sched_step.Spawn [where i = 0]]
  have "reachable [] (pair_start, [Spawned, Unspawned])" by simp
  from reachable.step [OF this sched_step.Spawn [where i = 1]]
  have "reachable [] (pair_start, [Spawned, Spawned])" by simp
  then have "reachable [] (fst pair_ready, snd pair_ready)"
    unfolding pair_ready_def prod.collapse by (rule reachable_steps [OF worker_events_steps])
  moreover have "0 < length (actors (fst pair_ready)) \<and> phase (actors (fst pair_ready) ! 0) = Parked"
    "list_all (\<lambda>a. phase a \<noteq> Running) (actors (fst pair_ready))"
    by code_simp+
  ultimately have "reachable [] (set_actor 0 (\<lambda>a. a\<lparr>phase := Running\<rparr>) (fst pair_ready), snd pair_ready)"
    by (auto intro: reachable.step [OF _ sched_step.Permit] simp: nobody_runs_def list_all_iff)
  then show ?thesis
    unfolding pair_busy_def prod.collapse by (rule reachable_steps [OF worker_events_steps])
qed

theorem workers_exclude_witness:
  "snd pair_busy ! 0 = InUser \<and> \<not> in_application (snd pair_busy ! 1)"
proof -
  have "snd pair_busy ! 0 = InUser" "\<not> stopping (fst pair_busy)" "length (snd pair_busy) = 2" by code_simp+
  moreover from this have "in_application (snd pair_busy ! 0)" by (simp add: in_application_def)
  ultimately show ?thesis using workers_exclude [OF pair_reachable, of 1 0] by auto
qed

end
