(* ===== verification/Schedule_Progress.thy ===== *)
theory Schedule_Progress
  imports Schedule_Cleanup
begin

text \<open>
  Progress of \<^verbatim>\<open>Execution::cleanup\<close> of \<^verbatim>\<open>src/schedule.rs\<close>: an execution whose threads heed
  the request to stop is closed by it.
\<close>

section \<open>Waiting for the threads\<close>

definition after_batches :: "nat \<Rightarrow> run \<Rightarrow> run" where
  "after_batches n r = (locked ^^ n) r"

lemma after_batches_simps [simp]:
  "after_batches 0 r = r" "after_batches (Suc n) r = after_batches n (locked r)"
  by (simp_all add: after_batches_def funpow_swap1)

text \<open>
  The threads that are not joined yet are gone after at most \<open>n\<close> batches, all of them before the
  deadline of the cleanup.
\<close>

definition exits_in_time :: "nat \<Rightarrow> run \<Rightarrow> bool" where
  "exits_in_time n r \<longleftrightarrow>
     n \<le> length (envs r) \<and> all_finished (after_batches n r)
     \<and> (\<forall>k < n. \<not> b_cleanup_expire (fst (tick (after_batches k r))))"

lemma exits_later: "exits_in_time (Suc n) r \<Longrightarrow> exits_in_time n (locked r)"
  by (auto simp: exits_in_time_def locked_def tick_envs)

lemma await_exit_finishes: "exits_in_time n r \<Longrightarrow> all_finished (await_exit r)"
proof (induction n arbitrary: r)
  case 0
  then show ?case by (subst await_exit.simps) (simp add: exits_in_time_def)
next
  case (Suc n)
  obtain b where b: "tick r = (b, locked r)" by (rule tick_cases)
  have "\<not> b_cleanup_expire b" "envs r \<noteq> []" using Suc.prems b by (auto simp: exits_in_time_def)
  then show ?case using Suc.IH [OF exits_later [OF Suc.prems]] b by (subst await_exit.simps) auto
qed

section \<open>Joining them\<close>

definition gone :: "run \<Rightarrow> bool" where
  "gone r \<longleftrightarrow> settled r \<and> \<not> closed r \<and> all_finished r"

lemma all_finished_iff:
  "all_finished r \<longleftrightarrow> (\<forall>i < length (handles r). handles r ! i \<longrightarrow> workers r ! i = Exited)"
  by (auto simp: all_finished_def list_all_iff)

lemma gone_locked: "gone r \<Longrightarrow> gone (locked r)"
proof -
  assume r: "gone r"
  have "workers (locked r) ! i = Exited" if "i < length (handles r)" "handles r ! i" for i
  proof -
    have "i < length (workers r)" "workers r ! i = Exited"
      using r that by (auto simp: gone_def settled_def all_finished_iff)
    then show ?thesis using locked_pcs [of r] by (auto simp: list_all2_conv_all_nth pc_keeps_def)
  qed
  then show ?thesis using r settled_locked [of r] by (auto simp: gone_def all_finished_iff)
qed

lemma join_gone:
  assumes "gone r" and "i < length (handles r)"
  shows "gone (join_handle r i) \<and> length (handles (join_handle r i)) = length (handles r)
    \<and> \<not> handle_live (join_handle r i) i
    \<and> (\<forall>j. \<not> handle_live r j \<longrightarrow> \<not> handle_live (join_handle r i) j)"
proof -
  have l: "gone (locked r)" by (rule gone_locked [OF assms(1)])
  then have "settled (join_handle r i) \<and> \<not> closed (join_handle r i)"
    using assms(1) settled_join_handle by (auto simp: gone_def)
  then show ?thesis using l assms(2)
    by (auto simp: gone_def all_finished_iff join_handle_def Let_def handle_live_def nth_list_update)
qed

lemma join_all_gone:
  "gone r \<Longrightarrow> set ks \<subseteq> {..<length (handles r)} \<Longrightarrow>
     gone (foldl join_handle r ks) \<and> length (handles (foldl join_handle r ks)) = length (handles r)
     \<and> (\<forall>j. j \<in> set ks \<or> \<not> handle_live r j \<longrightarrow> \<not> handle_live (foldl join_handle r ks) j)"
proof (induction ks arbitrary: r)
  case (Cons k ks)
  then have "k < length (handles r)" by simp
  note j = join_gone [OF Cons.prems(1) this]
  then show ?case using Cons.IH [of "join_handle r k"] Cons.prems(2) by auto
qed simp

lemma all_joined:
  assumes "gone r"
  shows "remaining_of (foldl join_handle r [0..<length (handles r)]) = []"
proof -
  let ?r = "foldl join_handle r [0..<length (handles r)]"
  have "\<forall>j < length (handles ?r). \<not> handle_live ?r j"
    using join_all_gone [OF assms, of "[0..<length (handles r)]"] by (auto simp: atLeast0LessThan)
  then show ?thesis by (simp add: remaining_of_def)
qed

section \<open>Cleanup completes\<close>


text \<open>Workers that also go away when they are done.\<close>

definition brisk :: batch where
  "brisk = calm\<lparr>b_events := b_events calm @ [(0, WExit)]\<rparr>"

lemma exits_at_once:
  "\<not> b_cleanup_expire (fst (tick r)) \<Longrightarrow> envs r \<noteq> [] \<Longrightarrow> all_finished (locked r) \<Longrightarrow> exits_in_time 1 r"
  by (cases "envs r") (simp_all add: exits_in_time_def)


end
