(* ===== verification/Exploration_Order.thy ===== *)
theory Exploration_Order
  imports Schedule
begin

text \<open>
  \<^verbatim>\<open>src/schedule_exploration.rs\<close>, the enumerator: a depth-first search over the orders in which
  the chains of checkpoints of several actors can be interleaved, with a bound on preemptions and a
  cap on the number of schedules, against the set of interleavings it is meant to list.
\<close>

section \<open>The enumerator\<close>

record actor_chain =
  chain_actor :: actor_declaration
  chain_checkpoints :: "string list"

record enumeration =
  shapes :: "step list list"
  exhausted :: bool
  reason :: string

text \<open>The fields the search changes; \<open>polls\<close> counts the looks at the clock and the cancellation.\<close>

record enumerator =
  positions :: "nat list"
  current :: "step list"
  result :: enumeration
  polls :: nat

text \<open>
  What a look shows: cancelled, past the deadline, and cancelled when looked at again for the reason.
\<close>

type_synonym look = "bool \<times> bool \<times> bool"

definition look_stops :: "look \<Rightarrow> string option" where
  "look_stops l =
     (case l of (cancelled, late, cancelled') \<Rightarrow>
        if cancelled \<or> late then Some (if cancelled' then ''cancelled'' else ''time_budget'') else None)"

text \<open>The fields that stay: the actors, the number of steps, the bounds, and the looks to come.\<close>

record search =
  s_actors :: "actor_chain list"
  s_length :: nat
  s_bound :: nat
  s_cap :: nat
  s_looks :: "nat \<Rightarrow> look"

definition stop_with :: "string \<Rightarrow> enumerator \<Rightarrow> enumerator" where
  "stop_with why st = st\<lparr>result := (result st)\<lparr>exhausted := False, reason := why\<rparr>\<rparr>"

text \<open>1 when continuing with actor \<open>i\<close> preempts the one before it.\<close>

definition preempts :: "search \<Rightarrow> nat list \<Rightarrow> nat option \<Rightarrow> nat \<Rightarrow> nat" where
  "preempts e ps prior i =
     (case prior of
        None \<Rightarrow> 0
      | Some p \<Rightarrow> if p \<noteq> i \<and> ps ! p < length (chain_checkpoints (s_actors e ! p)) then 1 else 0)"

definition take_step :: "search \<Rightarrow> nat \<Rightarrow> enumerator \<Rightarrow> enumerator" where
  "take_step e i st =
     (let at = positions st ! i; chain = s_actors e ! i
      in st\<lparr>positions := (positions st)[i := at + 1],
            current := current st @ [step_new (decl_actor (chain_actor chain)) (chain_checkpoints chain ! at)]\<rparr>)"

definition undo_step :: "nat \<Rightarrow> enumerator \<Rightarrow> enumerator" where
  "undo_step i st =
     st\<lparr>positions := (positions st)[i := positions st ! i - 1], current := butlast (current st)\<rparr>"

text \<open>
  The search, and its loop over the actors.  The first argument bounds the depth by the steps that are
  left, so it never stops the search.
\<close>

function (sequential) visit :: "nat \<Rightarrow> search \<Rightarrow> nat option \<Rightarrow> nat \<Rightarrow> enumerator \<Rightarrow> enumerator"
  and visit_actors :: "nat \<Rightarrow> search \<Rightarrow> nat list \<Rightarrow> nat option \<Rightarrow> nat \<Rightarrow> enumerator \<Rightarrow> enumerator" where
  "visit left e prior preemptions st0 =
     (if \<not> exhausted (result st0) then st0
      else
        (let st = st0\<lparr>polls := polls st0 + 1\<rparr>
         in case look_stops (s_looks e (polls st0)) of
              Some why \<Rightarrow> stop_with why st
            | None \<Rightarrow>
                if length (current st) = s_length e then
                  (if length (shapes (result st)) = s_cap e then stop_with ''enumeration_limit'' st
                   else st\<lparr>result := (result st)\<lparr>shapes := shapes (result st) @ [current st]\<rparr>\<rparr>)
                else if left = 0 then st
                else visit_actors (left - 1) e [0..<length (s_actors e)] prior preemptions st))"
| "visit_actors left e [] prior preemptions st = st"
| "visit_actors left e (i # rest) prior preemptions st =
     (let extra = preempts e (positions st) prior i
      in if positions st ! i = length (chain_checkpoints (s_actors e ! i)) then
           visit_actors left e rest prior preemptions st
         else if preemptions + extra > s_bound e then
           visit_actors left e rest prior preemptions st
         else
           (let st' = undo_step i (visit left e (Some i) (preemptions + extra) (take_step e i st))
            in if \<not> exhausted (result st') then st'
               else visit_actors left e rest prior preemptions st'))"
  by pat_completeness auto
termination
  by (relation "inv_image (less_than <*lex*> less_than)
      (\<lambda>x. case x of Inl (left, _, _, _, _) \<Rightarrow> (left, 0) | Inr (left, _, is, _, _, _) \<Rightarrow> (left, Suc (length is)))")
    auto

declare visit.simps [simp del] visit_actors.simps(2) [simp del]

definition enumerate :: "search \<Rightarrow> enumeration" where
  "enumerate e =
     result (visit (s_length e) e None 0
       \<lparr>positions = replicate (length (s_actors e)) 0, current = [],
        result = \<lparr>shapes = [], exhausted = True, reason = []\<rparr>, polls = 0\<rparr>)"

section \<open>The interleavings\<close>

text \<open>
  An interleaving is a word of actor numbers in which every actor occurs once per checkpoint of its
  chain.  An actor is preempted where another one follows it although it occurs again later.
\<close>

definition interleaving :: "actor_chain list \<Rightarrow> nat list \<Rightarrow> bool" where
  "interleaving as w \<longleftrightarrow>
     set w \<subseteq> {0..<length as} \<and> (\<forall>i < length as. count_list w i = length (chain_checkpoints (as ! i)))"

fun preemptions :: "nat list \<Rightarrow> nat" where
  "preemptions (i # j # w) = (if i \<noteq> j \<and> i \<in> set (j # w) then 1 else 0) + preemptions (j # w)"
| "preemptions w = 0"

text \<open>The steps a word stands for, from given positions in the chains.\<close>

fun steps_from :: "actor_chain list \<Rightarrow> nat list \<Rightarrow> nat list \<Rightarrow> step list" where
  "steps_from as ps [] = []"
| "steps_from as ps (i # w) =
     step_new (decl_actor (chain_actor (as ! i))) (chain_checkpoints (as ! i) ! (ps ! i))
     # steps_from as (ps[i := ps ! i + 1]) w"

text \<open>The search without its state: the words it lists, in order.\<close>

fun paths :: "nat \<Rightarrow> search \<Rightarrow> nat option \<Rightarrow> nat \<Rightarrow> nat list \<Rightarrow> nat list list" where
  "paths 0 e prior p ps = [[]]"
| "paths (Suc left) e prior p ps =
     concat (map (\<lambda>i. if ps ! i = length (chain_checkpoints (s_actors e ! i)) then []
                      else if p + preempts e ps prior i > s_bound e then []
                      else map ((#) i) (paths left e (Some i) (p + preempts e ps prior i) (ps[i := ps ! i + 1])))
       [0..<length (s_actors e)])"

section \<open>The search lists the words\<close>

text \<open>Adding schedules up to the cap.\<close>

definition absorb :: "nat \<Rightarrow> step list list \<Rightarrow> enumeration \<Rightarrow> enumeration" where
  "absorb cap new en =
     (if length (shapes en) + length new \<le> cap then en\<lparr>shapes := shapes en @ new\<rparr>
      else en\<lparr>shapes := shapes en @ take (cap - length (shapes en)) new, exhausted := False,
              reason := ''enumeration_limit''\<rparr>)"

lemma absorb_Nil [simp]: "length (shapes en) \<le> cap \<Longrightarrow> absorb cap [] en = en"
  by (simp add: absorb_def)

lemma absorb_bound: "length (shapes en) \<le> cap \<Longrightarrow> length (shapes (absorb cap new en)) \<le> cap"
  by (auto simp: absorb_def)

lemma absorb_exhausted:
  "exhausted en \<Longrightarrow> exhausted (absorb cap new en) \<longleftrightarrow> length (shapes en) + length new \<le> cap"
  by (simp add: absorb_def)

lemma absorb_append:
  assumes "exhausted en" and "length (shapes en) \<le> cap"
  shows "absorb cap (a @ b) en =
    (if exhausted (absorb cap a en) then absorb cap b (absorb cap a en) else absorb cap a en)"
  using assms by (auto simp: absorb_def)

definition calm_looks :: "search \<Rightarrow> bool" where
  "calm_looks e \<longleftrightarrow> (\<forall>k. look_stops (s_looks e k) = None)"

definition branch :: "nat \<Rightarrow> search \<Rightarrow> nat option \<Rightarrow> nat \<Rightarrow> nat list \<Rightarrow> nat \<Rightarrow> nat list list" where
  "branch left e prior p ps i =
     (if ps ! i = length (chain_checkpoints (s_actors e ! i)) then []
      else if p + preempts e ps prior i > s_bound e then []
      else map ((#) i) (paths left e (Some i) (p + preempts e ps prior i) (ps[i := ps ! i + 1])))"

lemma paths_branches: "paths (Suc left) e prior p ps = concat (map (branch left e prior p ps) [0..<length (s_actors e)])"
  by (simp add: branch_def [abs_def])

text \<open>The schedules a list of words adds after the current one.\<close>

definition added :: "search \<Rightarrow> enumerator \<Rightarrow> nat list list \<Rightarrow> step list list" where
  "added e st ws = map (\<lambda>w. current st @ steps_from (s_actors e) (positions st) w) ws"

lemma added_append: "added e st (a @ b) = added e st a @ added e st b"
  by (simp add: added_def)

lemma added_take_step:
  "added e (take_step e i st) ws = added e st (map ((#) i) ws)"
  by (simp add: added_def take_step_def Let_def)

lemma added_cong: "positions st' = positions st \<Longrightarrow> current st' = current st \<Longrightarrow> added e st' ws = added e st ws"
  by (simp add: added_def)

lemma undo_take_step:
  "i < length (positions st) \<Longrightarrow> undo_step i ((take_step e i st)\<lparr>result := r, polls := k\<rparr>) = st\<lparr>result := r, polls := k\<rparr>"
  by (cases st) (simp add: undo_step_def take_step_def Let_def)

lemma visit_lists:
  shows "calm_looks e \<Longrightarrow> exhausted (result st) \<Longrightarrow> length (positions st) = length (s_actors e) \<Longrightarrow>
      length (shapes (result st)) \<le> s_cap e \<Longrightarrow> length (current st) + left = s_length e \<Longrightarrow>
      \<exists>k. visit left e prior p st = st\<lparr>result := absorb (s_cap e) (added e st (paths left e prior p (positions st))) (result st),
        polls := k\<rparr>"
    and "calm_looks e \<Longrightarrow> exhausted (result st) \<Longrightarrow> length (positions st) = length (s_actors e) \<Longrightarrow>
      length (shapes (result st)) \<le> s_cap e \<Longrightarrow> length (current st) + Suc left = s_length e \<Longrightarrow>
      \<forall>i \<in> set rest. i < length (s_actors e) \<Longrightarrow>
      \<exists>k. visit_actors left e rest prior p st = st\<lparr>result := absorb (s_cap e)
          (added e st (concat (map (branch left e prior p (positions st)) rest))) (result st), polls := k\<rparr>"
proof (induction left e prior p st and left e rest prior p st rule: visit_visit_actors.induct)
  case (1 left e prior p st)
  let ?st = "st\<lparr>polls := polls st + 1\<rparr>"
  have look: "look_stops (s_looks e (polls st)) = None" using 1(2) by (simp add: calm_looks_def)
  show ?case
  proof (cases "length (current st) = s_length e")
    case True
    then have "left = 0" using 1(6) by simp
    then have "added e st (paths left e prior p (positions st)) = [current st]" by (simp add: added_def)
    then show ?thesis
      using 1(3,5) look True
      by (cases "length (shapes (result st)) = s_cap e")
        (auto simp: visit.simps Let_def stop_with_def absorb_def intro!: exI [of _ "Suc (polls st)"])
  next
    case False
    then obtain l where l: "left = Suc l" using 1(6) by (cases left) auto
    have "\<exists>k. visit_actors (left - 1) e [0..<length (s_actors e)] prior p ?st
        = ?st\<lparr>result := absorb (s_cap e) (added e ?st
            (concat (map (branch (left - 1) e prior p (positions ?st)) [0..<length (s_actors e)]))) (result ?st), polls := k\<rparr>"
      by (rule 1(1)) (use 1(2-6) look False l in simp_all)
    moreover have "visit left e prior p st = visit_actors (left - 1) e [0..<length (s_actors e)] prior p ?st"
      using 1(3) look False l by (simp add: visit.simps Let_def)
    moreover have "added e ?st ws = added e st ws" for ws by (rule added_cong) simp_all
    ultimately show ?thesis unfolding l paths_branches by simp
  qed
next
  case (2 left e prior p st)
  then show ?case by (auto simp: added_def intro!: exI [of _ "polls st"])
next
  case (3 left e i rest prior p st)
  let ?ps = "positions st" and ?x = "preempts e (positions st) prior i"
  let ?b = "branch left e prior p ?ps" and ?cap = "s_cap e"
  have i: "i < length (positions st)" using 3(7,10) by simp
  show ?case
  proof (cases "?ps ! i = length (chain_checkpoints (s_actors e ! i)) \<or> p + ?x > s_bound e")
    case True
    then have b: "?b i = []" by (auto simp: branch_def)
    have "visit_actors left e (i # rest) prior p st = visit_actors left e rest prior p st"
      using True by (auto simp: visit_actors.simps(2) Let_def)
    moreover have "\<exists>k. visit_actors left e rest prior p st = st\<lparr>result := absorb ?cap
        (added e st (concat (map ?b rest))) (result st), polls := k\<rparr>"
      using True 3 by (cases "?ps ! i = length (chain_checkpoints (s_actors e ! i))") simp_all
    ultimately show ?thesis by (simp add: b)
  next
    case False
    let ?t = "take_step e i st"
    have t: "positions ?t = ?ps[i := ?ps ! i + 1]" "result ?t = result st" "length (current ?t) = Suc (length (current st))"
      by (simp_all add: take_step_def Let_def)
    have b: "?b i = map ((#) i) (paths left e (Some i) (p + ?x) (positions ?t))"
      using False by (simp add: branch_def t)
    have "\<exists>k. visit left e (Some i) (p + ?x) ?t = ?t\<lparr>result := absorb ?cap
        (added e ?t (paths left e (Some i) (p + ?x) (positions ?t))) (result ?t), polls := k\<rparr>"
      by (rule 3(3) [OF refl]) (use False 3(5-9) t in simp_all)
    then obtain k where "visit left e (Some i) (p + ?x) ?t
        = ?t\<lparr>result := absorb ?cap (added e st (?b i)) (result st), polls := k\<rparr>"
      unfolding added_take_step b [symmetric] t(2) by blast
    then have st': "undo_step i (visit left e (Some i) (p + ?x) ?t)
        = st\<lparr>result := absorb ?cap (added e st (?b i)) (result st), polls := k\<rparr>" (is "_ = ?u")
      using undo_take_step [OF i] by simp
    have step: "visit_actors left e (i # rest) prior p st
        = (if \<not> exhausted (result ?u) then ?u else visit_actors left e rest prior p ?u)"
      using False by (simp add: visit_actors.simps(2) Let_def st')
    have split: "added e st (concat (map ?b (i # rest))) = added e st (?b i) @ added e st (concat (map ?b rest))"
      by (simp add: added_append)
    show ?thesis
    proof (cases "exhausted (result ?u)")
      case ex: True
      have "\<exists>k. visit_actors left e rest prior p ?u = ?u\<lparr>result := absorb ?cap
          (added e ?u (concat (map (branch left e prior p (positions ?u)) rest))) (result ?u), polls := k\<rparr>"
      proof (rule 3(4) [OF refl _ _ st' [symmetric]])
        show "length (shapes (result ?u)) \<le> ?cap" using 3(8) absorb_bound by simp
      qed (use False 3(5-10) ex in simp_all)
      moreover have "added e ?u ws = added e st ws" for ws by (rule added_cong) simp_all
      ultimately show ?thesis
        using step ex unfolding split absorb_append [OF 3(6,8)] by auto
    next
      case False
      then show ?thesis using step unfolding split absorb_append [OF 3(6,8)] by auto
    qed
  qed
qed

section \<open>The words are the interleavings\<close>

text \<open>The lengths of the chains, and what a word still has to contain from given positions.\<close>

abbreviation chain_length :: "search \<Rightarrow> nat \<Rightarrow> nat" where
  "chain_length e i \<equiv> length (chain_checkpoints (s_actors e ! i))"

definition remains :: "search \<Rightarrow> nat list \<Rightarrow> nat list \<Rightarrow> bool" where
  "remains e ps w \<longleftrightarrow>
     set w \<subseteq> {0..<length (s_actors e)}
     \<and> (\<forall>i < length (s_actors e). count_list w i = chain_length e i - ps ! i)"

definition placed_ok :: "search \<Rightarrow> nat list \<Rightarrow> bool" where
  "placed_ok e ps \<longleftrightarrow> length ps = length (s_actors e) \<and> (\<forall>i < length ps. ps ! i \<le> chain_length e i)"

definition left_over :: "search \<Rightarrow> nat list \<Rightarrow> nat" where
  "left_over e ps = (\<Sum>i < length (s_actors e). chain_length e i - ps ! i)"

definition preempted :: "nat option \<Rightarrow> nat list \<Rightarrow> nat" where
  "preempted prior w = (case prior of None \<Rightarrow> preemptions w | Some q \<Rightarrow> preemptions (q # w))"

lemma left_over_step:
  assumes "placed_ok e ps" and "i < length ps" and "ps ! i < chain_length e i"
  shows "left_over e ps = Suc (left_over e (ps[i := ps ! i + 1]))" and "placed_ok e (ps[i := ps ! i + 1])"
proof -
  let ?n = "length (s_actors e)" and ?ps = "ps[i := ps ! i + 1]"
  have i: "i \<in> {..<?n}" using assms by (simp add: placed_ok_def)
  have "(\<Sum>j \<in> {..<?n} - {i}. chain_length e j - ps ! j) = (\<Sum>j \<in> {..<?n} - {i}. chain_length e j - ?ps ! j)"
    by (rule sum.cong) auto
  moreover have "chain_length e i - ps ! i = Suc (chain_length e i - ?ps ! i)" using assms by simp
  ultimately show "left_over e ps = Suc (left_over e ?ps)"
    unfolding left_over_def sum.remove [OF finite_lessThan i] by simp
  show "placed_ok e ?ps" using assms by (auto simp: placed_ok_def nth_list_update)
qed

lemma remains_Cons:
  assumes "placed_ok e ps"
  shows "remains e ps (i # w) \<longleftrightarrow>
    i < length (s_actors e) \<and> ps ! i < chain_length e i \<and> remains e (ps[i := ps ! i + 1]) w"
proof -
  let ?n = "length (s_actors e)" and ?ps = "ps[i := ps ! i + 1]"
  have eq: "count_list (i # w) j = chain_length e j - ps ! j \<longleftrightarrow>
      (i = j \<longrightarrow> ps ! i < chain_length e i) \<and> count_list w j = chain_length e j - ?ps ! j"
    if "j < ?n" for j
    using assms that by (auto simp: placed_ok_def)
  have "(\<forall>j < ?n. count_list (i # w) j = chain_length e j - ps ! j) \<longleftrightarrow>
      (\<forall>j < ?n. (i = j \<longrightarrow> ps ! i < chain_length e i) \<and> count_list w j = chain_length e j - ?ps ! j)"
    by (rule all_cong) (rule eq)
  also have "\<dots> \<longleftrightarrow> (i < ?n \<longrightarrow> ps ! i < chain_length e i) \<and> (\<forall>j < ?n. count_list w j = chain_length e j - ?ps ! j)"
    by blast
  finally show ?thesis unfolding remains_def by auto
qed

lemma remains_Nil: "placed_ok e ps \<Longrightarrow> remains e ps [] \<longleftrightarrow> left_over e ps = 0"
  by (auto simp: remains_def left_over_def)

lemma preempted_Cons:
  assumes "remains e ps (i # w)" and "placed_ok e ps" and "\<And>q. prior = Some q \<Longrightarrow> q < length (s_actors e)"
  shows "preempted prior (i # w) = preempts e ps prior i + preempted (Some i) w"
proof (cases prior)
  case (Some q)
  have "q \<in> set (i # w) \<longleftrightarrow> ps ! q < chain_length e q"
  proof -
    have "count_list (i # w) q = chain_length e q - ps ! q" using assms(1,3) Some by (simp add: remains_def)
    then show ?thesis by (metis count_list_0_iff zero_less_diff neq0_conv)
  qed
  then show ?thesis using Some by (auto simp: preempted_def preempts_def)
qed (simp add: preempted_def preempts_def)

lemma paths_words:
  "left_over e ps = left \<Longrightarrow> placed_ok e ps \<Longrightarrow> p \<le> s_bound e \<Longrightarrow>
     (\<And>q. prior = Some q \<Longrightarrow> q < length (s_actors e)) \<Longrightarrow>
     set (paths left e prior p ps) = {w. remains e ps w \<and> p + preempted prior w \<le> s_bound e}"
proof (induction left e prior p ps rule: paths.induct)
  case (1 e prior p ps)
  have "w = []" if "remains e ps w" for w
    using that remains_Cons [OF 1(2)] left_over_step(1) [OF 1(2)] 1(1,2)
    by (cases w) (auto simp: placed_ok_def)
  then show ?case
    using 1 remains_Nil [OF 1(2)] by (auto simp: preempted_def split: option.split)
next
  case (2 left e prior p ps)
  have not_nil: "\<not> remains e ps []" using remains_Nil [OF 2(3)] 2(2) by simp
  have one: "w \<in> set (branch left e prior p ps i) \<longleftrightarrow>
      (\<exists>v. w = i # v \<and> remains e ps w \<and> p + preempted prior w \<le> s_bound e)"
    if i: "i < length (s_actors e)" for w i
  proof (cases "ps ! i = chain_length e i \<or> p + preempts e ps prior i > s_bound e")
    case True
    then have "branch left e prior p ps i = []" by (auto simp: branch_def)
    moreover have "\<not> (remains e ps (i # v) \<and> p + preempted prior (i # v) \<le> s_bound e)" for v
      using True preempted_Cons [OF _ 2(3,5)] remains_Cons [OF 2(3)] by fastforce
    ultimately show ?thesis by auto
  next
    case False
    then have lt: "ps ! i < chain_length e i" using 2(3) i by (auto simp: placed_ok_def le_neq_implies_less)
    have il: "i < length ps" using 2(3) i by (simp add: placed_ok_def)
    have "set (paths left e (Some i) (p + preempts e ps prior i) (ps[i := ps ! i + 1]))
        = {v. remains e (ps[i := ps ! i + 1]) v \<and> p + preempts e ps prior i + preempted (Some i) v \<le> s_bound e}"
      using False i left_over_step [OF 2(3) il lt] 2(2) by (intro 2(1)) auto
    then show ?thesis
      using False i lt preempted_Cons [OF _ 2(3,5), of i] remains_Cons [OF 2(3), of i]
      by (auto simp: branch_def add.assoc)
  qed
  have "w \<in> set (paths (Suc left) e prior p ps) \<longleftrightarrow> remains e ps w \<and> p + preempted prior w \<le> s_bound e" for w
    unfolding paths_branches using one not_nil remains_Cons [OF 2(3)]
    by (cases w) (auto; metis atLeastLessThan_iff le0)+
  then show ?case by blast
qed

text \<open>They come in lexicographic order, so each comes once.\<close>

lemma sorted_branches:
  "sorted_wrt (<) (is' :: nat list) \<Longrightarrow>
     (\<And>i. i \<in> set is' \<Longrightarrow> sorted_wrt (<) (f i) \<and> (\<forall>w \<in> set (f i). \<exists>v. w = i # v)) \<Longrightarrow>
     sorted_wrt (<) (concat (map f is'))"
proof (induction is')
  case (Cons i is')
  have "v < w" if vw: "v \<in> set (f i)" "w \<in> set (concat (map f is'))" for v w
  proof -
    obtain j where j: "j \<in> set is'" "w \<in> set (f j)" using vw(2) by auto
    obtain v' w' where "v = i # v'" "w = j # w'" using Cons(3) vw(1) j by (metis list.set_intros)
    moreover have "i < j" using Cons(2) j(1) by simp
    ultimately show ?thesis by simp
  qed
  then show ?case using Cons by (simp add: sorted_wrt_append)
qed simp

lemma paths_sorted: "sorted_wrt (<) (paths left e prior p ps)"
proof (induction left e prior p ps rule: paths.induct)
  case (2 left e prior p ps)
  have "sorted_wrt (<) (branch left e prior p ps i) \<and> (\<forall>w \<in> set (branch left e prior p ps i). \<exists>v. w = i # v)"
    if "i \<in> set [0..<length (s_actors e)]" for i
    using 2 [OF that] by (auto simp: branch_def sorted_wrt_map)
  then show ?case unfolding paths_branches by (intro sorted_branches) (auto simp: sorted_wrt_upt)
qed simp

text \<open>A search that was not stopped saw nothing that could have stopped it.\<close>

definition undisturbed :: "search \<Rightarrow> search" where
  "undisturbed e = e\<lparr>s_looks := (\<lambda>_. (False, False, False))\<rparr>"

lemma undisturbed_simps [simp]:
  "s_actors (undisturbed e) = s_actors e" "s_length (undisturbed e) = s_length e"
  "s_bound (undisturbed e) = s_bound e" "s_cap (undisturbed e) = s_cap e"
  "look_stops (s_looks (undisturbed e) k) = None" "preempts (undisturbed e) = preempts e"
  "take_step (undisturbed e) = take_step e"
  by (simp_all add: undisturbed_def look_stops_def preempts_def take_step_def fun_eq_iff split: option.split)

lemma undisturbed_calm: "calm_looks (undisturbed e)"
  by (simp add: calm_looks_def)

lemma undo_step_result [simp]: "result (undo_step i st) = result st"
  by (simp add: undo_step_def)

lemma visit_undisturbed:
  shows "exhausted (result (visit left e prior p st)) \<Longrightarrow>
      visit left (undisturbed e) prior p st = visit left e prior p st"
    and "exhausted (result (visit_actors left e rest prior p st)) \<Longrightarrow>
      visit_actors left (undisturbed e) rest prior p st = visit_actors left e rest prior p st"
proof (induction left e prior p st and left e rest prior p st rule: visit_visit_actors.induct)
  case (1 left e prior p st)
  show ?case
  proof (cases "exhausted (result st) \<and> look_stops (s_looks e (polls st)) = None")
    case True
    then show ?thesis using 1 by (subst (1 2) visit.simps) (auto simp: Let_def visit.simps [of left e])
  next
    case False
    then show ?thesis
      using 1(2) by (auto simp: visit.simps Let_def stop_with_def split: option.splits)
  qed
next
  case (3 left e i rest prior p st)
  let ?v = "\<lambda>e. visit left e (Some i) (p + preempts e (positions st) prior i) (take_step e i st)"
  show ?case
  proof (cases "positions st ! i = chain_length e i \<or> p + preempts e (positions st) prior i > s_bound e")
    case True
    then have step: "visit_actors left d (i # rest) prior p st = visit_actors left d rest prior p st"
      if "d = e \<or> d = undisturbed e" for d
      using that by (auto simp: visit_actors.simps(2) Let_def)
    have "exhausted (result (visit_actors left e rest prior p st))" using 3(5) step [of e] by simp
    then have "visit_actors left (undisturbed e) rest prior p st = visit_actors left e rest prior p st"
      using True 3(1) [OF refl] 3(2) [OF refl] by blast
    then show ?thesis using step [of e] step [of "undisturbed e"] by simp
  next
    case False
    then have step: "visit_actors left d (i # rest) prior p st
        = (if \<not> exhausted (result (?v d)) then undo_step i (?v d) else visit_actors left d rest prior p (undo_step i (?v d)))"
      if "d = e \<or> d = undisturbed e" for d
      using that by (auto simp: visit_actors.simps(2) Let_def)
    have "exhausted (result (?v e))" using 3(5) unfolding step [of e, simplified] by (auto split: if_splits)
    moreover from this have "?v (undisturbed e) = ?v e" using 3(3) [OF refl] False by simp
    moreover have "visit_actors left (undisturbed e) rest prior p (undo_step i (?v e))
        = visit_actors left e rest prior p (undo_step i (?v e))"
      using 3(4) [OF refl _ _ refl] 3(5) False calculation unfolding step [of e, simplified] by simp
    ultimately show ?thesis by (simp only: step [of e, simplified] step [of "undisturbed e", simplified]) simp
  qed
qed simp

section \<open>The enumeration\<close>

definition steps_of :: "actor_chain list \<Rightarrow> nat list \<Rightarrow> step list" where
  "steps_of as w = steps_from as (replicate (length as) 0) w"

definition search_start :: "search \<Rightarrow> enumerator" where
  "search_start e = \<lparr>positions = replicate (length (s_actors e)) 0, current = [],
     result = \<lparr>shapes = [], exhausted = True, reason = []\<rparr>, polls = 0\<rparr>"

definition all_words :: "search \<Rightarrow> nat list list" where
  "all_words e = paths (s_length e) e None 0 (replicate (length (s_actors e)) 0)"

definition total_length :: "actor_chain list \<Rightarrow> nat" where
  "total_length as = sum_list (map (\<lambda>a. length (chain_checkpoints a)) as)"

lemma left_over_start:
  "left_over e (replicate (length (s_actors e)) 0) = total_length (s_actors e)"
  by (simp add: left_over_def total_length_def sum_list_sum_nth atLeast0LessThan)

lemma all_words_interleavings:
  assumes "s_length e = total_length (s_actors e)"
  shows "set (all_words e) = {w. interleaving (s_actors e) w \<and> preemptions w \<le> s_bound e}"
proof -
  let ?ps = "replicate (length (s_actors e)) 0"
  have "placed_ok e ?ps" by (simp add: placed_ok_def)
  moreover have "remains e ?ps w \<longleftrightarrow> interleaving (s_actors e) w" for w
    by (auto simp: remains_def interleaving_def)
  ultimately show ?thesis
    using paths_words [of e ?ps "s_length e" 0 None] left_over_start [of e] assms
    by (simp add: all_words_def preempted_def)
qed

lemma enumerate_calm:
  assumes "calm_looks e"
  shows "enumerate e = absorb (s_cap e) (map (steps_of (s_actors e)) (all_words e))
    \<lparr>shapes = [], exhausted = True, reason = []\<rparr>"
proof -
  have "\<exists>k. visit (s_length e) e None 0 (search_start e) = (search_start e)\<lparr>result :=
      absorb (s_cap e) (added e (search_start e) (paths (s_length e) e None 0 (positions (search_start e))))
        (result (search_start e)), polls := k\<rparr>"
    by (rule visit_lists(1) [OF assms]) (simp_all add: search_start_def)
  then show ?thesis
    by (auto simp: enumerate_def search_start_def added_def all_words_def steps_of_def [abs_def])
qed

lemma enumerate_exhausted:
  assumes "exhausted (enumerate e)"
  shows "shapes (enumerate e) = map (steps_of (s_actors e)) (all_words e)" and "reason (enumerate e) = []"
    and "length (all_words e) \<le> s_cap e"
proof -
  have "enumerate e = enumerate (undisturbed e)"
    using visit_undisturbed(1) [of "s_length e" e None 0 "search_start e"] assms
    by (simp add: enumerate_def search_start_def)
  moreover have "all_words (undisturbed e) = all_words e"
  proof -
    have "paths left (undisturbed e) prior p ps = paths left e prior p ps" for left prior p ps
    proof (induction left e prior p ps rule: paths.induct)
      case (2 left e prior p ps)
      have "branch left (undisturbed e) prior p ps i = branch left e prior p ps i" if "i < length (s_actors e)" for i
        using 2 [of i] that by (simp add: branch_def)
      then have "map (branch left (undisturbed e) prior p ps) [0..<length (s_actors e)]
          = map (branch left e prior p ps) [0..<length (s_actors e)]"
        by simp
      then show ?case unfolding paths_branches undisturbed_simps by (rule arg_cong)
    qed simp
    then show ?thesis by (simp add: all_words_def)
  qed
  ultimately have "enumerate e = absorb (s_cap e) (map (steps_of (s_actors e)) (all_words e))
      \<lparr>shapes = [], exhausted = True, reason = []\<rparr>"
    using enumerate_calm [OF undisturbed_calm, of e] by simp
  then show "shapes (enumerate e) = map (steps_of (s_actors e)) (all_words e)" "reason (enumerate e) = []"
    "length (all_words e) \<le> s_cap e"
    using assms by (auto simp: absorb_def split: if_splits)
qed

lemma actors_of_steps: "map actor (steps_from as ps w) = map (\<lambda>i. decl_actor (chain_actor (as ! i))) w"
  by (induction as ps w rule: steps_from.induct) (simp_all add: step_new_def)

lemma steps_of_inj:
  assumes "distinct (map (\<lambda>a. decl_actor (chain_actor a)) as)"
  shows "inj_on (steps_of as) {w. interleaving as w}"
proof (rule inj_onI)
  fix v w assume vw: "v \<in> {w. interleaving as w}" "w \<in> {w. interleaving as w}" "steps_of as v = steps_of as w"
  have "inj_on (\<lambda>i. decl_actor (chain_actor (as ! i))) {0..<length as}"
    using nth_eq_iff_index_eq [OF assms] by (auto simp: inj_on_def)
  moreover have "map (\<lambda>i. decl_actor (chain_actor (as ! i))) v = map (\<lambda>i. decl_actor (chain_actor (as ! i))) w"
    using arg_cong [OF vw(3), of "map actor"] by (simp only: steps_of_def actors_of_steps)
  moreover have "set v \<union> set w \<subseteq> {0..<length as}" using vw by (auto simp: interleaving_def)
  ultimately show "v = w" using inj_on_subset map_inj_on by blast
qed

lemma enumerate_distinct:
  assumes "exhausted (enumerate e)" and "s_length e = total_length (s_actors e)"
    and "distinct (map (\<lambda>a. decl_actor (chain_actor a)) (s_actors e))"
  shows "distinct (shapes (enumerate e))"
proof -
  have "distinct (all_words e)"
    unfolding all_words_def using paths_sorted strict_sorted_iff by blast
  moreover have "inj_on (steps_of (s_actors e)) (set (all_words e))"
    using steps_of_inj [OF assms(3)] all_words_interleavings [OF assms(2)] by (auto intro: inj_on_subset)
  ultimately show ?thesis using enumerate_exhausted(1) [OF assms(1)] by (simp add: distinct_map)
qed

text \<open>
  C29. The enumeration is exact: a search that nothing stopped has listed, in lexicographic order and
  each once, precisely the interleavings of the actors' chains with at most the given number of
  preemptions; and undisturbed it is stopped only by the cap, after which it has the first ones.
\<close>

theorem enumeration_exact:
  assumes "s_length e = total_length (s_actors e)"
  shows "\<exists>ws. sorted_wrt (<) ws \<and> set ws = {w. interleaving (s_actors e) w \<and> preemptions w \<le> s_bound e}
    \<and> (exhausted (enumerate e) \<longrightarrow> shapes (enumerate e) = map (steps_of (s_actors e)) ws)
    \<and> (calm_looks e \<longrightarrow>
         (exhausted (enumerate e) \<longleftrightarrow> length ws \<le> s_cap e)
         \<and> shapes (enumerate e) = map (steps_of (s_actors e)) (take (s_cap e) ws))"
proof (intro exI [of _ "all_words e"] conjI impI)
  show "sorted_wrt (<) (all_words e)" unfolding all_words_def by (rule paths_sorted)
  show "set (all_words e) = {w. interleaving (s_actors e) w \<and> preemptions w \<le> s_bound e}"
    by (rule all_words_interleavings [OF assms])
  show "shapes (enumerate e) = map (steps_of (s_actors e)) (all_words e)" if "exhausted (enumerate e)"
    by (rule enumerate_exhausted(1) [OF that])
  show "exhausted (enumerate e) \<longleftrightarrow> length (all_words e) \<le> s_cap e" if "calm_looks e"
    by (simp add: enumerate_calm [OF that] absorb_def)
  show "shapes (enumerate e) = map (steps_of (s_actors e)) (take (s_cap e) (all_words e))" if "calm_looks e"
    by (simp add: enumerate_calm [OF that] absorb_def take_map)
qed

text \<open>Two actors with one checkpoint each before they complete, and no preemption.\<close>

definition two_chains :: search where
  "two_chains =
     \<lparr>s_actors = [\<lparr>chain_actor = \<lparr>decl_actor = ''a'', operation = ''x''\<rparr>, chain_checkpoints = [''c'', completion]\<rparr>,
                  \<lparr>chain_actor = \<lparr>decl_actor = ''b'', operation = ''y''\<rparr>, chain_checkpoints = [''c'', completion]\<rparr>],
      s_length = 4, s_bound = 0, s_cap = 10, s_looks = (\<lambda>_. (False, False, False))\<rparr>"

theorem enumeration_exact_witness:
  "card {w. interleaving (s_actors two_chains) w \<and> preemptions w \<le> 0} = 2"
proof -
  have "s_length two_chains = total_length (s_actors two_chains)" "exhausted (enumerate two_chains)"
    "length (shapes (enumerate two_chains)) = 2" "s_bound two_chains = 0"
    by code_simp+
  then show ?thesis
    using enumeration_exact [of two_chains] strict_sorted_iff distinct_card by (metis length_map)
qed

end
