(* ===== verification/Exploration.thy ===== *)
theory Exploration
  imports Exploration_Order Error_Text "HOL-Library.Product_Lexorder"
begin

text \<open>
  \<^verbatim>\<open>src/schedule_exploration.rs\<close>, the exploration: the declaration it admits, the runs it makes
  of the schedules the enumerator lists, the category of each, the states and transitions covered, and
  the report.  The runner is a parameter with a state of its own; the clock, the cancellation and the
  JSON writer are parameters too.
\<close>

section \<open>Canonical states\<close>

definition require :: "bool \<Rightarrow> string \<Rightarrow> string + unit" where
  "require ok message = (if ok then Inr () else Inl message)"

text \<open>
  The canonical tree of a value; the counter of values visited goes along.  \<open>render\<close> is the text of
  a tree.
\<close>

definition canonical_key_kind :: "val \<Rightarrow> string option" where
  "canonical_key_kind k = (case k of VInt _ \<Rightarrow> Some ''int'' | VStr _ \<Rightarrow> Some ''str'' | _ \<Rightarrow> None)"

definition map_entry_step ::
    "(json \<Rightarrow> string) \<Rightarrow> json \<Rightarrow> json \<Rightarrow> (string, json) btree \<Rightarrow> string + (string, json) btree" where
  "map_entry_step render key v entries =
     try_ok (require (\<not> bt_contains entries (render key)) ''duplicate canonical map key'')
       (\<lambda>_. Inr (bt_insert (render key) (JArray [key, v]) entries))"

function (sequential) canonical_value :: "(json \<Rightarrow> string) \<Rightarrow> val \<Rightarrow> nat \<Rightarrow> nat \<Rightarrow> string + json \<times> nat"
  and canonical_items :: "(json \<Rightarrow> string) \<Rightarrow> val list \<Rightarrow> nat \<Rightarrow> nat \<Rightarrow> string + json list \<times> nat"
  and canonical_fields :: "(json \<Rightarrow> string) \<Rightarrow> (string \<times> val) list \<Rightarrow> nat \<Rightarrow> nat \<Rightarrow> string + json list \<times> nat"
  and canonical_entries ::
    "(json \<Rightarrow> string) \<Rightarrow> (val \<times> val) list \<Rightarrow> string option \<Rightarrow> (string, json) btree \<Rightarrow> nat \<Rightarrow> nat
       \<Rightarrow> string + (string, json) btree \<times> nat" where
  "canonical_value r value depth nodes0 =
     (let nodes = nodes0 + 1 in
      try_ok (require (depth \<le> 32 \<and> nodes \<le> 65536) ''canonical value exceeds structure bound'') (\<lambda>_.
      case value of
        VNull \<Rightarrow> Inr (JArray [JString ''null''], nodes)
      | VInt n \<Rightarrow> Inr (JArray [JString ''integer'', JString (show_int n)], nodes)
      | VBool v \<Rightarrow> Inr (JArray [JString ''boolean'', JBool v], nodes)
      | VStr v \<Rightarrow> Inr (JArray [JString ''string'', JString v], nodes)
      | VUnserializable v \<Rightarrow> Inr (JArray [JString ''unserializable'', JString v], nodes)
      | VVariant tag v \<Rightarrow>
          try_ok (canonical_value r v (depth + 1) nodes) (\<lambda>(j, n).
            Inr (JArray [JString ''variant'', JString tag, j], n))
      | VRecord kvs \<Rightarrow>
          try_ok (canonical_fields r kvs (depth + 1) nodes) (\<lambda>(js, n).
            Inr (JArray [JString ''record'', JArray js], n))
      | VSeq items \<Rightarrow>
          try_ok (canonical_items r items (depth + 1) nodes) (\<lambda>(js, n).
            Inr (JArray [JString ''sequence'', JArray js], n))
      | VTuple items \<Rightarrow>
          try_ok (canonical_items r items (depth + 1) nodes) (\<lambda>(js, n).
            Inr (JArray [JString ''tuple'', JArray js], n))
      | VSet items \<Rightarrow>
          try_ok (canonical_items r items (depth + 1) nodes) (\<lambda>(js, n).
            Inr (JArray [JString ''set'', JArray (map snd (bt_of_list (map (\<lambda>j. (r j, j)) js)))], n))
      | VMap items \<Rightarrow>
          try_ok (canonical_entries r items None [] (depth + 1) nodes) (\<lambda>(es, n).
            Inr (JArray [JString ''map'', JArray (map snd es)], n))))"
| "canonical_items r [] depth nodes = Inr ([], nodes)"
| "canonical_items r (v # vs) depth nodes =
     try_ok (canonical_value r v depth nodes) (\<lambda>(j, n).
     try_ok (canonical_items r vs depth n) (\<lambda>(js, n'). Inr (j # js, n')))"
| "canonical_fields r [] depth nodes = Inr ([], nodes)"
| "canonical_fields r ((k, v) # fs) depth nodes =
     try_ok (canonical_value r v depth nodes) (\<lambda>(j, n).
     try_ok (canonical_fields r fs depth n) (\<lambda>(js, n'). Inr (JArray [JString k, j] # js, n')))"
| "canonical_entries r [] kind entries depth nodes = Inr (entries, nodes)"
| "canonical_entries r ((k, v) # es) kind entries depth nodes =
     (case canonical_key_kind k of
        None \<Rightarrow> Inl ''unsupported canonical map key''
      | Some actual \<Rightarrow>
          try_ok (require (case kind of None \<Rightarrow> True | Some prior \<Rightarrow> prior = actual) ''mixed canonical map keys'') (\<lambda>_.
          try_ok (canonical_value r k depth nodes) (\<lambda>(key, n).
          try_ok (canonical_value r v depth n) (\<lambda>(j, n').
          try_ok (map_entry_step r key j entries) (\<lambda>entries'.
            canonical_entries r es (Some actual) entries' depth n')))))"
  by pat_completeness auto
termination
  by (relation "measure (\<lambda>x. case x of
        Inl (Inl (_, v, _, _)) \<Rightarrow> 2 * size v
      | Inl (Inr (_, vs, _, _)) \<Rightarrow> Suc (2 * size_list size vs)
      | Inr (Inl (_, fs, _, _)) \<Rightarrow> Suc (2 * size_list (size_prod (\<lambda>_. 0) size) fs)
      | Inr (Inr (_, es, _, _, _, _)) \<Rightarrow> Suc (2 * size_list (size_prod size size) es))")
    auto

declare canonical_value.simps [simp del]

definition canonical_limit :: nat where
  "canonical_limit = 1048576"

definition canonical_state :: "(json \<Rightarrow> string) \<Rightarrow> state \<Rightarrow> string + string" where
  "canonical_state r state =
     try_ok (canonical_fields r state 0 0) (\<lambda>(js, _).
       (let t = r (JArray [JString ''mirrors.canonical-state/v1'', JArray js])
        in try_ok (require (length t \<le> canonical_limit) ''canonical state exceeds byte bound'') (\<lambda>_. Inr t)))"

section \<open>The verdict on one run\<close>

text \<open>\<open>text_is j s\<close> is \<^verbatim>\<open>j == "s"\<close>.\<close>

definition text_is :: "json \<Rightarrow> string \<Rightarrow> bool" where
  "text_is j s \<longleftrightarrow> j = JString s"

definition event_matches :: "nat \<Rightarrow> step \<Rightarrow> nat \<Rightarrow> json \<Rightarrow> string + unit" where
  "event_matches i st offset event =
     try_ok (require
         (is_number (jfield event ''ordinal'') (i * 2 + offset) \<and> is_number (jfield event ''step'') i
          \<and> text_is (jfield event ''actor'') (actor st)
          \<and> text_is (jfield event ''kind'') (if offset = 0 then ''permit'' else ''arrival''))
         ''event identity/order differs'') (\<lambda>_.
       if offset = 1 then require (text_is (jfield event ''checkpoint'') (checkpoint st)) ''arrival differs''
       else Inr ())"

fun events_match :: "nat \<Rightarrow> step list \<Rightarrow> json list \<Rightarrow> string + unit" where
  "events_match i [] evs = Inr ()"
| "events_match i (st # sts) evs =
     try_ok (event_matches i st 0 (evs ! (i * 2))) (\<lambda>_.
     try_ok (event_matches i st 1 (evs ! (i * 2 + 1))) (\<lambda>_.
       events_match (i + 1) sts evs))"

definition validate_success :: "json \<Rightarrow> schedule \<Rightarrow> string + unit" where
  "validate_success execution candidate =
     try_ok (require (jfield execution ''scheduleCompleted'' = JBool True
         \<and> text_is (jfield execution ''outcome'') ''completed'') ''false schedule completion'') (\<lambda>_.
     case as_array (jfield execution ''events'') of
       None \<Rightarrow> Inl ''missing events''
     | Some evs \<Rightarrow>
         try_ok (require (length evs = length (steps candidate) * 2) ''wrong event denominator'') (\<lambda>_.
         try_ok (events_match 0 (steps candidate) evs) (\<lambda>_.
           require (case as_array (jfield execution ''observations'') of
                      Some os \<Rightarrow> length os = length (steps candidate) + 1 | None \<Rightarrow> False)
             ''wrong observation denominator'')))"

text \<open>What a comparison says: a mismatch of the model, or a failure of the comparison.\<close>

definition comparison_verdict :: "json \<Rightarrow> json option \<Rightarrow> string + bool \<times> bool" where
  "comparison_verdict execution comparison =
     (case comparison of
        None \<Rightarrow> Inr (False, False)
      | Some c \<Rightarrow>
          try_ok (require (text_is (jfield c ''schema'') ''mirrors.scheduled-comparison/v1''
              \<and> jfield (jfield c ''binding'') ''executions'' = JArray [execution])
              ''comparison is not bound to exact execution'') (\<lambda>_.
            if text_is (jfield c ''comparison'') ''step_mismatch'' then
              try_ok (require (text_is (jfield c ''peerTerminal'') ''step_mismatch''
                  \<and> jfield c ''passed'' = JBool False
                  \<and> text_is (jfield (jfield c ''client'') ''kind'') ''step_mismatch'')
                  ''invalid model mismatch'') (\<lambda>_. Inr (True, False))
            else Inr (False, \<not> text_is (jfield c ''comparison'') ''matched'' \<or> jfield c ''passed'' \<noteq> JBool True)))"

definition cleanup_confirmed :: "json \<Rightarrow> bool" where
  "cleanup_confirmed execution \<longleftrightarrow>
     text_is (jfield execution ''cleanup'') ''confirmed'' \<and> jfield execution ''remainingActors'' = JArray []"

definition category :: "json \<Rightarrow> json option \<Rightarrow> string + string" where
  "category execution comparison =
     try_ok (comparison_verdict execution comparison) (\<lambda>(mismatch, comparison_failed). Inr
       (if \<not> cleanup_confirmed execution then ''cleanup_failed''
        else if mismatch then ''model_mismatch''
        else if comparison_failed then ''comparison_failed''
        else if jfield execution ''passed'' = JBool True then ''passed''
        else (case json_str (jfield execution ''outcome'') of
                Some out \<Rightarrow>
                  if out = ''timed_out'' then ''timed_out''
                  else if out = ''cancelled'' then ''cancelled''
                  else if out \<in> {''unexpected_checkpoint'', ''invalid_schedule'', ''incompatible_identity''}
                  then ''schedule_failed''
                  else ''execution_failed''
              | None \<Rightarrow> ''execution_failed'')))"

section \<open>The space that is explored\<close>

record finite_space =
  sp_identity :: identity
  sp_actors :: "actor_chain list"
  sp_inputs :: "json list"
  max_preemptions :: nat
  require_model_comparison :: bool
  base_variables :: "string list"
  instrumentation_variables :: "string list"

record exploration_limits =
  max_enumerated_schedules :: nat
  max_runs :: nat
  time_budget :: nat
  max_evidence_bytes :: nat

definition exploration_limits_default :: exploration_limits where
  "exploration_limits_default =
     \<lparr>max_enumerated_schedules = 4096, max_runs = 4096, time_budget = seconds 30,
      max_evidence_bytes = 16 * 1048576\<rparr>"

text \<open>
  The parameters: the JSON writer and reader, the integer reader, the texts of errors, and what
  \<^verbatim>\<open>serde_json\<close> says of a tree that does not have the shape of the named type.
\<close>

record tools =
  codec_of :: codec
  read_json :: "string \<Rightarrow> json option"
  bigint_from :: "string \<Rightarrow> int option"
  texts_of :: shown
  shape_error_text :: "string \<Rightarrow> json \<Rightarrow> string"

text \<open>The texts \<^verbatim>\<open>parse_schedule\<close> and the decoding of a value fail with.\<close>

fun schedule_error_text :: "tools \<Rightarrow> schedule_error \<Rightarrow> string" where
  "schedule_error_text t (ScheduleText e) = json_error_text (texts_of t) e"
| "schedule_error_text t (ScheduleShape v) = shape_error_text t ''Schedule'' v"
| "schedule_error_text t ScheduleFields = ''invalid schedule schema, profile, identity or steps''"
| "schedule_error_text t InputsExceedBound = ''inputs exceed bound''"

definition value_error_text :: "tools \<Rightarrow> itf_error \<Rightarrow> string" where
  "value_error_text t e = error_display (texts_of t) (EProtocolError (InvalidItf e))"

abbreviation render_of :: "tools \<Rightarrow> json \<Rightarrow> string" where
  "render_of t \<equiv> c_render (codec_of t)"

fun chain_steps :: "string \<Rightarrow> string list \<Rightarrow> string + step list" where
  "chain_steps a [] = Inr []"
| "chain_steps a (c # cs) =
     try_ok (require (if cs = [] then c = completion else is_identifier c) ''invalid checkpoint chain'') (\<lambda>_.
     try_ok (chain_steps a cs) (\<lambda>ss. Inr (step_new a c # ss)))"

fun admit_chains ::
    "actor_chain list \<Rightarrow> (string, string) btree \<Rightarrow> string list \<Rightarrow> step list
       \<Rightarrow> string + (string, string) btree \<times> step list" where
  "admit_chains [] decls ops ss = Inr (decls, ss)"
| "admit_chains (a # as) decls ops ss =
     (let d = chain_actor a in
      try_ok (require (is_identifier (decl_actor d) \<and> is_identifier (operation d)
          \<and> \<not> bt_contains decls (decl_actor d) \<and> operation d \<notin> set ops)
          ''duplicate/invalid actor or operation'') (\<lambda>_.
      try_ok (require (chain_checkpoints a \<noteq> [] \<and> last (chain_checkpoints a) = completion)
          ''actor chain requires completion'') (\<lambda>_.
      try_ok (chain_steps (decl_actor d) (chain_checkpoints a)) (\<lambda>new.
        admit_chains as (bt_insert (decl_actor d) (operation d) decls) (operation d # ops) (ss @ new)))))"

fun admit_inputs :: "tools \<Rightarrow> identity \<Rightarrow> step list \<Rightarrow> json list \<Rightarrow> string list \<Rightarrow> string + unit" where
  "admit_inputs t i ss [] keys = Inr ()"
| "admit_inputs t i ss (input # rest) keys =
     (case encode_schedule (codec_of t) (schedule_new i input ss) of
        Inl e \<Rightarrow> Inl (schedule_error_text t e)
      | Inr _ \<Rightarrow>
          try_ok (require (render_of t input \<notin> set keys) ''duplicate finite input'') (\<lambda>_.
            admit_inputs t i ss rest (render_of t input # keys)))"

fun admit_variables :: "string \<Rightarrow> string list \<Rightarrow> string list \<Rightarrow> string list \<Rightarrow> string + string list" where
  "admit_variables message others [] seen = Inr (rev seen)"
| "admit_variables message others (v # vs) seen =
     try_ok (require (is_identifier v \<and> v \<notin> set others \<and> v \<notin> set seen) message) (\<lambda>_.
       admit_variables message others vs (v # seen))"

text \<open>An admitted space: the sorted actors, their declarations, how many steps they have.\<close>

record admitted =
  a_actors :: "actor_chain list"
  a_declarations :: "(string, string) btree"
  a_length :: nat
  a_variables :: "string list"
  a_ignored :: "string list"

definition limits_ok :: "finite_space \<Rightarrow> exploration_limits \<Rightarrow> bool" where
  "limits_ok space limits \<longleftrightarrow>
     max_preemptions space \<le> 64
     \<and> 0 < max_enumerated_schedules limits \<and> max_enumerated_schedules limits \<le> 4096
     \<and> max_runs limits \<le> 65536 \<and> time_budget limits \<noteq> 0 \<and> time_budget limits \<le> seconds 86400
     \<and> 0 < max_evidence_bytes limits \<and> max_evidence_bytes limits \<le> 64 * 1048576"

definition admit_space :: "tools \<Rightarrow> finite_space \<Rightarrow> exploration_limits \<Rightarrow> string + admitted" where
  "admit_space t space limits =
     try_ok (require (sp_actors space \<noteq> [] \<and> length (sp_actors space) \<le> 8 \<and> sp_inputs space \<noteq> []
         \<and> length (sp_inputs space) \<le> 64) ''finite actor/input bound exceeded'') (\<lambda>_.
     try_ok (require (limits_ok space limits) ''invalid exploration limits'') (\<lambda>_.
     (let actors = sort_key (\<lambda>a. decl_actor (chain_actor a)) (sp_actors space) in
      try_ok (admit_chains actors [] [] []) (\<lambda>(decls, ss).
      try_ok (require (length ss \<le> 64) ''exploration step bound exceeded'') (\<lambda>_.
      try_ok (admit_inputs t (sp_identity space) ss (sp_inputs space) []) (\<lambda>_.
      try_ok (require (base_variables space \<noteq> [] \<and> length (base_variables space) \<le> 1024
          \<and> length (instrumentation_variables space) \<le> 1024) ''bounded base variables required'') (\<lambda>_.
      try_ok (admit_variables ''invalid base variable'' [] (base_variables space) []) (\<lambda>vars.
      try_ok (admit_variables ''invalid instrumentation projection'' vars (instrumentation_variables space) [])
        (\<lambda>ign. Inr \<lparr>a_actors = actors, a_declarations = decls, a_length = length ss, a_variables = vars,
                     a_ignored = ign\<rparr>)))))))))"

section \<open>Coverage\<close>

text \<open>How a run fails: with an error, or with a panic that is caught.\<close>

datatype run_failure = RunError string | RunPanicked

record coverage =
  cov_states :: "(string, nat) btree"
  cov_rows :: "json list"
  cov_edges :: "(nat \<times> nat, nat) btree"
  cov_bytes :: nat

definition coverage_limit :: nat where
  "coverage_limit = 8 * 1048576"

definition coverage_error :: string where
  "coverage_error = ''coverage byte bound exceeded''"

definition state_of_json :: "tools \<Rightarrow> json \<Rightarrow> string + state" where
  "state_of_json t j =
     (case j of
        JObject m \<Rightarrow>
          (case collect_results (walk_member (bigint_from t)) m of
             Inl e \<Rightarrow> Inl (value_error_text t e) | Inr st \<Rightarrow> Inr st)
      | _ \<Rightarrow> Inl (shape_error_text t ''State'' j))"

fun drop_variables :: "string list \<Rightarrow> state \<Rightarrow> string + state" where
  "drop_variables [] st = Inr st"
| "drop_variables (v # vs) st =
     try_ok (require (bt_contains st v) ''instrumentation variable absent'') (\<lambda>_. drop_variables vs (bt_remove v st))"

text \<open>The canonical text of the projected state of an observation.\<close>

definition observed_key :: "tools \<Rightarrow> admitted \<Rightarrow> nat \<Rightarrow> json \<Rightarrow> string + string" where
  "observed_key t a i observation =
     try_ok (require (is_number (jfield observation ''afterSteps'') i) ''observation position differs'') (\<lambda>_.
     try_ok (state_of_json t (jfield observation ''state'')) (\<lambda>st.
     try_ok (require (length st = length (a_variables a) + length (a_ignored a))
         ''projection omits/adds variables'') (\<lambda>_.
     try_ok (drop_variables (a_ignored a) st) (\<lambda>st'.
     try_ok (require (list_all (bt_contains st') (a_variables a)) ''base variable absent'') (\<lambda>_.
       canonical_state (render_of t) st')))))"

definition state_id :: "tools \<Rightarrow> string \<Rightarrow> coverage \<Rightarrow> (run_failure + nat) \<times> coverage" where
  "state_id t key c =
     (case bt_get (cov_states c) key of
        Some n \<Rightarrow> (Inr n, c)
      | None \<Rightarrow>
          (let c' = c\<lparr>cov_bytes := cov_bytes c + length key + 128\<rparr>; n = length (cov_states c)
           in if cov_bytes c' > coverage_limit then (Inl (RunError coverage_error), c')
              else (case read_json t key of
                      None \<Rightarrow> (Inl RunPanicked, c')
                    | Some j \<Rightarrow>
                        (Inr n, c'\<lparr>cov_rows := cov_rows c' @ [json_obj [(''id'', json_nat n), (''canonical'', j)]],
                                   cov_states := bt_insert key n (cov_states c')\<rparr>))))"

definition add_edge :: "nat option \<Rightarrow> nat \<Rightarrow> coverage \<Rightarrow> (run_failure + unit) \<times> coverage" where
  "add_edge prior n c =
     (case prior of
        None \<Rightarrow> (Inr (), c)
      | Some m \<Rightarrow>
          (let seen = bt_contains (cov_edges c) (m, n);
               c' = (if seen then c else c\<lparr>cov_bytes := cov_bytes c + 128\<rparr>);
               count = (case bt_get (cov_edges c') (m, n) of None \<Rightarrow> 0 | Some k \<Rightarrow> k)
           in if \<not> seen \<and> cov_bytes c' > coverage_limit then (Inl (RunError coverage_error), c')
              else (Inr (), c'\<lparr>cov_edges := bt_insert (m, n) (count + 1) (cov_edges c')\<rparr>)))"

fun cover :: "tools \<Rightarrow> admitted \<Rightarrow> nat \<Rightarrow> nat option \<Rightarrow> json list \<Rightarrow> coverage \<Rightarrow> run_failure option \<times> coverage" where
  "cover t a i prior [] c = (None, c)"
| "cover t a i prior (ob # obs) c =
     (case observed_key t a i ob of
        Inl e \<Rightarrow> (Some (RunError e), c)
      | Inr key \<Rightarrow>
          (case state_id t key c of
             (Inl e, c') \<Rightarrow> (Some e, c')
           | (Inr n, c') \<Rightarrow>
               (case add_edge prior n c' of
                  (Inl e, c'') \<Rightarrow> (Some e, c'')
                | (Inr _, c'') \<Rightarrow> cover t a (i + 1) (Some n) obs c'')))"

section \<open>One run\<close>

record exploration_sample =
  execution :: json
  comparison :: "json option"

datatype runner_result = Sampled exploration_sample | RunnerErr string | RunnerPanic

text \<open>What the loop has accumulated, with the state of the runner.\<close>

record 'r progress =
  attempted :: nat
  completed :: nat
  evidence :: nat
  comparison_runs :: nat
  stop_reason :: string
  halt :: bool
  covered :: coverage
  execution_ids :: "string list"
  rows :: "json list"
  categories :: "(string, nat) btree"
  first_counterexample :: "json option"
  first_failure :: "json option"
  comparison_requested :: bool
  runner_state :: 'r

definition execution_actor :: "json \<Rightarrow> (string \<times> string) option" where
  "execution_actor j =
     (case struct_fields [''actor'', ''operation''] j of
        Some [JString a, JString op] \<Rightarrow> Some (a, op) | _ \<Rightarrow> None)"

fun execution_actors :: "tools \<Rightarrow> json list \<Rightarrow> (string, string) btree \<Rightarrow> string + (string, string) btree" where
  "execution_actors t [] m = Inr m"
| "execution_actors t (j # js) m =
     (case execution_actor j of
        None \<Rightarrow> Inl (shape_error_text t ''ActorDeclaration'' j)
      | Some (a, op) \<Rightarrow>
          try_ok (require (\<not> bt_contains m a) ''duplicate execution actor'') (\<lambda>_.
            execution_actors t js (bt_insert a op m)))"

text \<open>The execution belongs to the schedule and to no earlier run; its identifier.\<close>

definition bound_execution ::
    "tools \<Rightarrow> admitted \<Rightarrow> json \<Rightarrow> json \<Rightarrow> string list \<Rightarrow> string + string" where
  "bound_execution t a sch ex ids =
     try_ok (require (text_is (jfield ex ''schema'') ''mirrors.checkpoint-execution/v1''
         \<and> jfield ex ''schedule'' = sch) ''execution not bound to exact schedule'') (\<lambda>_.
     case as_array (jfield ex ''actors'') of
       None \<Rightarrow> Inl ''missing execution actors''
     | Some as \<Rightarrow>
         try_ok (execution_actors t as []) (\<lambda>actual.
         try_ok (require (actual = a_declarations a) ''execution actor declarations differ'') (\<lambda>_.
         case json_str (jfield ex ''executionId'') of
           None \<Rightarrow> Inl ''missing execution id''
         | Some i \<Rightarrow>
             try_ok (require (length i = 32 \<and> list_all is_lower_hex i \<and> i \<notin> set ids)
               ''stale/invalid execution id'') (\<lambda>_. Inr i))))"

definition counterexample_row :: "nat \<Rightarrow> string \<Rightarrow> json \<Rightarrow> json" where
  "counterexample_row ordinal cat sch =
     json_obj [(''ordinal'', json_nat ordinal), (''category'', JString cat), (''schedule'', sch)]"

definition or_else :: "'a option \<Rightarrow> 'a \<Rightarrow> 'a option" where
  "or_else x y = (case x of None \<Rightarrow> Some y | Some _ \<Rightarrow> x)"

text \<open>
  The part of a run after its category is known: the bookkeeping of comparisons, and for a passed run
  the checks of its evidence and its coverage.
\<close>

definition judge ::
    "tools \<Rightarrow> admitted \<Rightarrow> bool \<Rightarrow> schedule \<Rightarrow> json \<Rightarrow> exploration_sample \<Rightarrow> string \<Rightarrow> 'r progress
       \<Rightarrow> (run_failure + string) \<times> 'r progress" where
  "judge t a wants_comparison candidate sch sample cat0 p0 =
     (let mismatch = (case comparison sample of
            None \<Rightarrow> False | Some c \<Rightarrow> text_is (jfield c ''comparison'') ''step_mismatch'');
          p1 = (if mismatch then p0\<lparr>first_counterexample :=
                  or_else (first_counterexample p0) (counterexample_row (attempted p0 - 1) ''model_mismatch'' sch)\<rparr>
                else p0);
          cat = (if wants_comparison \<and> comparison sample = None then ''comparison_missing'' else cat0);
          p2 = (if comparison sample \<noteq> None
                then p1\<lparr>comparison_runs := comparison_runs p1 + 1, comparison_requested := True\<rparr> else p1)
      in if cat = ''passed'' then
           (case validate_success (execution sample) candidate of
              Inl e \<Rightarrow> (Inl (RunError e), p2)
            | Inr _ \<Rightarrow>
                (case as_array (jfield (execution sample) ''observations'') of
                   None \<Rightarrow> (Inl RunPanicked, p2)
                 | Some obs \<Rightarrow>
                     (case cover t a 0 None obs (covered p2) of
                        (Some e, c) \<Rightarrow> (Inl e, p2\<lparr>covered := c\<rparr>)
                      | (None, c) \<Rightarrow> (Inr cat, p2\<lparr>covered := c, completed := completed p2 + 1\<rparr>))))
         else
           (Inr cat, if cat = ''model_mismatch'' then p2\<lparr>first_counterexample :=
                  or_else (first_counterexample p2) (counterexample_row (attempted p2 - 1) cat sch)\<rparr>
                else p2))"

type_synonym 'r runner = "'r \<Rightarrow> schedule \<Rightarrow> runner_result \<times> 'r"

text \<open>What the runner gave, bound to the schedule and judged; the row gains what it gave.\<close>

definition evaluate ::
    "tools \<Rightarrow> admitted \<Rightarrow> bool \<Rightarrow> schedule \<Rightarrow> json \<Rightarrow> jobject \<Rightarrow> runner_result \<Rightarrow> 'r progress
       \<Rightarrow> (run_failure + string) \<times> jobject \<times> bool \<times> 'r progress" where
  "evaluate t a wants_comparison candidate sch row given p =
     (case given of
        RunnerErr e \<Rightarrow> (Inl (RunError e), row, False, p)
      | RunnerPanic \<Rightarrow> (Inl RunPanicked, row, False, p)
      | Sampled sample \<Rightarrow>
          (let ex = execution sample;
               row1 = bt_insert ''execution'' ex row;
               row2 = (case comparison sample of None \<Rightarrow> row1 | Some c \<Rightarrow> bt_insert ''comparison'' c row1)
           in case bound_execution t a sch ex (execution_ids p) of
                Inl e \<Rightarrow> (Inl (RunError e), row2, False, p)
              | Inr i \<Rightarrow>
                  (let p' = p\<lparr>execution_ids := i # execution_ids p\<rparr>
                   in case category ex (comparison sample) of
                        Inl e \<Rightarrow> (Inl (RunError e), row2, cleanup_confirmed ex, p')
                      | Inr cat \<Rightarrow>
                          (case judge t a wants_comparison candidate sch sample cat p' of
                             (res, p'') \<Rightarrow> (res, row2, cleanup_confirmed ex, p'')))))"

text \<open>\<^verbatim>\<open>chars().take(n)\<close>: a byte that continues a character belongs to the one before.\<close>

fun take_chars :: "nat \<Rightarrow> string \<Rightarrow> string" where
  "take_chars n [] = []"
| "take_chars n (c # s) =
     (if byte_of c div 64 = 2 then c # take_chars n s
      else if n = 0 then [] else c # take_chars (n - 1) s)"

definition failed_category :: string where
  "failed_category = ''runner_or_evidence_failed''"

definition error_text :: "run_failure \<Rightarrow> string" where
  "error_text f = (case f of RunError e \<Rightarrow> take_chars 1024 e | RunPanicked \<Rightarrow> ''runner panicked'')"

definition tally :: "string \<Rightarrow> (string, nat) btree \<Rightarrow> (string, nat) btree" where
  "tally cat m = bt_insert cat ((case bt_get m cat of None \<Rightarrow> 0 | Some n \<Rightarrow> n) + 1) m"

record look_at_run =
  l_cancelled :: bool
  l_late :: bool
  l_cancelled_again :: bool
  l_late_again :: bool
  l_late_after :: bool

record 'r world =
  w_runner :: "'r runner"
  w_looks :: "nat \<Rightarrow> look_at_run"

definition halt_with :: "string \<Rightarrow> 'r progress \<Rightarrow> 'r progress" where
  "halt_with why p = p\<lparr>stop_reason := why, halt := True\<rparr>"

text \<open>The end of an iteration: its row is kept, and the loop goes on or stops (\<open>True\<close>).\<close>

definition record_run ::
    "tools \<Rightarrow> exploration_limits \<Rightarrow> json \<Rightarrow> bool \<Rightarrow> bool \<Rightarrow> string \<Rightarrow> jobject \<Rightarrow> 'r progress \<Rightarrow> bool \<times> 'r progress" where
  "record_run t limits sch cleanup_known late_after cat row p =
     (let ordinal = attempted p - 1;
          row' = JObject (bt_insert ''category'' (JString cat) row);
          p1 = (if cat \<noteq> ''passed'' then p\<lparr>first_failure := or_else (first_failure p) (counterexample_row ordinal cat sch)\<rparr>
                else p);
          p2 = p1\<lparr>categories := tally cat (categories p1)\<rparr>;
          n = length (render_of t row')
      in if evidence p2 + n > max_evidence_bytes limits then
           (True, halt_with ''evidence_limit'' (p2\<lparr>rows := rows p2
              @ [json_obj [(''ordinal'', json_nat ordinal), (''category'', JString cat),
                           (''evidenceOmitted'', JString ''byte_budget'')]]\<rparr>))
         else
           (let p3 = p2\<lparr>evidence := evidence p2 + n, rows := rows p2 @ [row']\<rparr>
            in if halt p3 then (True, p3)
               else if \<not> cleanup_known then (True, halt_with ''unconfirmed_cleanup'' p3)
               else if late_after then (True, halt_with ''time_budget'' p3)
               else (False, p3)))"

definition run_one ::
    "tools \<Rightarrow> admitted \<Rightarrow> finite_space \<Rightarrow> exploration_limits \<Rightarrow> 'r world \<Rightarrow> step list \<Rightarrow> nat \<Rightarrow> json \<Rightarrow> 'r progress
       \<Rightarrow> bool \<times> 'r progress" where
  "run_one t a space limits w ss input_index input p0 =
     (let look = w_looks w (attempted p0)
      in if l_cancelled look \<or> l_late look \<or> attempted p0 \<ge> max_runs limits then
           (True, halt_with (if l_cancelled_again look then ''cancelled''
                             else if l_late_again look then ''time_budget'' else ''run_limit'') p0)
         else
           (let candidate = schedule_new (sp_identity space) input ss;
                sch = sort_keys (schedule_json candidate);
                row = bt_of_list [(''ordinal'', json_nat (attempted p0)), (''inputIndex'', json_nat input_index),
                                  (''schedule'', sch)];
                (given, r) = w_runner w (runner_state p0) candidate;
                p1 = p0\<lparr>attempted := attempted p0 + 1, runner_state := r\<rparr>
            in case evaluate t a (require_model_comparison space) candidate sch row given p1 of
                 (Inr cat, row', known, p2) \<Rightarrow>
                   record_run t limits sch known (l_late_after look) cat row' p2
               | (Inl e, row', known, p2) \<Rightarrow>
                   record_run t limits sch known (l_late_after look) failed_category
                     (bt_insert ''error'' (JString (error_text e)) row')
                     (if e = RunError coverage_error then halt_with ''coverage_limit'' p2 else p2)))"

text \<open>Every schedule with every input, until something stops the loop.\<close>

definition candidates :: "finite_space \<Rightarrow> step list list \<Rightarrow> (step list \<times> nat \<times> json) list" where
  "candidates space shps =
     concat (map (\<lambda>ss. map (Pair ss) (List.enumerate 0 (sp_inputs space))) shps)"

fun run_all ::
    "tools \<Rightarrow> admitted \<Rightarrow> finite_space \<Rightarrow> exploration_limits \<Rightarrow> 'r world \<Rightarrow> (step list \<times> nat \<times> json) list
       \<Rightarrow> 'r progress \<Rightarrow> 'r progress" where
  "run_all t a space limits w [] p = p"
| "run_all t a space limits w ((ss, i, input) # rest) p =
     (case run_one t a space limits w ss i input p of
        (True, p') \<Rightarrow> p'
      | (False, p') \<Rightarrow> run_all t a space limits w rest p')"

section \<open>The report\<close>

definition exploration_profile :: string where
  "exploration_profile = ''mirrorrust.finite-checkpoint-exploration/v1''"

definition json_strings :: "string list \<Rightarrow> json" where
  "json_strings ss = JArray (map JString ss)"

definition initial_output :: "finite_space \<Rightarrow> (string \<times> json) list" where
  "initial_output space =
     [(''schema'', JString ''mirrors.finite-exploration/v1''), (''profile'', JString exploration_profile),
      (''complete'', JBool False), (''enumerationExhausted'', JBool False), (''denominatorKnown'', JBool False),
      (''eligibleRuns'', JNull), (''attemptedRuns'', json_nat 0), (''completedRuns'', json_nat 0),
      (''runs'', JArray []), (''states'', JArray []), (''transitions'', JArray []), (''categories'', JObject []),
      (''firstCounterexample'', JNull), (''firstFailure'', JNull), (''por'', JString ''disabled''),
      (''projection'', json_obj [(''baseVariables'', json_strings (base_variables space)),
         (''instrumentationVariables'', json_strings (instrumentation_variables space))]),
      (''comparison'', JString ''not_requested''),
      (''comparisonRequired'', JBool (require_model_comparison space)), (''comparisonRuns'', json_nat 0)]"

definition option_json :: "json option \<Rightarrow> json" where
  "option_json j = (case j of None \<Rightarrow> JNull | Some v \<Rightarrow> v)"

definition enumeration_output :: "finite_space \<Rightarrow> exploration_limits \<Rightarrow> enumeration \<Rightarrow> (string \<times> json) list" where
  "enumeration_output space limits en =
     (let eligible = length (shapes en) * length (sp_inputs space) in
      [(''denominatorKnown'', JBool (exhausted en)), (''eligibleRunsLowerBound'', json_nat eligible)]
      @ (if exhausted en then [(''eligibleRuns'', json_nat eligible)] else [])
      @ [(''enumeratedScheduleShapes'', json_nat (length (shapes en))),
         (''inputAssignments'', json_nat (length (sp_inputs space))), (''declaredInputs'', JArray (sp_inputs space)),
         (''maxPreemptions'', json_nat (max_preemptions space)),
         (''limits'', json_obj [(''maxEnumeratedSchedules'', json_nat (max_enumerated_schedules limits)),
            (''maxRuns'', json_nat (max_runs limits)), (''timeBudgetMs'', json_nat (time_budget limits div 1000000)),
            (''maxEvidenceBytes'', json_nat (max_evidence_bytes limits))])])"

definition transition_json :: "(nat \<times> nat) \<times> nat \<Rightarrow> json" where
  "transition_json e =
     (case e of ((m, n), k) \<Rightarrow> json_obj [(''from'', json_nat m), (''to'', json_nat n), (''count'', json_nat k)])"

definition all_ran :: "finite_space \<Rightarrow> enumeration \<Rightarrow> 'r progress \<Rightarrow> bool" where
  "all_ran space en p \<longleftrightarrow> exhausted en \<and> attempted p = length (shapes en) * length (sp_inputs space)"

definition all_passed :: "finite_space \<Rightarrow> enumeration \<Rightarrow> 'r progress \<Rightarrow> bool" where
  "all_passed space en p \<longleftrightarrow>
     all_ran space en p \<and> completed p = length (shapes en) * length (sp_inputs space) \<and> \<not> halt p"

definition run_output :: "finite_space \<Rightarrow> enumeration \<Rightarrow> 'r progress \<Rightarrow> (string \<times> json) list" where
  "run_output space en p =
     (let whole = all_passed space en p in
      [(''runs'', JArray (rows p)), (''states'', JArray (cov_rows (covered p))),
       (''categories'', JObject (map (\<lambda>(c, n). (c, json_nat n)) (categories p))),
       (''firstCounterexample'', option_json (first_counterexample p)),
       (''firstFailure'', option_json (first_failure p)),
       (''comparison'', JString (if comparison_requested p then ''requested'' else ''not_requested'')),
       (''transitions'', JArray (map transition_json (cov_edges (covered p)))),
       (''comparisonRuns'', json_nat (comparison_runs p)), (''attemptedRuns'', json_nat (attempted p)),
       (''completedRuns'', json_nat (completed p)), (''enumerationExhausted'', JBool (all_ran space en p)),
       (''complete'', JBool whole),
       (''stopReason'', JString (if stop_reason p \<noteq> [] then stop_reason p
                                 else if whole then ''complete'' else ''non_pass_runs'')),
       (''status'', JString (if whole then ''complete'' else ''incomplete''))])"

definition search_of :: "admitted \<Rightarrow> finite_space \<Rightarrow> exploration_limits \<Rightarrow> (nat \<Rightarrow> look) \<Rightarrow> search" where
  "search_of a space limits looks =
     \<lparr>s_actors = a_actors a, s_length = a_length a, s_bound = max_preemptions space,
      s_cap = max_enumerated_schedules limits, s_looks = looks\<rparr>"

definition progress_start :: "string \<Rightarrow> 'r \<Rightarrow> 'r progress" where
  "progress_start why r =
     \<lparr>attempted = 0, completed = 0, evidence = 0, comparison_runs = 0, stop_reason = why, halt = False,
      covered = \<lparr>cov_states = [], cov_rows = [], cov_edges = [], cov_bytes = 0\<rparr>, execution_ids = [], rows = [],
      categories = [], first_counterexample = None, first_failure = None, comparison_requested = False,
      runner_state = r\<rparr>"

definition explore_finite ::
    "tools \<Rightarrow> finite_space \<Rightarrow> 'r world \<Rightarrow> (nat \<Rightarrow> look) \<Rightarrow> exploration_limits \<Rightarrow> nat \<Rightarrow> 'r \<Rightarrow> json \<times> 'r" where
  "explore_finite t space w looks limits elapsed_ms r =
     (case admit_space t space limits of
        Inl e \<Rightarrow>
          (json_obj (initial_output space
             @ [(''status'', JString ''invalid_declaration''), (''stopReason'', JString ''invalid_declaration''),
                (''error'', JString (take_chars 1024 e)), (''elapsedMs'', json_nat elapsed_ms)]), r)
      | Inr a \<Rightarrow>
          (let en = enumerate (search_of a space limits looks);
               p = run_all t a space limits w (candidates space (shapes en)) (progress_start (reason en) r)
           in (json_obj (initial_output space @ enumeration_output space limits en @ run_output space en p
                 @ [(''elapsedMs'', json_nat elapsed_ms)]), runner_state p)))"

section \<open>What the loop keeps\<close>

definition row_passed :: "json \<Rightarrow> bool" where
  "row_passed row \<longleftrightarrow> jfield row ''category'' = JString ''passed''"

definition candidate_of :: "finite_space \<Rightarrow> step list \<times> nat \<times> json \<Rightarrow> schedule" where
  "candidate_of space job = (case job of (ss, i, input) \<Rightarrow> schedule_new (sp_identity space) input ss)"

text \<open>Evidence the runner gave for a schedule, and that was classified as passed.\<close>

definition evidence_of :: "'r runner \<Rightarrow> schedule \<Rightarrow> json \<Rightarrow> bool" where
  "evidence_of rn sch j \<longleftrightarrow>
     (\<exists>st st' sample. rn st sch = (Sampled sample, st') \<and> j = execution sample
        \<and> category j (comparison sample) = Inr ''passed'')"

lemma evidence_ofI:
  "rn st sch = (Sampled sample, st') \<Longrightarrow> category (execution sample) (comparison sample) = Inr ''passed'' \<Longrightarrow>
     j = execution sample \<Longrightarrow> evidence_of rn sch j"
  unfolding evidence_of_def by blast

text \<open>A row is about its schedule, and a passed one holds the evidence of it.\<close>

definition row_of :: "'r runner \<Rightarrow> finite_space \<Rightarrow> step list \<times> nat \<times> json \<Rightarrow> json \<Rightarrow> bool" where
  "row_of rn space job row \<longleftrightarrow>
     jfield row ''schedule'' = sort_keys (schedule_json (candidate_of space job))
     \<and> (row_passed row \<longrightarrow> validate_success (jfield row ''execution'') (candidate_of space job) = Inr ()
          \<and> evidence_of rn (candidate_of space job) (jfield row ''execution''))"

definition progressed :: "'r runner \<Rightarrow> finite_space \<Rightarrow> (step list \<times> nat \<times> json) list \<Rightarrow> 'r progress \<Rightarrow> bool" where
  "progressed rn space jobs p \<longleftrightarrow>
     attempted p = length jobs \<and> list_all2 (row_of rn space) jobs (rows p)
     \<and> completed p = length (filter row_passed (rows p))"

lemma judge_keeps:
  assumes "judge t a wc candidate sch sample cat p = (res, p')"
  shows "attempted p' = attempted p" and "rows p' = rows p" and "halt p' = halt p"
    and "completed p' = completed p + (if res = Inr ''passed'' then 1 else 0)"
    and "res = Inr ''passed'' \<Longrightarrow> validate_success (execution sample) candidate = Inr () \<and> cat = ''passed''"
  using assms
  by (auto simp: judge_def Let_def split: if_splits sum.splits option.splits prod.splits)

lemma evaluate_keeps:
  assumes "evaluate t a wc candidate sch row given p = (res, row', known, p')"
  shows "attempted p' = attempted p" and "rows p' = rows p" and "halt p' = halt p"
    and "completed p' = completed p + (if res = Inr ''passed'' then 1 else 0)"
    and "bt_get row' ''schedule'' = bt_get row ''schedule''"
    and "res = Inr ''passed'' \<Longrightarrow>
      validate_success (jfield (JObject row') ''execution'') candidate = Inr ()
      \<and> (\<exists>sample. given = Sampled sample \<and> jfield (JObject row') ''execution'' = execution sample
           \<and> category (execution sample) (comparison sample) = Inr ''passed'')"
proof -
  have "attempted p' = attempted p \<and> rows p' = rows p \<and> halt p' = halt p
    \<and> completed p' = completed p + (if res = Inr ''passed'' then 1 else 0)
    \<and> bt_get row' ''schedule'' = bt_get row ''schedule''
    \<and> (res = Inr ''passed'' \<longrightarrow> validate_success (jfield (JObject row') ''execution'') candidate = Inr ()
         \<and> (\<exists>sample. given = Sampled sample \<and> jfield (JObject row') ''execution'' = execution sample
              \<and> category (execution sample) (comparison sample) = Inr ''passed''))"
  proof (cases given)
    case (Sampled sample)
    let ?ex = "execution sample"
    let ?row = "case comparison sample of None \<Rightarrow> bt_insert ''execution'' ?ex row
      | Some c \<Rightarrow> bt_insert ''comparison'' c (bt_insert ''execution'' ?ex row)"
    have r: "bt_get ?row ''schedule'' = bt_get row ''schedule''" "jfield (JObject ?row) ''execution'' = ?ex"
      by (auto split: option.split)
    show ?thesis
    proof (cases "bound_execution t a sch ?ex (execution_ids p)")
      case (Inl e)
      then have "res = Inl (RunError e) \<and> row' = ?row \<and> p' = p" using assms Sampled by (simp add: evaluate_def Let_def)
      then show ?thesis using r by simp
    next
      case b: (Inr i)
      let ?p = "p\<lparr>execution_ids := i # execution_ids p\<rparr>"
      show ?thesis
      proof (cases "category ?ex (comparison sample)")
        case (Inl e)
        then have "res = Inl (RunError e) \<and> row' = ?row \<and> p' = ?p" using assms Sampled b by (simp add: evaluate_def Let_def)
        then show ?thesis using r by simp
      next
        case (Inr cat)
        obtain res1 p1 where j: "judge t a wc candidate sch sample cat ?p = (res1, p1)" by fastforce
        then have "res = res1 \<and> row' = ?row \<and> p' = p1" using assms Sampled b Inr by (simp add: evaluate_def Let_def)
        then show ?thesis using r judge_keeps [OF j] Inr Sampled by auto
      qed
    qed
  qed (use assms in \<open>auto simp: evaluate_def\<close>)
  then show "attempted p' = attempted p" "rows p' = rows p" "halt p' = halt p"
    "completed p' = completed p + (if res = Inr ''passed'' then 1 else 0)"
    "bt_get row' ''schedule'' = bt_get row ''schedule''"
    "res = Inr ''passed'' \<Longrightarrow> validate_success (jfield (JObject row') ''execution'') candidate = Inr ()
      \<and> (\<exists>sample. given = Sampled sample \<and> jfield (JObject row') ''execution'' = execution sample
           \<and> category (execution sample) (comparison sample) = Inr ''passed'')"
    by blast+
qed

lemma record_run_keeps:
  assumes "record_run t limits sch known late cat row p = (stop, p')" and "\<not> halt p'"
  shows "\<not> stop \<and> \<not> halt p \<and> attempted p' = attempted p \<and> completed p' = completed p
    \<and> rows p' = rows p @ [JObject (bt_insert ''category'' (JString cat) row)]"
  using assms by (auto simp: record_run_def Let_def halt_with_def split: if_splits)

lemma record_run_stop: "record_run t limits sch known late cat row p = (True, p') \<Longrightarrow> halt p'"
  by (auto simp: record_run_def Let_def halt_with_def split: if_splits)

lemma run_one_stop: "run_one t a space limits w ss i input p = (True, p') \<Longrightarrow> halt p'"
  using record_run_stop
  by (auto simp: run_one_def Let_def halt_with_def split: if_splits prod.splits sum.splits)

lemma record_run_continue: "record_run t limits sch known late cat row p = (False, p') \<Longrightarrow> \<not> halt p'"
  by (auto simp: record_run_def Let_def halt_with_def split: if_splits)

lemma run_one_continue: "run_one t a space limits w ss i input p = (False, p') \<Longrightarrow> \<not> halt p'"
  by (auto simp: run_one_def Let_def halt_with_def dest: record_run_continue split: if_splits prod.splits sum.splits)

lemma failed_not_passed: "failed_category \<noteq> ''passed''"
  by (simp add: failed_category_def)

lemma run_one_progress:
  assumes one: "run_one t a space limits w ss i input p = (False, p')" and run: "\<not> halt p'"
    and prog: "progressed (w_runner w) space jobs p"
  shows "\<not> halt p \<and> progressed (w_runner w) space (jobs @ [(ss, i, input)]) p'"
proof -
  let ?job = "(ss, i, input)"
  let ?c = "candidate_of space ?job"
  let ?sch = "sort_keys (schedule_json ?c)"
  let ?row = "bt_of_list [(''ordinal'', json_nat (attempted p)), (''inputIndex'', json_nat i), (''schedule'', ?sch)]"
  obtain given r where g: "w_runner w (runner_state p) ?c = (given, r)" by fastforce
  let ?p1 = "p\<lparr>attempted := attempted p + 1, runner_state := r\<rparr>"
  obtain res row' known p2 where
    e: "evaluate t a (require_model_comparison space) ?c ?sch ?row given ?p1 = (res, row', known, p2)"
    by (metis prod_cases4)
  note k = evaluate_keeps [OF e]
  have sch: "bt_get row' ''schedule'' = Some ?sch" using k(5) by (simp add: bt_get_of_list)
  obtain late cat row'' p3 where rec: "record_run t limits ?sch known late cat row'' p3 = (False, p')"
    and cat: "cat = (case res of Inr c \<Rightarrow> c | Inl _ \<Rightarrow> failed_category)"
    and row'': "row'' = (case res of Inr _ \<Rightarrow> row' | Inl e \<Rightarrow> bt_insert ''error'' (JString (error_text e)) row')"
    and p3: "p3 = p2 \<or> p3 = halt_with ''coverage_limit'' p2"
    using one e g by (auto simp: run_one_def Let_def candidate_of_def split: if_splits sum.splits prod.splits)
  note kept = record_run_keeps [OF rec run]
  let ?new = "JObject (bt_insert ''category'' (JString cat) row'')"
  have p3': "p3 = p2" using p3 kept by (auto simp: halt_with_def)
  have "row_passed ?new \<longleftrightarrow> res = Inr ''passed''"
    using failed_not_passed by (auto simp: row_passed_def cat split: sum.splits)
  moreover have "row_of (w_runner w) space ?job ?new"
  proof -
    have "jfield ?new ''schedule'' = ?sch" using sch by (auto simp: row'' split: sum.split)
    moreover have "validate_success (jfield ?new ''execution'') ?c = Inr ()
        \<and> evidence_of (w_runner w) ?c (jfield ?new ''execution'')" if "res = Inr ''passed''"
    proof -
      have "jfield ?new ''execution'' = jfield (JObject row') ''execution''" using that by (simp add: row'')
      then show ?thesis using k(6) [OF that] g evidence_ofI [of "w_runner w" "runner_state p" ?c] by auto
    qed
    ultimately show ?thesis using \<open>row_passed ?new \<longleftrightarrow> res = Inr ''passed''\<close> by (simp add: row_of_def)
  qed
  ultimately show ?thesis
    using kept k prog p3' by (auto simp: progressed_def intro!: list_all2_appendI)
qed

lemma run_all_progress:
  "progressed (w_runner w) space jobs p \<Longrightarrow> \<not> halt (run_all t a space limits w rest p) \<Longrightarrow>
     progressed (w_runner w) space (jobs @ rest) (run_all t a space limits w rest p)"
proof (induction rest arbitrary: jobs p)
  case (Cons x rest)
  obtain ss i input where x: "x = (ss, i, input)" by (cases x) auto
  obtain stop p' where one: "run_one t a space limits w ss i input p = (stop, p')" by fastforce
  show ?case
  proof (cases stop)
    case True
    then have "halt p'" using run_one_stop [of t a space limits w ss i input p p'] one by simp
    then show ?thesis using Cons(3) one True by (simp add: x)
  next
    case False
    have eq: "run_all t a space limits w (x # rest) p = run_all t a space limits w rest p'"
      using one False by (simp add: x)
    have one': "run_one t a space limits w ss i input p = (False, p')" using one False by simp
    have run: "\<not> halt p'" by (rule run_one_continue [OF one'])
    show ?thesis
      using Cons(1) [of "jobs @ [x]" p'] run_one_progress [OF one' run Cons(2)] Cons(3)
      unfolding eq by (simp add: x)
  qed
qed simp

section \<open>Properties\<close>

lemma require_Inr [simp]: "require b m = Inr u \<longleftrightarrow> b"
  by (simp add: require_def)

lemma chain_steps_length: "chain_steps a cs = Inr ss \<Longrightarrow> length ss = length cs"
  by (induction cs arbitrary: ss) auto

lemma admit_chains_facts:
  "admit_chains as decls ops ss = Inr (decls', ss') \<Longrightarrow>
     length ss' = length ss + total_length as
     \<and> distinct (map (\<lambda>a. decl_actor (chain_actor a)) as)
     \<and> (\<forall>a \<in> set as. \<not> bt_contains decls (decl_actor (chain_actor a)))"
proof (induction as decls ops ss arbitrary: decls' ss' rule: admit_chains.induct)
  case (2 a as decls ops ss)
  let ?n = "decl_actor (chain_actor a)"
  obtain new where new: "\<not> bt_contains decls ?n" "chain_steps ?n (chain_checkpoints a) = Inr new"
    "admit_chains as (bt_insert ?n (operation (chain_actor a)) decls) (operation (chain_actor a) # ops) (ss @ new)
       = Inr (decls', ss')"
    using 2(2) by (auto simp: Let_def)
  have ok: "require (is_identifier ?n \<and> is_identifier (operation (chain_actor a)) \<and> \<not> bt_contains decls ?n
        \<and> operation (chain_actor a) \<notin> set ops) ''duplicate/invalid actor or operation'' = Inr ()"
    "require (chain_checkpoints a \<noteq> [] \<and> last (chain_checkpoints a) = completion)
        ''actor chain requires completion'' = Inr ()"
    using 2(2) by (auto simp: Let_def)
  have "length ss' = length (ss @ new) + total_length as
     \<and> distinct (map (\<lambda>a. decl_actor (chain_actor a)) as)
     \<and> (\<forall>b \<in> set as. \<not> bt_contains (bt_insert ?n (operation (chain_actor a)) decls) (decl_actor (chain_actor b)))"
    by (rule 2(1) [OF refl ok(1) ok(2) new(2) new(3)])
  then show ?case
    using new(1) chain_steps_length [OF new(2)]
    by (auto simp: total_length_def bt_contains_def split: if_splits)
qed (simp add: total_length_def)

lemma admit_inputs_distinct:
  "admit_inputs t i ss ins keys = Inr () \<Longrightarrow>
     distinct (map (render_of t) ins) \<and> set (map (render_of t) ins) \<inter> set keys = {}"
  by (induction t i ss ins keys rule: admit_inputs.induct) (auto split: sum.splits)

lemma admit_space_facts:
  assumes "admit_space t space limits = Inr a"
  shows "a_length a = total_length (a_actors a)"
    and "distinct (map (\<lambda>c. decl_actor (chain_actor c)) (a_actors a))" and "distinct (sp_inputs space)"
    and "a_actors a = sort_key (\<lambda>c. decl_actor (chain_actor c)) (sp_actors space)"
proof -
  obtain decls ss where s: "admit_chains (sort_key (\<lambda>c. decl_actor (chain_actor c)) (sp_actors space)) [] [] [] = Inr (decls, ss)"
    "admit_inputs t (sp_identity space) ss (sp_inputs space) [] = Inr ()"
    "a_actors a = sort_key (\<lambda>c. decl_actor (chain_actor c)) (sp_actors space)" "a_length a = length ss"
    using assms by (auto simp: admit_space_def Let_def)
  then show "a_length a = total_length (a_actors a)" "distinct (map (\<lambda>c. decl_actor (chain_actor c)) (a_actors a))"
    "distinct (sp_inputs space)"
    "a_actors a = sort_key (\<lambda>c. decl_actor (chain_actor c)) (sp_actors space)"
    using admit_chains_facts [OF s(1)] admit_inputs_distinct [OF s(2)] by (auto simp: distinct_map)
qed

lemma candidates_product:
  "map (candidate_of space) (candidates space shps)
     = map (\<lambda>(ss, input). schedule_new (sp_identity space) input ss) (List.product shps (sp_inputs space))"
proof (induction shps)
  case (Cons ss shps)
  have "map (candidate_of space) (map (Pair ss) (List.enumerate n xs))
      = map (\<lambda>(ss, input). schedule_new (sp_identity space) input ss) (map (Pair ss) xs)" for n xs
    by (induction xs arbitrary: n) (simp_all add: candidate_of_def)
  then show ?case using Cons by (simp add: candidates_def)
qed (simp add: candidates_def)

lemma candidates_distinct:
  assumes "distinct shps" and "distinct (sp_inputs space)"
  shows "distinct (map (candidate_of space) (candidates space shps))"
  unfolding candidates_product using assms
  by (auto simp: distinct_map distinct_product inj_on_def schedule_new_def)

lemma candidates_length: "length (candidates space shps) = length shps * length (sp_inputs space)"
  using arg_cong [OF candidates_product, of length] by (simp add: length_product)

lemma list_all_filter_length: "length (filter P xs) = length xs \<Longrightarrow> list_all P xs"
  unfolding list_all_iff using length_filter_less [of _ xs P] by auto

lemma product_concat_map: "List.product xs ys = concat (map (\<lambda>x. map (Pair x) ys) xs)"
  by (induction xs) simp_all

text \<open>What a complete exploration did, with where its evidence comes from.\<close>

lemma complete_runs:
  assumes "explore_finite t space w looks limits ms r = (out, r')" and "jfield out ''complete'' = JBool True"
  shows "\<exists>as ws jobs runs. as = sort_key (\<lambda>c. decl_actor (chain_actor c)) (sp_actors space)
    \<and> set ws = {v. interleaving as v \<and> preemptions v \<le> max_preemptions space} \<and> distinct ws
    \<and> jobs = [schedule_new (sp_identity space) input (steps_of as v). v \<leftarrow> ws, input \<leftarrow> sp_inputs space]
    \<and> distinct jobs \<and> jfield out ''runs'' = JArray runs
    \<and> list_all2 (\<lambda>sch row. jfield row ''schedule'' = sort_keys (schedule_json sch) \<and> row_passed row
         \<and> validate_success (jfield row ''execution'') sch = Inr ()
         \<and> evidence_of (w_runner w) sch (jfield row ''execution'')) jobs runs"
proof (cases "admit_space t space limits")
  case (Inl e)
  then have "jfield out ''complete'' = JBool False"
    using assms(1) by (auto simp: explore_finite_def jfield_json_obj initial_output_def)
  then show ?thesis using assms(2) by simp
next
  case (Inr a)
  let ?e = "search_of a space limits looks"
  let ?en = "enumerate ?e" and ?as = "sort_key (\<lambda>c. decl_actor (chain_actor c)) (sp_actors space)"
  let ?jobs = "candidates space (shapes ?en)"
  let ?p = "run_all t a space limits w ?jobs (progress_start (reason ?en) r)"
  have out: "out = json_obj (initial_output space @ enumeration_output space limits ?en @ run_output space ?en ?p
      @ [(''elapsedMs'', json_nat ms)])"
    using assms(1) Inr by (simp add: explore_finite_def Let_def)
  have len: "length ?jobs = length (shapes ?en) * length (sp_inputs space)" by (rule candidates_length)
  have whole: "all_passed space ?en ?p" and runs: "jfield out ''runs'' = JArray (rows ?p)"
    using assms(2) unfolding out by (simp_all add: jfield_json_obj run_output_def Let_def)
  have all: "exhausted ?en" "attempted ?p = length ?jobs" "completed ?p = length ?jobs" "\<not> halt ?p"
    using whole by (simp_all add: all_passed_def all_ran_def len)
  have prog: "progressed (w_runner w) space ?jobs ?p"
    using run_all_progress [of w space "[]" "progress_start (reason ?en) r"] all(4)
    by (simp add: progressed_def progress_start_def)
  then have passed: "list_all row_passed (rows ?p)" and each: "list_all2 (row_of (w_runner w) space) ?jobs (rows ?p)"
    using all(3) by (auto simp: progressed_def list_all2_lengthD list_all_filter_length)
  note facts = admit_space_facts [OF Inr]
  have e: "s_actors ?e = ?as" "s_length ?e = total_length (s_actors ?e)" "s_bound ?e = max_preemptions space"
    using facts by (simp_all add: search_of_def)
  let ?ws = "all_words ?e"
  let ?js = "[schedule_new (sp_identity space) input (steps_of ?as v). v \<leftarrow> ?ws, input \<leftarrow> sp_inputs space]"
  have shp: "shapes ?en = map (steps_of ?as) ?ws" using enumerate_exhausted(1) [OF all(1)] e(1) by simp
  have js: "map (candidate_of space) ?jobs = ?js"
    unfolding candidates_product shp by (simp add: product_concat_map map_concat comp_def)
  have "distinct (shapes ?en)"
    by (rule enumerate_distinct [OF all(1) e(2)]) (use facts(2,4) e(1) in simp)
  then have "distinct ?js" using candidates_distinct [OF _ facts(3)] js by metis
  moreover have "distinct ?ws" unfolding all_words_def using paths_sorted strict_sorted_iff by blast
  moreover have "set ?ws = {v. interleaving ?as v \<and> preemptions v \<le> max_preemptions space}"
    using all_words_interleavings [OF e(2)] e(1,3) by simp
  moreover have "list_all2 (\<lambda>sch row. jfield row ''schedule'' = sort_keys (schedule_json sch) \<and> row_passed row
         \<and> validate_success (jfield row ''execution'') sch = Inr ()
         \<and> evidence_of (w_runner w) sch (jfield row ''execution'')) ?js (rows ?p)"
    unfolding js [symmetric] using each passed
    by (auto simp: list_all2_conv_all_nth list_all_length row_of_def)
  ultimately show ?thesis using runs by blast
qed

text \<open>
  C30. A complete exploration is complete: when the report says so, its runs are one for every
  interleaving of the chains within the preemption bound and every input, no schedule twice and none
  left out; and each passed on evidence that matches its schedule event by event.
\<close>

theorem complete_exploration:
  assumes "explore_finite t space w looks limits ms r = (out, r')" and "jfield out ''complete'' = JBool True"
  shows "\<exists>as ws jobs runs. as = sort_key (\<lambda>c. decl_actor (chain_actor c)) (sp_actors space)
    \<and> set ws = {v. interleaving as v \<and> preemptions v \<le> max_preemptions space} \<and> distinct ws
    \<and> jobs = [schedule_new (sp_identity space) input (steps_of as v). v \<leftarrow> ws, input \<leftarrow> sp_inputs space]
    \<and> distinct jobs \<and> jfield out ''runs'' = JArray runs
    \<and> list_all2 (\<lambda>sch row. jfield row ''schedule'' = sort_keys (schedule_json sch) \<and> row_passed row
         \<and> validate_success (jfield row ''execution'') sch = Inr ()) jobs runs"
proof -
  have weaker: "jfield row ''schedule'' = sort_keys (schedule_json sch) \<and> row_passed row
      \<and> validate_success (jfield row ''execution'') sch = Inr ()"
    if "jfield row ''schedule'' = sort_keys (schedule_json sch) \<and> row_passed row
      \<and> validate_success (jfield row ''execution'') sch = Inr () \<and> evidence_of (w_runner w) sch (jfield row ''execution'')"
    for row sch using that by blast
  from complete_runs [OF assms] show ?thesis
  proof (elim exE conjE, goal_cases)
    case (1 as ws jobs runs)
    from 1(1-6) list_all2_mono [OF 1(7) weaker] show ?case by (intro exI conjI)
  qed
qed

text \<open>One actor that only completes, one input; the runner reports a run that went well.\<close>

definition sample_space :: finite_space where
  "sample_space =
     \<lparr>sp_identity = sample_identity,
      sp_actors = [\<lparr>chain_actor = \<lparr>decl_actor = ''w'', operation = ''op''\<rparr>, chain_checkpoints = [completion]\<rparr>],
      sp_inputs = [JNumber ''0''], max_preemptions = 0, require_model_comparison = False, base_variables = [''x''],
      instrumentation_variables = []\<rparr>"

definition sample_tools :: tools where
  "sample_tools =
     \<lparr>codec_of = sample_codec, read_json = (\<lambda>_. Some JNull), bigint_from = (\<lambda>_. None),
      texts_of = sample_texts, shape_error_text = (\<lambda>_ _. [])\<rparr>"

definition sample_event :: "nat \<Rightarrow> string \<Rightarrow> (string \<times> json) list \<Rightarrow> json" where
  "sample_event n kind extra =
     json_obj ([(''ordinal'', json_nat n), (''step'', json_nat 0), (''actor'', JString ''w''),
                (''kind'', JString kind)] @ extra)"

definition sample_observation :: "nat \<Rightarrow> json" where
  "sample_observation n = json_obj [(''afterSteps'', json_nat n), (''state'', JObject [(''x'', JBool True)])]"

definition sample_execution :: "schedule \<Rightarrow> json" where
  "sample_execution sch =
     json_obj [(''schema'', JString ''mirrors.checkpoint-execution/v1''),
       (''schedule'', sort_keys (schedule_json sch)),
       (''actors'', JArray [json_obj [(''actor'', JString ''w''), (''operation'', JString ''op'')]]),
       (''executionId'', JString (replicate 32 (CHR ''a''))), (''cleanup'', JString ''confirmed''),
       (''remainingActors'', JArray []), (''passed'', JBool True), (''outcome'', JString ''completed''),
       (''scheduleCompleted'', JBool True),
       (''events'', JArray [sample_event 0 ''permit'' [],
          sample_event 1 ''arrival'' [(''checkpoint'', JString completion)]]),
       (''observations'', JArray [sample_observation 0, sample_observation 1])]"

definition calm_run :: look_at_run where
  "calm_run = \<lparr>l_cancelled = False, l_late = False, l_cancelled_again = False, l_late_again = False,
     l_late_after = False\<rparr>"

definition sample_world :: "unit world" where
  "sample_world = \<lparr>w_runner = (\<lambda>_ sch. (Sampled \<lparr>execution = sample_execution sch, comparison = None\<rparr>, ())),
     w_looks = (\<lambda>_. calm_run)\<rparr>"

definition sample_admitted :: admitted where
  "sample_admitted = \<lparr>a_actors = sp_actors sample_space, a_declarations = [(''w'', ''op'')], a_length = 1,
     a_variables = [''x''], a_ignored = []\<rparr>"

lemma sample_admitted: "admit_space sample_tools sample_space exploration_limits_default = Inr sample_admitted"
proof -
  have "limits_ok sample_space exploration_limits_default" "is_identifier ''w''" "is_identifier ''op''"
    "is_identifier ''x''"
    by code_simp+
  then show ?thesis
    using encode_sample_schedule
    by (simp add: admit_space_def sample_space_def sample_tools_def sample_admitted_def sample_schedule_def
        bt_contains_def require_def)
qed

definition calm_look :: "nat \<Rightarrow> look" where
  "calm_look n = (False, False, False)"

definition sample_search :: search where
  "sample_search = search_of sample_admitted sample_space exploration_limits_default calm_look"

definition sample_progress :: "unit progress" where
  "sample_progress =
     run_all sample_tools sample_admitted sample_space exploration_limits_default sample_world
       (candidates sample_space [[step_new ''w'' completion]]) (progress_start [] ())"

lemma sample_ran:
  "enumerate sample_search = \<lparr>shapes = [[step_new ''w'' completion]], exhausted = True, reason = []\<rparr>"
  "attempted sample_progress = 1 \<and> completed sample_progress = 1 \<and> \<not> halt sample_progress"
  by code_simp+

definition sample_report :: "json \<times> unit" where
  "sample_report =
     explore_finite sample_tools sample_space sample_world calm_look exploration_limits_default 7 ()"

lemma sample_complete: "jfield (fst sample_report) ''complete'' = JBool True"
proof -
  have "all_passed sample_space (enumerate sample_search) sample_progress"
    using sample_ran by (simp add: all_passed_def all_ran_def sample_space_def)
  then show ?thesis
    using sample_admitted sample_ran(1)
    by (simp add: sample_report_def explore_finite_def Let_def sample_search_def [symmetric]
        sample_progress_def [symmetric] jfield_json_obj run_output_def)
qed

lemma one_chain: "{v. interleaving (sp_actors sample_space) v \<and> preemptions v \<le> 0} = {[0]}"
proof -
  have "v = [0]" if v: "set v \<subseteq> {0}" "count_list v (0::nat) = Suc 0" for v
  proof -
    have "v = replicate (length v) 0" using v(1) by (intro replicate_eqI) auto
    moreover have "count_list (replicate n 0) (0::nat) = n" for n by (induction n) simp_all
    ultimately have "length v = Suc 0" using v(2) by metis
    then show ?thesis using v(1) by (cases v) auto
  qed
  then show ?thesis by (auto simp: interleaving_def sample_space_def)
qed

theorem complete_exploration_witness:
  "\<exists>row. jfield (fst sample_report) ''runs'' = JArray [row] \<and> row_passed row
     \<and> validate_success (jfield row ''execution'')
         (schedule_new sample_identity (JNumber ''0'') [step_new ''w'' completion]) = Inr ()"
proof -
  let ?job = "schedule_new sample_identity (JNumber ''0'') [step_new ''w'' completion]"
  have "explore_finite sample_tools sample_space sample_world calm_look exploration_limits_default 7 ()
      = (fst sample_report, snd sample_report)" by (simp only: sample_report_def prod.collapse)
  from complete_exploration [OF this sample_complete] obtain ws runs where ws:
    "set ws = {v. interleaving (sp_actors sample_space) v \<and> preemptions v \<le> 0}" "distinct ws"
    and runs: "jfield (fst sample_report) ''runs'' = JArray runs"
    and rows: "list_all2 (\<lambda>sch row. jfield row ''schedule'' = sort_keys (schedule_json sch) \<and> row_passed row
         \<and> validate_success (jfield row ''execution'') sch = Inr ())
       [schedule_new (sp_identity sample_space) input (steps_of (sp_actors sample_space) v).
          v \<leftarrow> ws, input \<leftarrow> sp_inputs sample_space] runs"
    by (auto simp: sample_space_def)
  have "set ws = {[0]}" using one_chain by (simp add: ws(1))
  then have "ws = [[0]]" using ws(2) distinct_card [OF ws(2)] by (cases ws; cases "tl ws") auto
  then show ?thesis using runs rows
    by (auto simp: list_all2_Cons1 steps_of_def sample_space_def)
qed

end
