(* ===== verification/Schedule_Receipt.thy ===== *)
theory Schedule_Receipt
  imports Schedule_Cleanup Exploration
begin

text \<open>
  What an execution says of itself: \<^verbatim>\<open>Execution::receipt\<close> of \<^verbatim>\<open>src/schedule.rs\<close>, the runner of
  \<^verbatim>\<open>src/schedule_exploration.rs\<close> that hands such receipts to the exploration, and the fit of the
  two: the exploration accepts the receipt of an execution exactly when the execution passed.
\<close>

section \<open>Receipts\<close>

fun outcome_name :: "outcome \<Rightarrow> string" where
  "outcome_name Completed = ''completed''"
| "outcome_name InvalidSchedule = ''invalid_schedule''"
| "outcome_name IncompatibleIdentity = ''incompatible_identity''"
| "outcome_name Cancelled = ''cancelled''"
| "outcome_name TimedOut = ''timed_out''"
| "outcome_name UnexpectedCheckpoint = ''unexpected_checkpoint''"
| "outcome_name UncontrolledActor = ''uncontrolled_actor''"
| "outcome_name ApplicationFailed = ''application_failed''"
| "outcome_name ObservationFailed = ''observation_failed''"
| "outcome_name ResourceFailed = ''resource_failed''"

definition detail_text :: "tools \<Rightarrow> detail \<Rightarrow> string" where
  "detail_text t d = (case d of Detail s \<Rightarrow> s | FromSchedule e \<Rightarrow> schedule_error_text t e)"

definition report_fields :: "tools \<Rightarrow> report \<Rightarrow> (string \<times> json) list" where
  "report_fields t rep =
     [(''outcome'', JString (outcome_name (r_outcome rep))), (''detail'', JString (detail_text t (r_detail rep))),
      (''scheduleCompleted'', JBool (schedule_completed rep)), (''cleanup'', JString (cleanup_name (r_cleanup rep))),
      (''remainingActors'', strings_row (remaining_actors rep)), (''generation'', json_nat (generation rep)),
      (''executionId'', JString (execution_id rep)), (''events'', JArray (events rep)),
      (''observations'', JArray (observations rep)), (''cleanupAttempts'', JArray (cleanup_attempts rep))]"

definition declaration_json :: "actor_declaration \<Rightarrow> json" where
  "declaration_json d = json_obj [(''actor'', JString (decl_actor d)), (''operation'', JString (operation d))]"

definition millis :: "nat \<Rightarrow> nat" where
  "millis d = d div 1000000"

definition policy_json :: "policy \<Rightarrow> json" where
  "policy_json p = json_obj
     [(''maxActors'', json_nat (max_actors p)), (''maxSteps'', json_nat (max_steps p)),
      (''executionTimeoutMs'', json_nat (millis (execution_timeout p))),
      (''cleanupTimeoutMs'', json_nat (millis (cleanup_timeout p)))]"

definition thread_json :: "actor_state \<Rightarrow> json" where
  "thread_json a = (case thread a of None \<Rightarrow> JNull | Some n \<Rightarrow> JString (''ThreadId('' @ show_nat n @ '')''))"

definition string_set :: "string list \<Rightarrow> string list" where
  "string_set ss = map fst (bt_of_list (map (\<lambda>s. (s, ())) ss))"

definition receipt_fields :: "tools \<Rightarrow> run \<Rightarrow> report \<Rightarrow> (string \<times> json) list" where
  "receipt_fields t r rep =
     report_fields t rep
     @ [(''schema'', JString ''mirrors.checkpoint-execution/v1''),
        (''schedule'', sort_keys (schedule_json (run_schedule_of r))),
        (''actors'', JArray (map declaration_json (declarations r))),
        (''checkpoints'', strings_row (string_set (checkpoints r))), (''policy'', policy_json (run_policy r)),
        (''coverage'', JString ''recorded-schedule-only''), (''passed'', JBool (passed rep)),
        (''actorThreads'', json_obj (map (\<lambda>a. (decl_actor (declared a), thread_json a)) (actors (shared r))))]"

text \<open>The report is taken under one lock, the threads of the actors under the next.\<close>

definition receipt :: "tools \<Rightarrow> run \<Rightarrow> json \<times> run" where
  "receipt t r0 =
     (let r1 = locked r0; rep = report (shared r1); r2 = locked r1 in (json_obj (receipt_fields t r2 rep), r2))"

section \<open>The runner of the exploration\<close>

text \<open>
  What the runner keeps: the execution it ran last, and how many it has run.  What a run finds is its
  environment: the answers to starting it, whether it is cancelled already, and the batches it runs
  against.  Replacing the execution drops the one before, which is closed then and has nothing left
  to join.
\<close>

record local_runner =
  owned :: "run option"
  runs_made :: nat

definition local_exploration_runner ::
    "tools \<Rightarrow> (nat \<Rightarrow> start_env \<times> bool \<times> batch list) \<Rightarrow> caller \<Rightarrow> adapter \<Rightarrow> policy \<Rightarrow> local_runner runner" where
  "local_exploration_runner t surroundings ctx ad p st candidate =
     (let kept = map_option locked (owned st) in
      if (case kept of Some r \<Rightarrow> r_cleanup (report (shared r)) = Incomplete | None \<Rightarrow> False) then
        (RunnerErr ''previous execution still owns workers'', st\<lparr>owned := kept\<rparr>)
      else
        (case surroundings (runs_made st) of
           (e, is_cancelled, bs) \<Rightarrow>
             (case receipt t (run_schedule (codec_of t) e ctx candidate ad p is_cancelled bs) of
                (row, r) \<Rightarrow>
                  (Sampled \<lparr>execution = row, comparison = None\<rparr>,
                   \<lparr>owned = Some r, runs_made = runs_made st + 1\<rparr>))))"

definition comparison_sample :: "json \<Rightarrow> string + exploration_sample" where
  "comparison_sample result_evidence =
     (case as_array (jfield (jfield result_evidence ''binding'') ''executions'') of
        None \<Rightarrow> Inl ''missing binding records''
      | Some recs \<Rightarrow>
          try_ok (require (length recs = 1) ''exploration comparison requires one execution'') (\<lambda>_.
            Inr \<lparr>execution = recs ! 0, comparison = Some result_evidence\<rparr>))"

section \<open>Reading a receipt\<close>

lemma receipt_reads:
  "jfield (json_obj (receipt_fields t r rep)) ''outcome'' = JString (outcome_name (r_outcome rep))"
  "jfield (json_obj (receipt_fields t r rep)) ''scheduleCompleted'' = JBool (schedule_completed rep)"
  "jfield (json_obj (receipt_fields t r rep)) ''cleanup'' = JString (cleanup_name (r_cleanup rep))"
  "jfield (json_obj (receipt_fields t r rep)) ''remainingActors'' = strings_row (remaining_actors rep)"
  "jfield (json_obj (receipt_fields t r rep)) ''executionId'' = JString (execution_id rep)"
  "jfield (json_obj (receipt_fields t r rep)) ''events'' = JArray (events rep)"
  "jfield (json_obj (receipt_fields t r rep)) ''observations'' = JArray (observations rep)"
  "jfield (json_obj (receipt_fields t r rep)) ''schema'' = JString ''mirrors.checkpoint-execution/v1''"
  "jfield (json_obj (receipt_fields t r rep)) ''schedule'' = sort_keys (schedule_json (run_schedule_of r))"
  "jfield (json_obj (receipt_fields t r rep)) ''actors'' = JArray (map declaration_json (declarations r))"
  "jfield (json_obj (receipt_fields t r rep)) ''passed'' = JBool (passed rep)"
  by (simp_all add: jfield_json_obj receipt_fields_def report_fields_def)

section \<open>The exploration reads what the execution wrote\<close>

lemma expected_events_nth:
  "i < n \<Longrightarrow> expected_events ds ss n ! (i * 2) = permit_row ds ss i
     \<and> expected_events ds ss n ! (i * 2 + 1) = arrival_row ds ss i"
proof (induction n)
  case (Suc n)
  then show ?case by (cases "i = n") (auto simp: nth_append)
qed simp

lemma declaration_of_actor [simp]: "decl_actor (declaration_of ds a) = a"
proof (cases "filter (\<lambda>d. decl_actor d = a) ds")
  case (Cons d rest)
  have "d \<in> set (filter (\<lambda>d. decl_actor d = a) ds)" unfolding Cons by simp
  then have "decl_actor d = a" unfolding set_filter by blast
  then show ?thesis using Cons by (simp add: declaration_of_def)
qed (simp add: declaration_of_def)

lemma event_row_reads:
  "jfield (event_row n kind i d cp) ''ordinal'' = json_nat n" "jfield (event_row n kind i d cp) ''step'' = json_nat i"
  "jfield (event_row n kind i d cp) ''actor'' = JString (decl_actor d)"
  "jfield (event_row n kind i d cp) ''kind'' = JString kind"
  "jfield (event_row n kind i d cp) ''checkpoint'' = JString cp"
  by (simp_all add: event_row_def jfield_json_obj)

lemma rows_match:
  assumes "2 * i + 1 < 2 ^ 64"
  shows "event_matches i (ss ! i) 0 (permit_row ds ss i) = Inr ()"
    and "event_matches i (ss ! i) 1 (arrival_row ds ss i) = Inr ()"
  using assms
  by (simp_all add: event_matches_def require_def permit_row_def arrival_row_def event_row_reads is_number_def
      text_is_def mult.commute)

lemma expected_events_match:
  assumes "2 * length ss < 2 ^ 64" and "n \<le> length ss"
  shows "events_match (length ss - n) (drop (length ss - n) ss) (expected_events ds ss (length ss)) = Inr ()"
  using assms(2)
proof (induction n)
  case (Suc n)
  let ?i = "length ss - Suc n"
  have i: "?i < length ss" "Suc ?i = length ss - n" "2 * ?i + 1 < 2 ^ 64" using Suc(2) assms(1) by auto
  then have "drop ?i ss = ss ! ?i # drop (length ss - n) ss" by (simp add: Cons_nth_drop_Suc [symmetric])
  moreover have "events_match (?i + 1) (drop (length ss - n) ss) (expected_events ds ss (length ss)) = Inr ()"
    using Suc i(2) by simp
  ultimately show ?case
    using expected_events_nth [OF i(1)] rows_match [OF i(3)] by simp
qed simp

lemma execution_actors_read:
  "distinct (map decl_actor ds) \<Longrightarrow> \<forall>d \<in> set ds. \<not> bt_contains m (decl_actor d) \<Longrightarrow>
     execution_actors t (map declaration_json ds) m
       = Inr (foldl (\<lambda>m (k, v). bt_insert k v m) m (map (\<lambda>d. (decl_actor d, operation d)) ds))"
proof (induction ds arbitrary: m)
  case (Cons d ds)
  have "json_obj [(''actor'', JString (decl_actor d)), (''operation'', JString (operation d))]
      = JObject [(''actor'', JString (decl_actor d)), (''operation'', JString (operation d))]"
    by (simp add: json_obj_def bt_of_list_def)
  then have "execution_actor (declaration_json d) = Some (decl_actor d, operation d)"
    by (simp add: execution_actor_def declaration_json_def struct_fields_def)
  moreover have "\<forall>e \<in> set ds. \<not> bt_contains (bt_insert (decl_actor d) (operation d) m) (decl_actor e)"
    using Cons.prems by (auto simp: bt_contains_def) (metis imageI)
  ultimately show ?case using Cons by (simp add: require_def)
qed simp

text \<open>The receipt of an execution, written as its fields.\<close>

lemma receipt_of:
  assumes "operated c sch ad r" and "receipt t r = (row, r')"
  obtains r2 where "row = json_obj (receipt_fields t r2 (report (shared (locked r))))"
    "run_schedule_of r2 = sch" "declarations r2 = adapter_actors ad" "operated c sch ad r2" "r' = r2"
proof (rule that [of "locked (locked r)"])
  have "operated c sch ad (locked (locked r))" using assms(1) reported by blast
  then show "operated c sch ad (locked (locked r))" "run_schedule_of (locked (locked r)) = sch"
    "declarations (locked (locked r)) = adapter_actors ad"
    using operated_inv by blast+
qed (use assms(2) in \<open>auto simp: receipt_def Let_def\<close>)

lemma outcome_name_completed [simp]: "outcome_name out = ''completed'' \<longleftrightarrow> out = Completed"
  by (cases out) simp_all

lemma cleanup_name_confirmed [simp]: "cleanup_name k = ''confirmed'' \<longleftrightarrow> k = Confirmed"
  by (cases k) (simp_all add: cleanup_name_def)

lemma strings_row_empty [simp]: "strings_row ss = JArray [] \<longleftrightarrow> ss = []"
  by (simp add: strings_row_def)

lemma receipt_category:
  assumes "operated c sch ad r" and "receipt t r = (row, r')"
  shows "category row None = Inr ''passed'' \<longleftrightarrow> passed (report (shared (locked r)))"
proof -
  obtain r2 where row: "row = json_obj (receipt_fields t r2 (report (shared (locked r))))"
    using receipt_of [OF assms] by blast
  have "settled (locked r)" using operated_inv [OF reported [OF assms(1)]] by blast
  then have "passed (report (shared (locked r))) \<Longrightarrow> remaining_actors (report (shared (locked r))) = []"
    by (simp add: settled_def passed_def)
  then show ?thesis
    by (auto simp: row category_def comparison_verdict_def cleanup_confirmed_def receipt_reads text_is_def passed_def)
qed

lemma passed_row:
  assumes "operated c sch ad r" and "receipt t r = (row, r')" and "jfield row ''passed'' = JBool True"
  shows "passed (report (shared (locked r))) \<and> teardowns (locked r) = 1"
proof -
  obtain r2 where "row = json_obj (receipt_fields t r2 (report (shared (locked r))))"
    using receipt_of [OF assms(1,2)] by blast
  then have "passed (report (shared (locked r)))" using assms(3) by (simp add: receipt_reads)
  moreover have "settled (locked r)" using operated_inv [OF reported [OF assms(1)]] by blast
  ultimately show ?thesis by (auto simp: settled_def passed_def)
qed

text \<open>
  C38. Execution and exploration agree: the exploration classifies the receipt of an execution as
  passed exactly when the execution's report has passed, and then the receipt holds up to every check
  of the exploration: it is complete, has the events and observations the schedule demands in their
  order, and is bound to the schedule, the actors and its own identifier.
\<close>

theorem receipt_accepted:
  assumes "operated c sch ad r" and "receipt t r = (row, r')"
    and "2 * length (steps sch) < 2 ^ 64" and "distinct (map decl_actor (adapter_actors ad))"
    and "a_declarations a = bt_of_list (map (\<lambda>d. (decl_actor d, operation d)) (adapter_actors ad))"
  shows "(category row None = Inr ''passed'') = passed (report (shared (locked r)))
    \<and> (passed (report (shared (locked r))) \<longrightarrow> validate_success row sch = Inr ())
    \<and> (bound_execution t a (sort_keys (schedule_json sch)) row ids = Inr i) =
        (i = execution_id (report (shared (locked r))) \<and> length i = 32 \<and> list_all is_lower_hex i \<and> i \<notin> set ids)"
proof -
  obtain r2 where row: "row = json_obj (receipt_fields t r2 (report (shared (locked r))))"
    "run_schedule_of r2 = sch" "declarations r2 = adapter_actors ad"
    using receipt_of [OF assms(1,2)] by blast
  have valid: "validate_success row sch = Inr ()" if p: "passed (report (shared (locked r)))"
  proof -
    note facts = operated_passed [OF reported [OF assms(1)] p]
    have "length (observations (report (shared (locked r)))) = Suc (length (steps sch))"
      using arg_cong [of _ _ length, OF conjunct2 [OF conjunct2 [OF facts]]] by (simp add: observed_after_def)
    moreover have "events_match 0 (steps sch) (events (report (shared (locked r)))) = Inr ()"
      using expected_events_match [OF assms(3), of "length (steps sch)"] facts by simp
    moreover have "outcome_name (r_outcome (report (shared (locked r)))) = ''completed''"
      "schedule_completed (report (shared (locked r)))"
      using p by (simp_all add: passed_def)
    ultimately show ?thesis
      using facts by (simp add: row(1) validate_success_def receipt_reads text_is_def require_def)
  qed
  have "execution_actors t (map declaration_json (adapter_actors ad)) [] = Inr (a_declarations a)"
    using execution_actors_read [OF assms(4), of "[]" t] assms(5) by (simp add: bt_contains_def bt_of_list_def)
  then have "(bound_execution t a (sort_keys (schedule_json sch)) row ids = Inr i) =
        (i = execution_id (report (shared (locked r))) \<and> length i = 32 \<and> list_all is_lower_hex i \<and> i \<notin> set ids)"
    by (auto simp: row bound_execution_def receipt_reads text_is_def require_def)
  then show ?thesis using receipt_category [OF assms(1,2)] valid by blast
qed

definition receipt_tools :: tools where
  "receipt_tools = \<lparr>codec_of = sample_codec, read_json = (\<lambda>_. None), bigint_from = int_of_text,
     texts_of = sample_texts, shape_error_text = (\<lambda>_ _. ''shape'')\<rparr>"

theorem receipt_accepted_witness:
  "category (fst (receipt receipt_tools sample_closed)) None = Inr ''passed''
   \<and> validate_success (fst (receipt receipt_tools sample_closed)) sample_schedule = Inr ()"
proof -
  let ?a = "\<lparr>a_actors = [], a_declarations = [(''w'', ''op'')], a_length = 1, a_variables = [], a_ignored = []\<rparr>"
  have len: "2 * length (steps sample_schedule) < 2 ^ 64" by (simp add: sample_schedule_def schedule_new_def)
  have ds: "distinct (map decl_actor (adapter_actors sample_adapter))"
    "a_declarations ?a = bt_of_list (map (\<lambda>d. (decl_actor d, operation d)) (adapter_actors sample_adapter))"
    by (simp_all add: sample_adapter_def bt_of_list_def)
  have pass: "passed (report (shared (locked sample_closed)))" by code_simp
  show ?thesis
    using receipt_accepted [OF sample_operated prod.collapse [symmetric] len ds, of receipt_tools "[]" "[]"] pass
    by blast
qed

end
