(* ===== verification/Model_Interface.thy ===== *)
theory Model_Interface
  imports Client Error_Text "HOL-Library.Word"
begin

unbundle bit_operations_syntax

text \<open>
  \<^verbatim>\<open>src/model_interface.rs\<close>, first part: the semantic digest, the exact-match registry of
  compiled adapters, and the strict validation of the contract a client embeds.
\<close>

section \<open>Errors\<close>

definition contract_schema :: string where
  "contract_schema = ''mirrors.model-interface/v1''"

definition negotiation_schema :: string where
  "negotiation_schema = ''mirrors.model-interface-negotiation/v1''"

definition descriptor_schema_name :: string where
  "descriptor_schema_name = ''mirrors.model-interface-descriptor/v1''"

definition state_computer_version :: string where
  "state_computer_version = ''mirrors.state-computer/v1''"

text \<open>A message is its text, or the error of the JSON parser it shows.\<close>

datatype mi_text = MiText string | MiJson json_error

datatype negotiated_error =
    Legacy error
  | Registration string string
  | ModelInterface string mi_text

definition mi_error :: "string \<Rightarrow> string \<Rightarrow> negotiated_error" where
  "mi_error code message = ModelInterface code (MiText message)"

record binding_error =
  be_code :: string
  be_message :: string

definition binding_error_text :: "binding_error \<Rightarrow> string" where
  "binding_error_text e = be_code e @ '': '' @ be_message e"

definition mi_text_shown :: "shown \<Rightarrow> mi_text \<Rightarrow> string" where
  "mi_text_shown x m = (case m of MiText s \<Rightarrow> s | MiJson e \<Rightarrow> json_error_text x e)"

text \<open>The \<^verbatim>\<open>Display\<close> texts of \<^verbatim>\<open>src/lib.rs\<close>'s \<^verbatim>\<open>NegotiatedError\<close>.\<close>

fun negotiated_display :: "shown \<Rightarrow> negotiated_error \<Rightarrow> string" where
  "negotiated_display x (Legacy e) = error_display x e"
| "negotiated_display x (Registration code message) = ''register failed ('' @ code @ ''): '' @ message"
| "negotiated_display x (ModelInterface code m) = ''model interface ('' @ code @ ''): '' @ mi_text_shown x m"

abbreviation unexpected :: "string \<Rightarrow> negotiated_error + 'a" where
  "unexpected message \<equiv> Inl (mi_error ''negotiation_status_unexpected'' message)"

section \<open>The semantic digest\<close>

type_synonym semantic_digest = "8 word list"

definition u8 :: "char \<Rightarrow> 8 word" where
  "u8 c = word_of_nat (byte_of c)"

definition nibble :: "8 word \<Rightarrow> 8 word" where
  "nibble b = (if b \<le> 0x39 then b - 0x30 else b - 0x61 + 10)"

definition hex_pair :: "char \<Rightarrow> char \<Rightarrow> 8 word" where
  "hex_pair a b = push_bit 4 (nibble (u8 a)) OR nibble (u8 b)"

fun hex_bytes :: "string \<Rightarrow> 8 word list" where
  "hex_bytes (a # b # s) = hex_pair a b # hex_bytes s"
| "hex_bytes _ = []"

definition from_hex :: "string \<Rightarrow> negotiated_error + semantic_digest" where
  "from_hex value =
     (if length value \<noteq> 64 \<or> \<not> list_all is_lower_hex value then
        Inl (mi_error ''descriptor_digest_invalid''
          ''semantic digest must contain 64 lowercase hexadecimal characters'')
      else Inr (hex_bytes value))"

definition parse_wire :: "string \<Rightarrow> negotiated_error + semantic_digest" where
  "parse_wire value =
     (case strip_prefix value ''sha256:'' of
        None \<Rightarrow> Inl (mi_error ''descriptor_digest_invalid'' ''semantic digest must start with sha256:'')
      | Some rest \<Rightarrow> from_hex rest)"

definition hex_alphabet :: string where
  "hex_alphabet = ''0123456789abcdef''"

definition byte_hex :: "8 word \<Rightarrow> string" where
  "byte_hex b = [hex_alphabet ! unat (drop_bit 4 b), hex_alphabet ! unat (b AND 0xF)]"

definition to_hex :: "semantic_digest \<Rightarrow> string" where
  "to_hex d = concat (map byte_hex d)"

definition to_wire :: "semantic_digest \<Rightarrow> string" where
  "to_wire d = ''sha256:'' @ to_hex d"

lemma alphabet_byte: "k < 16 \<Longrightarrow> byte_of (hex_alphabet ! k) = (if k < 10 then 48 + k else 87 + k)"
proof -
  assume "k < 16"
  then have "k \<in> set [0..<16]" by simp
  then show ?thesis by (auto simp: hex_alphabet_def byte_of_def upt_conv_Cons)
qed

lemma lower_hex_cases:
  assumes "is_lower_hex c"
  obtains k where "k < 16" and "c = hex_alphabet ! k"
proof -
  let ?n = "byte_of c"
  let ?k = "if ?n < 58 then ?n - 48 else ?n - 87"
  have r: "48 \<le> ?n \<and> ?n \<le> 57 \<or> 97 \<le> ?n \<and> ?n \<le> 102"
    using assms by (auto simp: is_lower_hex_def is_ascii_digit_def)
  then have "byte_of (hex_alphabet ! ?k) = ?n" by (subst alphabet_byte) auto
  then have "c = hex_alphabet ! ?k" by (simp only: byte_of_inject)
  then show ?thesis using r by (intro that [of ?k]) auto
qed

lemma nibble_alphabet: "k < 16 \<Longrightarrow> nibble (u8 (hex_alphabet ! k)) = word_of_nat k"
proof -
  assume "k < 16"
  then have "k \<in> set [0..<16]" by simp
  then show ?thesis
    by (auto simp: hex_alphabet_def nibble_def u8_def byte_of_def upt_conv_Cons)
qed

lemma alphabet_hex: "k < 16 \<Longrightarrow> is_lower_hex (hex_alphabet ! k)"
proof -
  assume "k < 16"
  then have "k \<in> set [0..<16]" by simp
  then show ?thesis
    by (auto simp: hex_alphabet_def byte_class_defs upt_conv_Cons)
qed

lemma nibble_small: "is_lower_hex c \<Longrightarrow> nibble (u8 c) < 16 \<and> hex_alphabet ! unat (nibble (u8 c)) = c"
  by (erule lower_hex_cases) (simp add: nibble_alphabet word_less_nat_alt unat_of_nat)

lemma two_nibbles:
  fixes x y :: "8 word"
  assumes "x < 16" and "y < 16"
  shows "drop_bit 4 (push_bit 4 x OR y) = x" and "(push_bit 4 x OR y) AND 0xF = y"
proof -
  have m: "z < 16 \<Longrightarrow> take_bit 4 z = z" for z :: "8 word"
    by (simp add: word_less_nat_alt word_unat_eq_iff unsigned_take_bit_eq take_bit_nat_eq_self)
  have "(0xF :: 8 word) = mask 4" by (simp add: mask_eq_exp_minus_1)
  then have f: "b AND 0xF = take_bit 4 b" for b :: "8 word" by (simp add: take_bit_eq_mask)
  show "(push_bit 4 x OR y) AND 0xF = y"
    using m [OF assms(2)] by (simp add: f take_bit_push_bit)
  have "drop_bit 4 y = 0" using assms(2) by (simp add: drop_bit_eq_div word_less_nat_alt word_arith_nat_div div_eq_0_iff)
  moreover have "bit x n \<Longrightarrow> n < 4" for n
    using arg_cong [OF m [OF assms(1)], of "\<lambda>w. bit w n"] by (simp add: bit_take_bit_iff)
  then have "drop_bit 4 (push_bit 4 x) = x"
    by (intro bit_word_eqI) (auto simp: bit_simps)
  ultimately show "drop_bit 4 (push_bit 4 x OR y) = x" by simp
qed

lemma byte_hex_byte: "is_lower_hex a \<Longrightarrow> is_lower_hex b \<Longrightarrow> byte_hex (hex_pair a b) = [a, b]"
  using nibble_small [of a] nibble_small [of b] unfolding byte_hex_def hex_pair_def
  by (simp only: two_nibbles simp_thms)

lemma byte_nibbles:
  fixes b :: "8 word"
  shows "unat (drop_bit 4 b) < 16" and "unat (b AND 0xF) < 16" and "push_bit 4 (drop_bit 4 b) OR (b AND 0xF) = b"
proof -
  have "unat b < 256" using unsigned_less [of b] by simp
  then show "unat (drop_bit 4 b) < 16" by (simp add: drop_bit_eq_div unat_div)
  have mask: "(0xF :: 8 word) = mask 4" by (simp add: mask_eq_exp_minus_1)
  show "unat (b AND 0xF) < 16"
    unfolding mask take_bit_eq_mask [symmetric] unsigned_take_bit_eq
    using take_bit_nat_less_exp [of 4 "unat b"] by simp
  show "push_bit 4 (drop_bit 4 b) OR (b AND 0xF) = b"
    unfolding mask by (auto simp: bit_eq_iff bit_simps)
qed

lemma hex_byte_hex: "byte_hex w = [a, b] \<Longrightarrow> hex_pair a b = w"
  using byte_nibbles [of w] by (auto simp: byte_hex_def hex_pair_def nibble_alphabet)

lemma hex_of_bytes: "hex_bytes (to_hex d) = d"
proof (induction d)
  case (Cons w d)
  obtain a b where ab: "byte_hex w = [a, b]" by (simp add: byte_hex_def)
  then show ?case using Cons hex_byte_hex [OF ab] by (simp add: to_hex_def)
qed (simp add: to_hex_def)

lemma bytes_of_hex: "list_all is_lower_hex s \<Longrightarrow> even (length s) \<Longrightarrow> to_hex (hex_bytes s) = s"
  by (induction s rule: hex_bytes.induct) (simp_all add: to_hex_def byte_hex_byte)

lemma length_hex_bytes: "length (hex_bytes s) = length s div 2"
  by (induction s rule: hex_bytes.induct) simp_all

lemma to_hex_text: "length (to_hex d) = 2 * length d" "list_all is_lower_hex (to_hex d)"
  using byte_nibbles by (induction d) (auto simp: to_hex_def byte_hex_def alphabet_hex)

lemma parse_wire_Inr: "parse_wire s = Inr d \<longleftrightarrow> length d = 32 \<and> s = to_wire d"
proof -
  have "from_hex h = Inr d \<longleftrightarrow> length d = 32 \<and> h = to_hex d" for h
  proof
    assume "from_hex h = Inr d"
    then show "length d = 32 \<and> h = to_hex d"
      by (auto simp: from_hex_def length_hex_bytes bytes_of_hex split: if_splits)
  next
    assume "length d = 32 \<and> h = to_hex d"
    then show "from_hex h = Inr d" by (simp add: from_hex_def to_hex_text hex_of_bytes)
  qed
  moreover have "parse_wire s = Inr d \<longleftrightarrow> (\<exists>h. s = ''sha256:'' @ h \<and> from_hex h = Inr d)"
  proof (cases "strip_prefix s ''sha256:''")
    case None
    then have "\<nexists>h. s = ''sha256:'' @ h" by (simp only: strip_prefix_None starts_with_iff not_ex simp_thms)
    moreover have "parse_wire s \<noteq> Inr d" using None by (simp only: parse_wire_def option.case) simp
    ultimately show ?thesis by blast
  next
    case (Some r)
    then have "s = ''sha256:'' @ r" by (simp only: strip_prefix_Some)
    moreover have "parse_wire s = from_hex r" using Some by (simp only: parse_wire_def option.case)
    ultimately show ?thesis by simp
  qed
  ultimately show ?thesis unfolding to_wire_def by auto
qed

text \<open>
  Digests and their texts are in one-to-one correspondence: the wire text of a digest of 32 bytes
  is read as that digest, and a text is read as a digest only when it is exactly what that digest is
  written as, so no digest has a second spelling.
\<close>

theorem digest_roundtrip:
  "(parse_wire s = Inr d) = (length d = 32 \<and> s = to_wire d)"
  by (rule parse_wire_Inr)

section \<open>The registry of compiled adapters\<close>

record compiled_adapter_key =
  key_digest :: semantic_digest
  adapter_id :: string
  target_profile :: string
  contract_version :: string

record 'f adapter_registration =
  reg_key :: compiled_adapter_key
  reg_factory :: 'f

definition same_identity :: "compiled_adapter_key \<Rightarrow> 'f adapter_registration \<Rightarrow> bool" where
  "same_identity key entry \<longleftrightarrow>
     key_digest (reg_key entry) = key_digest key \<and> adapter_id (reg_key entry) = adapter_id key"

definition resolve_index ::
    "'f adapter_registration list \<Rightarrow> compiled_adapter_key \<Rightarrow> negotiated_error + nat" where
  "resolve_index registrations key =
     (let matches = filter (\<lambda>(i, entry). reg_key entry = key) (List.enumerate 0 registrations) in
      if length matches > 1 then
        Inl (mi_error ''adapter_ambiguous'' (''multiple exact adapters are registered for '' @ adapter_id key))
      else
        (case matches of
           (i, _) # _ \<Rightarrow> Inr i
         | [] \<Rightarrow>
             (let identity = filter (same_identity key) registrations in
              if identity \<noteq> []
                  \<and> list_all (\<lambda>entry. target_profile (reg_key entry) \<noteq> target_profile key) identity then
                Inl (mi_error ''target_profile_mismatch''
                  (''adapter target profile does not match '' @ target_profile key))
              else if list_ex (\<lambda>entry. target_profile (reg_key entry) = target_profile key) identity then
                Inl (mi_error ''state_computer_contract_mismatch''
                  (''adapter StateComputer contract does not match '' @ contract_version key))
              else
                Inl (mi_error ''adapter_not_registered''
                  (''adapter is not registered: '' @ adapter_id key)))))"

definition resolution_code :: "negotiated_error + nat \<Rightarrow> string option" where
  "resolution_code r = (case r of Inl (ModelInterface code _) \<Rightarrow> Some code | _ \<Rightarrow> None)"

text \<open>Where the registrations match a key, and which differ from it only in profile or version.\<close>

definition exact_indices :: "'f adapter_registration list \<Rightarrow> compiled_adapter_key \<Rightarrow> nat set" where
  "exact_indices regs key = {i. i < length regs \<and> reg_key (regs ! i) = key}"

definition near_misses :: "'f adapter_registration list \<Rightarrow> compiled_adapter_key \<Rightarrow> 'f adapter_registration set" where
  "near_misses regs key = {entry \<in> set regs. same_identity key entry}"

definition same_target ::
    "'f adapter_registration list \<Rightarrow> compiled_adapter_key \<Rightarrow> 'f adapter_registration set" where
  "same_target regs key = {entry \<in> near_misses regs key. target_profile (reg_key entry) = target_profile key}"

lemma enumerate_matches:
  "map fst (filter (\<lambda>(i, x). P x) (List.enumerate n xs)) = filter (\<lambda>i. P (xs ! (i - n))) [n..<n + length xs]"
proof (induction xs arbitrary: n)
  case (Cons x xs)
  have "filter (\<lambda>i. P (xs ! (i - Suc n))) [Suc n..<Suc n + length xs]
      = filter (\<lambda>i. P ((x # xs) ! (i - n))) [Suc n..<Suc n + length xs]"
  proof (rule filter_cong [OF refl])
    fix i assume "i \<in> set [Suc n..<Suc n + length xs]"
    then have "Suc n \<le> i" by (simp only: set_upt atLeastLessThan_iff)
    then have "i - n = Suc (i - Suc n)" by simp
    then show "P (xs ! (i - Suc n)) = P ((x # xs) ! (i - n))" by simp
  qed
  moreover have "[n..<n + length (x # xs)] = n # [Suc n..<Suc n + length xs]"
    by (subst upt_conv_Cons) simp_all
  ultimately show ?case using Cons [of "Suc n"] by simp
qed simp

lemma matches_are_exact:
  fixes regs :: "'f adapter_registration list" and key
  defines "matches \<equiv> filter (\<lambda>(i, entry). reg_key entry = key) (List.enumerate 0 regs)"
  shows "set (map fst matches) = exact_indices regs key" and "length matches = card (exact_indices regs key)"
proof -
  have m: "map fst matches = filter (\<lambda>i. reg_key (regs ! i) = key) [0..<length regs]"
    using enumerate_matches [of "\<lambda>entry. reg_key entry = key" 0 regs] by (simp add: matches_def)
  then show s: "set (map fst matches) = exact_indices regs key" by (auto simp: exact_indices_def)
  have "distinct (map fst matches)" unfolding m by simp
  then have "card (set (map fst matches)) = length matches" by (simp only: distinct_card length_map)
  then show "length matches = card (exact_indices regs key)" using s by simp
qed

lemma exact_is_near: "exact_indices regs key \<noteq> {} \<Longrightarrow> same_target regs key \<noteq> {}"
  by (auto simp: exact_indices_def same_target_def near_misses_def same_identity_def)

lemma resolve_cases:
  obtains (none) "exact_indices regs key = {}" "resolve_index regs key =
      (if near_misses regs key \<noteq> {} \<and> same_target regs key = {} then
         Inl (mi_error ''target_profile_mismatch''
           (''adapter target profile does not match '' @ target_profile key))
       else if same_target regs key \<noteq> {} then
         Inl (mi_error ''state_computer_contract_mismatch''
           (''adapter StateComputer contract does not match '' @ contract_version key))
       else Inl (mi_error ''adapter_not_registered'' (''adapter is not registered: '' @ adapter_id key)))"
  | (one) i where "exact_indices regs key = {i}" "resolve_index regs key = Inr i"
  | (many) "1 < card (exact_indices regs key)" "resolve_index regs key =
      Inl (mi_error ''adapter_ambiguous'' (''multiple exact adapters are registered for '' @ adapter_id key))"
proof -
  let ?ms = "filter (\<lambda>(i, entry). reg_key entry = key) (List.enumerate 0 regs)"
  note ms = matches_are_exact [where regs = regs and key = key]
  have near: "filter (same_identity key) regs \<noteq> [] \<longleftrightarrow> near_misses regs key \<noteq> {}"
    by (auto simp: near_misses_def filter_empty_conv)
  have target: "list_ex (\<lambda>entry. target_profile (reg_key entry) = target_profile key)
      (filter (same_identity key) regs) \<longleftrightarrow> same_target regs key \<noteq> {}"
    by (auto simp: same_target_def near_misses_def list_ex_iff)
  have other: "list_all (\<lambda>entry. target_profile (reg_key entry) \<noteq> target_profile key)
      (filter (same_identity key) regs) \<longleftrightarrow> same_target regs key = {}"
    by (auto simp: same_target_def near_misses_def list_all_iff)
  show ?thesis
  proof (cases ?ms)
    case Nil
    then have "exact_indices regs key = {}" using ms(1) by simp
    then show ?thesis
      by (rule none) (simp only: resolve_index_def Let_def Nil near target other list.size list.case not_less_zero if_False)
  next
    case (Cons m ms')
    show ?thesis
    proof (cases ms')
      case Nil
      then have "exact_indices regs key = {fst m}" using ms(1) Cons by simp
      moreover have "resolve_index regs key = Inr (fst m)"
        using Cons Nil by (simp add: resolve_index_def case_prod_beta)
      ultimately show ?thesis by (rule one)
    next
      case (Cons m' ms'')
      then have "1 < length ?ms" using \<open>?ms = m # ms'\<close> by simp
      then show ?thesis using ms(2) by (intro many) (simp_all add: resolve_index_def)
    qed
  qed
qed

text \<open>
  C32. An adapter is resolved only by exact match: the index is that of the one registration with the
  key, and each refusal has its cause: several registrations with the key; none with the digest and
  identifier; some of those but none for the target; or some for the target with another version of
  the state computer contract.
\<close>

theorem adapter_resolution:
  "(resolve_index regs key = Inr i) = (exact_indices regs key = {i})
   \<and> (resolution_code (resolve_index regs key) = Some ''adapter_ambiguous'') = (1 < card (exact_indices regs key))
   \<and> (resolution_code (resolve_index regs key) = Some ''adapter_not_registered'') = (near_misses regs key = {})
   \<and> (resolution_code (resolve_index regs key) = Some ''target_profile_mismatch'')
       = (near_misses regs key \<noteq> {} \<and> same_target regs key = {})
   \<and> (resolution_code (resolve_index regs key) = Some ''state_computer_contract_mismatch'')
       = (exact_indices regs key = {} \<and> same_target regs key \<noteq> {})"
proof -
  have near: "same_target regs key \<noteq> {} \<Longrightarrow> near_misses regs key \<noteq> {}" by (auto simp: same_target_def)
  show ?thesis
  proof (cases regs key rule: resolve_cases)
    case none
    then show ?thesis using near by (auto simp: resolution_code_def mi_error_def)
  next
    case (one k)
    then show ?thesis using near exact_is_near [of regs key] by (auto simp: resolution_code_def)
  next
    case many
    moreover from this have "exact_indices regs key \<noteq> {}" by auto
    ultimately show ?thesis using near exact_is_near [of regs key] by (auto simp: resolution_code_def mi_error_def)
  qed
qed

end
