(* ===== verification/Model_Contract.thy ===== *)
theory Model_Contract
  imports Model_Interface
begin

text \<open>
  \<^verbatim>\<open>src/model_interface.rs\<close>, the validation of an embedded contract: objects with exactly
  the fields of the schema, bounded strings, and the two recursive languages in it, the types of the
  model and the literals of the trace format, against grammars of the two.
\<close>

section \<open>Objects and strings\<close>

definition object_fields :: "json \<Rightarrow> string \<Rightarrow> string list \<Rightarrow> string list \<Rightarrow> negotiated_error + jobject" where
  "object_fields value path allowed required =
     (case as_object value of
        None \<Rightarrow> unexpected (path @ '': object expected'')
      | Some m \<Rightarrow>
          (case find (\<lambda>key. key \<notin> set allowed) (map fst m) of
             Some key \<Rightarrow> unexpected (path @ '': unknown field '' @ in_quotes key)
           | None \<Rightarrow>
               (case find (\<lambda>key. \<not> bt_contains m key) required of
                  Some key \<Rightarrow> unexpected (path @ '': missing required field '' @ in_quotes key)
                | None \<Rightarrow> Inr m)))"

abbreviation exact_fields :: "json \<Rightarrow> string \<Rightarrow> string list \<Rightarrow> negotiated_error + jobject" where
  "exact_fields value path ks \<equiv> object_fields value path ks ks"

definition short_string :: "json \<Rightarrow> string \<Rightarrow> negotiated_error + string" where
  "short_string value path =
     (case json_str value of
        None \<Rightarrow> unexpected (path @ '': string expected'')
      | Some text \<Rightarrow>
          if length text > 256 then unexpected (path @ '': exceeds 256 UTF-8 bytes'') else Inr text)"

definition array_of :: "json \<Rightarrow> string \<Rightarrow> negotiated_error + json list" where
  "array_of value message = (case as_array value of None \<Rightarrow> unexpected message | Some vs \<Rightarrow> Inr vs)"

definition short_array :: "nat \<Rightarrow> json \<Rightarrow> string \<Rightarrow> negotiated_error + json list" where
  "short_array limit value message =
     (case as_array value of
        None \<Rightarrow> unexpected message
      | Some vs \<Rightarrow> if length vs \<le> limit then Inr vs else unexpected message)"

definition canonical_decimal :: "string \<Rightarrow> bool" where
  "canonical_decimal value =
     (let digits = (case strip_prefix value ''-'' of Some d \<Rightarrow> d | None \<Rightarrow> value)
      in digits \<noteq> [] \<and> all_digits digits \<and> (digits = ''0'' \<or> \<not> starts_with digits ''0'') \<and> value \<noteq> ''-0'')"

text \<open>A loop that validates one item after the other, with what it counts and collects.\<close>

fun each :: "('a \<Rightarrow> 's \<Rightarrow> 'e + 's) \<Rightarrow> 'a list \<Rightarrow> 's \<Rightarrow> 'e + 's" where
  "each f [] s = Inr s"
| "each f (x # xs) s = (case f x s of Inl e \<Rightarrow> Inl e | Inr s' \<Rightarrow> each f xs s')"

lemma each_cong [fundef_cong]:
  assumes "xs = ys" and "s = t" and "\<And>x u. x \<in> set ys \<Longrightarrow> f x u = g x u"
  shows "each f xs s = each g ys t"
proof -
  have "(\<And>x u. x \<in> set zs \<Longrightarrow> f x u = g x u) \<Longrightarrow> each f zs s = each g zs s" for zs s
    by (induction zs arbitrary: s) (auto split: sum.split)
  then show ?thesis using assms by simp
qed

section \<open>Literals\<close>

function validate_itf_literal :: "json \<Rightarrow> nat \<Rightarrow> nat \<Rightarrow> string \<Rightarrow> negotiated_error + nat" where
  "validate_itf_literal value depth nodes0 path =
     (if depth \<ge> 128 then unexpected (path @ '': canonical ITF literal nesting exceeds 128'')
      else
        (let nodes = nodes0 + 1; rec = (\<lambda>v n. validate_itf_literal v (depth + 1) n path) in
         if nodes > 16384 then unexpected (path @ '': canonical ITF literal nodes exceed 16384'')
         else if as_object value = None then unexpected (path @ '': canonical ITF literal object expected'')
         else
           (case json_str (jfield value ''kind'') of
              None \<Rightarrow> unexpected (path @ '': canonical ITF literal kind expected'')
            | Some kind \<Rightarrow>
                if kind = ''int'' then
                  try_ok (exact_fields value path [''kind'', ''value'']) (\<lambda>_.
                  try_ok (short_string (jfield value ''value'') path) (\<lambda>integer.
                    if canonical_decimal integer then Inr nodes
                    else unexpected (path @ '': canonical decimal integer string expected'')))
                else if kind = ''bool'' then
                  try_ok (exact_fields value path [''kind'', ''value'']) (\<lambda>_.
                    if as_bool (jfield value ''value'') = None then unexpected (path @ '': Boolean expected'')
                    else Inr nodes)
                else if kind = ''str'' then
                  try_ok (exact_fields value path [''kind'', ''value'']) (\<lambda>_.
                  try_ok (short_string (jfield value ''value'') path) (\<lambda>_. Inr nodes))
                else if kind = ''null'' then
                  try_ok (exact_fields value path [''kind'']) (\<lambda>_. Inr nodes)
                else if kind \<in> {''set'', ''seq'', ''tuple''} then
                  try_ok (exact_fields value path [''kind'', ''values'']) (\<lambda>_.
                  try_ok (array_of (jfield value ''values'') (path @ '': values array expected'')) (\<lambda>items.
                    each rec items nodes))
                else if kind = ''record'' then
                  try_ok (exact_fields value path [''kind'', ''fields'']) (\<lambda>_.
                  try_ok (array_of (jfield value ''fields'') (path @ '': fields array expected'')) (\<lambda>entries.
                    each (\<lambda>entry n.
                      try_ok (exact_fields entry path [''name'', ''value'']) (\<lambda>_.
                      try_ok (short_string (jfield entry ''name'') path) (\<lambda>_.
                        rec (jfield entry ''value'') n))) entries nodes))
                else if kind = ''map'' then
                  try_ok (exact_fields value path [''kind'', ''entries'']) (\<lambda>_.
                  try_ok (array_of (jfield value ''entries'') (path @ '': entries array expected'')) (\<lambda>entries.
                    each (\<lambda>entry n.
                      try_ok (exact_fields entry path [''key'', ''value'']) (\<lambda>_.
                      try_ok (rec (jfield entry ''key'') n) (\<lambda>n'.
                        rec (jfield entry ''value'') n'))) entries nodes))
                else if kind = ''variant'' then
                  try_ok (exact_fields value path [''kind'', ''tag'', ''payload'']) (\<lambda>_.
                  try_ok (short_string (jfield value ''tag'') path) (\<lambda>_.
                    rec (jfield value ''payload'') nodes))
                else unexpected (path @ '': unknown canonical ITF literal '' @ in_quotes kind))))"
  by pat_completeness auto
termination by (relation "measure (\<lambda>(_, depth, _, _). 128 - depth)") auto

declare validate_itf_literal.simps [simp del]

definition validate_path :: "json \<Rightarrow> string \<Rightarrow> nat \<Rightarrow> negotiated_error + nat" where
  "validate_path value path nodes =
     (case as_object value of
        Some [(kind, v)] \<Rightarrow>
          if kind = ''field'' \<or> kind = ''variantValue'' then
            try_ok (short_string v path) (\<lambda>_. Inr nodes)
          else if kind = ''index'' \<and> as_u64 v \<noteq> None then Inr nodes
          else if kind = ''mapKey'' then validate_itf_literal v 0 nodes path
          else unexpected (path @ '': invalid path selector'')
      | _ \<Rightarrow> unexpected (path @ '': exactly one selector required''))"

section \<open>Model types\<close>

text \<open>The labels of a record or variant: short, not empty, none twice.\<close>

definition validate_label :: "json \<Rightarrow> string \<Rightarrow> string list \<Rightarrow> negotiated_error + string list" where
  "validate_label value path names =
     try_ok (short_string value path) (\<lambda>label.
       if label = [] \<or> label \<in> set names then unexpected (path @ '': duplicate or empty label'')
       else Inr (label # names))"

function validate_model_type :: "json \<Rightarrow> nat \<Rightarrow> nat \<Rightarrow> string \<Rightarrow> negotiated_error + nat" where
  "validate_model_type value depth nodes0 path =
     (if depth \<ge> 32 then unexpected (path @ '': type depth exceeds 32'')
      else
        (let nodes = nodes0 + 1; rec = (\<lambda>v n. validate_model_type v (depth + 1) n path) in
         if nodes > 8192 then unexpected (path @ '': type nodes exceed 8192'')
         else
           (case json_str (jfield value ''kind'') of
              None \<Rightarrow> unexpected (path @ '': tagged model type expected'')
            | Some kind \<Rightarrow>
                if kind \<in> {''int'', ''bool'', ''str'', ''null''} then
                  try_ok (exact_fields value path [''kind'']) (\<lambda>_. Inr nodes)
                else if kind \<in> {''set'', ''seq''} then
                  try_ok (exact_fields value path [''kind'', ''element'']) (\<lambda>_.
                    rec (jfield value ''element'') nodes)
                else if kind = ''tuple'' then
                  try_ok (exact_fields value path [''kind'', ''elements'']) (\<lambda>_.
                  try_ok (array_of (jfield value ''elements'') (path @ '': elements array expected'')) (\<lambda>elements.
                    each rec elements nodes))
                else if kind \<in> {''record'', ''variant''} then
                  (let list_name = (if kind = ''record'' then ''fields'' else ''cases'');
                       name = (if kind = ''record'' then ''wireName'' else ''tag'');
                       payload = (if kind = ''record'' then ''type'' else ''payload'') in
                   try_ok (exact_fields value path [''kind'', list_name]) (\<lambda>_.
                   try_ok (array_of (jfield value list_name) (path @ '': '' @ list_name @ '' array expected'')) (\<lambda>entries.
                   try_ok
                     (each (\<lambda>entry (names, n).
                        try_ok (exact_fields entry path [name, payload]) (\<lambda>_.
                        try_ok (validate_label (jfield entry name) path names) (\<lambda>names'.
                        try_ok (rec (jfield entry payload) n) (\<lambda>n'. Inr (names', n'))))) entries ([], nodes))
                     (\<lambda>(_, n). Inr n))))
                else if kind = ''map'' then
                  try_ok (exact_fields value path [''kind'', ''key'', ''value'']) (\<lambda>_.
                  try_ok (rec (jfield value ''key'') nodes) (\<lambda>n.
                    rec (jfield value ''value'') n))
                else if kind = ''opaqueItf'' then
                  try_ok (exact_fields value path [''kind'', ''description'']) (\<lambda>_.
                  try_ok (short_string (jfield value ''description'') path) (\<lambda>_. Inr nodes))
                else unexpected (path @ '': unknown model type '' @ kind))))"
  by pat_completeness auto
termination by (relation "measure (\<lambda>(_, depth, _, _). 32 - depth)") auto

declare validate_model_type.simps [simp del]

section \<open>Contracts\<close>

text \<open>An optional type: left out, or null, or a type.\<close>

definition validate_expected :: "json \<Rightarrow> string \<Rightarrow> nat \<Rightarrow> negotiated_error + nat" where
  "validate_expected expected path nodes =
     (if expected = JNull then Inr nodes else validate_model_type expected 0 nodes path)"

definition validate_input :: "string \<Rightarrow> json \<Rightarrow> nat \<Rightarrow> negotiated_error + nat" where
  "validate_input path input nodes =
     try_ok (object_fields input path [''id'', ''from'', ''expectedType''] [''id'', ''from'']) (\<lambda>_.
     try_ok (short_string (jfield input ''id'') path) (\<lambda>_.
     try_ok (exact_fields (jfield input ''from'') path [''root'', ''path'']) (\<lambda>_.
     (let source = jfield input ''from'' in
      if json_str (jfield source ''root'') \<notin> {Some ''initialState'', Some ''stepParameters''} then
        unexpected (path @ '': invalid path root'')
      else
        try_ok (short_array 32 (jfield source ''path'') (path @ '': path limit exceeded'')) (\<lambda>segments.
        try_ok (each (\<lambda>segment n. validate_path segment path n) segments nodes) (\<lambda>n.
          validate_expected (jfield input ''expectedType'') path n))))))"

definition validate_action :: "string \<Rightarrow> json \<Rightarrow> nat \<Rightarrow> negotiated_error + nat" where
  "validate_action path value nodes =
     try_ok (exact_fields value path [''id'', ''wireAction'', ''wireAliases'', ''inputs'']) (\<lambda>_.
     try_ok (short_string (jfield value ''id'') path) (\<lambda>_.
     try_ok (short_string (jfield value ''wireAction'') path) (\<lambda>_.
     try_ok (short_array 16 (jfield value ''wireAliases'') (path @ '': alias resource limit exceeded'')) (\<lambda>aliases.
     try_ok (each (\<lambda>alias u. try_ok (short_string alias path) (\<lambda>_. Inr u)) aliases ()) (\<lambda>_.
     try_ok (short_array 128 (jfield value ''inputs'') (path @ '': input resource limit exceeded'')) (\<lambda>ins.
       each (validate_input path) ins nodes))))))"

definition validate_observation :: "string \<Rightarrow> json \<Rightarrow> nat \<Rightarrow> negotiated_error + nat" where
  "validate_observation path value nodes =
     try_ok (object_fields value path [''id'', ''wireName'', ''provenance'', ''expectedType'']
         [''id'', ''wireName'', ''provenance'']) (\<lambda>_.
     try_ok (short_string (jfield value ''id'') path) (\<lambda>_.
     try_ok (short_string (jfield value ''wireName'') path) (\<lambda>_.
       if json_str (jfield value ''provenance'') \<notin> {Some ''implementation'', Some ''oracle'', Some ''derived''} then
         unexpected ''invalid observation provenance''
       else validate_expected (jfield value ''expectedType'') path nodes)))"

definition contract_path :: string where
  "contract_path = ''modelInterface.contract.inline''"

definition validate_contract :: "json \<Rightarrow> negotiated_error + unit" where
  "validate_contract value =
     (let path = contract_path in
      try_ok (exact_fields value path [''schema'', ''interfaceVersion'', ''model'', ''wire'', ''initializers'',
          ''actions'', ''observations'']) (\<lambda>_.
      if jfield value ''schema'' \<noteq> JString contract_schema then
        unexpected ''modelInterface contract schema is unsupported''
      else
        try_ok (short_string (jfield value ''interfaceVersion'') path) (\<lambda>_.
        try_ok (exact_fields (jfield value ''model'') path [''module'', ''source'']) (\<lambda>_.
        try_ok (short_string (jfield (jfield value ''model'') ''module'') path) (\<lambda>_.
        try_ok (short_string (jfield (jfield value ''model'') ''source'') path) (\<lambda>_.
        try_ok (exact_fields (jfield value ''wire'') path [''actionVariable'', ''parameterVariable'']) (\<lambda>_.
        try_ok (short_string (jfield (jfield value ''wire'') ''actionVariable'') path) (\<lambda>_.
        try_ok (if jfield (jfield value ''wire'') ''parameterVariable'' = JNull then Inr []
                else short_string (jfield (jfield value ''wire'') ''parameterVariable'') path) (\<lambda>_.
        try_ok (short_array 32 (jfield value ''initializers'') ''modelInterface initializers limit exceeded'') (\<lambda>initializers.
        try_ok (short_array 256 (jfield value ''actions'') ''modelInterface actions limit exceeded'') (\<lambda>actions.
        try_ok (short_array 1024 (jfield value ''observations'') ''modelInterface observations limit exceeded'') (\<lambda>observations.
        try_ok (each (validate_action path) (initializers @ actions) 0) (\<lambda>nodes.
        try_ok (each (validate_observation path) observations nodes) (\<lambda>_.
          Inr ()))))))))))))))"

section \<open>The grammar of model types\<close>

datatype model_type =
    TInt | TBool | TStr | TNull
  | TSet model_type | TSeq model_type
  | TTuple "model_type list"
  | TRecord "(string \<times> model_type) list"
  | TVariant "(string \<times> model_type) list"
  | TMap model_type model_type
  | TOpaque string

definition tagged :: "string \<Rightarrow> (string \<times> json) list \<Rightarrow> json" where
  "tagged kind kvs = json_obj ((''kind'', JString kind) # kvs)"

fun type_json :: "model_type \<Rightarrow> json" where
  "type_json TInt = tagged ''int'' []"
| "type_json TBool = tagged ''bool'' []"
| "type_json TStr = tagged ''str'' []"
| "type_json TNull = tagged ''null'' []"
| "type_json (TSet a) = tagged ''set'' [(''element'', type_json a)]"
| "type_json (TSeq a) = tagged ''seq'' [(''element'', type_json a)]"
| "type_json (TTuple ts) = tagged ''tuple'' [(''elements'', JArray (map type_json ts))]"
| "type_json (TRecord fs) = tagged ''record'' [(''fields'',
     JArray (map (\<lambda>(l, a). json_obj [(''wireName'', JString l), (''type'', type_json a)]) fs))]"
| "type_json (TVariant cs) = tagged ''variant'' [(''cases'',
     JArray (map (\<lambda>(l, a). json_obj [(''tag'', JString l), (''payload'', type_json a)]) cs))]"
| "type_json (TMap a b) = tagged ''map'' [(''key'', type_json a), (''value'', type_json b)]"
| "type_json (TOpaque s) = tagged ''opaqueItf'' [(''description'', JString s)]"

definition labels_ok :: "string list \<Rightarrow> bool" where
  "labels_ok ls \<longleftrightarrow> distinct ls \<and> (\<forall>l \<in> set ls. l \<noteq> [] \<and> length l \<le> 256)"

fun type_ok :: "model_type \<Rightarrow> bool" where
  "type_ok (TSet a) = type_ok a"
| "type_ok (TSeq a) = type_ok a"
| "type_ok (TTuple ts) = (\<forall>a \<in> set ts. type_ok a)"
| "type_ok (TRecord fs) = (labels_ok (map fst fs) \<and> (\<forall>(l, a) \<in> set fs. type_ok a))"
| "type_ok (TVariant cs) = (labels_ok (map fst cs) \<and> (\<forall>(l, a) \<in> set cs. type_ok a))"
| "type_ok (TMap a b) = (type_ok a \<and> type_ok b)"
| "type_ok (TOpaque s) = (length s \<le> 256)"
| "type_ok _ = True"

text \<open>Nested at most so deep.\<close>

fun type_within :: "nat \<Rightarrow> model_type \<Rightarrow> bool" where
  "type_within 0 _ = False"
| "type_within (Suc n) (TSet a) = type_within n a"
| "type_within (Suc n) (TSeq a) = type_within n a"
| "type_within (Suc n) (TTuple ts) = (\<forall>a \<in> set ts. type_within n a)"
| "type_within (Suc n) (TRecord fs) = (\<forall>(l, a) \<in> set fs. type_within n a)"
| "type_within (Suc n) (TVariant cs) = (\<forall>(l, a) \<in> set cs. type_within n a)"
| "type_within (Suc n) (TMap a b) = (type_within n a \<and> type_within n b)"
| "type_within (Suc n) _ = True"

fun type_nodes :: "model_type \<Rightarrow> nat" where
  "type_nodes (TSet a) = Suc (type_nodes a)"
| "type_nodes (TSeq a) = Suc (type_nodes a)"
| "type_nodes (TTuple ts) = Suc (sum_list (map type_nodes ts))"
| "type_nodes (TRecord fs) = Suc (sum_list (map (\<lambda>(l, a). type_nodes a) fs))"
| "type_nodes (TVariant cs) = Suc (sum_list (map (\<lambda>(l, a). type_nodes a) cs))"
| "type_nodes (TMap a b) = Suc (type_nodes a + type_nodes b)"
| "type_nodes _ = 1"

section \<open>Reading objects and lists\<close>

lemma object_fields_Inr:
  "object_fields v p allowed required = Inr m \<longleftrightarrow>
     v = JObject m \<and> fst ` set m \<subseteq> set allowed \<and> set required \<subseteq> fst ` set m"
proof -
  have none: "(case find P xs of None \<Rightarrow> r | Some k \<Rightarrow> unexpected (f k)) = Inr m \<longleftrightarrow> (\<forall>x \<in> set xs. \<not> P x) \<and> r = Inr m"
    for P :: "string \<Rightarrow> bool" and xs f and r :: "negotiated_error + jobject"
    using find_None_iff [of P xs] by (cases "find P xs") (auto dest: find_Some_iff [THEN iffD1])
  show ?thesis
    by (cases v) (auto simp: object_fields_def none bt_contains_def map_of_eq_None_iff)
qed

lemma json_obj_fields: "fst ` set kvs = set ks \<Longrightarrow> \<exists>m. exact_fields (json_obj kvs) p ks = Inr m"
  by (simp add: object_fields_Inr json_obj_def keys_bt_of_list)

lemma exact_fields_object:
  assumes "json_ok v" and "distinct ks" and "exact_fields v p ks = Inr m"
  shows "v = json_obj (map (\<lambda>k. (k, jfield v k)) ks)"
proof -
  let ?kvs = "map (\<lambda>k. (k, jfield v k)) ks"
  have v: "v = JObject m" "fst ` set m = set ks" using assms(3) by (auto simp: object_fields_Inr)
  have ok: "bt_ok m" using assms(1) v(1) by simp
  have "bt_get m k = bt_get (bt_of_list ?kvs) k" for k
  proof (cases "k \<in> set ks")
    case True
    then obtain x where "bt_get m k = Some x" using v(2) map_of_eq_None_iff [of m k] by auto
    moreover have "map_of (rev ?kvs) k = Some (jfield v k)"
      using True assms(2) by (subst map_of_eq_Some_iff) (auto simp: rev_map [symmetric] comp_def)
    ultimately show ?thesis using v(1) by (simp add: bt_get_of_list)
  next
    case False
    then have "bt_get m k = None" "map_of (rev ?kvs) k = None"
      using v(2) by (auto simp: map_of_eq_None_iff)
    then show ?thesis by (simp only: bt_get_of_list)
  qed
  then have "m = bt_of_list ?kvs" using bt_extensional [OF ok bt_ok_of_list] by blast
  then show ?thesis using v(1) by (simp add: json_obj_def)
qed

lemma json_ok_jfield: "json_ok v \<Longrightarrow> json_ok (jfield v k)"
  by (cases v) (auto split: option.split dest: map_of_SomeD)

lemma short_string_Inr [simp]: "short_string v p = Inr s \<longleftrightarrow> v = JString s \<and> length s \<le> 256"
  by (auto simp: short_string_def split: option.split)

lemma array_of_Inr [simp]: "array_of v e = Inr vs \<longleftrightarrow> v = JArray vs"
  by (auto simp: array_of_def split: option.split)

lemma validate_label_Inr [simp]:
  "validate_label v p names = Inr names' \<longleftrightarrow>
     (\<exists>l. v = JString l \<and> length l \<le> 256 \<and> l \<noteq> [] \<and> l \<notin> set names \<and> names' = l # names)"
  by (auto simp: validate_label_def)

text \<open>A list of encodings, each counted.\<close>

lemma each_counts:
  assumes "\<And>x n m. x \<in> set xs \<Longrightarrow> n \<le> limit \<Longrightarrow>
      f x n = Inr m \<longleftrightarrow> (\<exists>a. P a \<and> x = enc a \<and> m = n + sz a \<and> m \<le> limit)"
    and "n \<le> (limit :: nat)"
  shows "each f xs n = Inr m \<longleftrightarrow>
    (\<exists>as. (\<forall>a \<in> set as. P a) \<and> xs = map enc as \<and> m = n + sum_list (map sz as) \<and> m \<le> limit)"
  using assms
proof (induction xs arbitrary: n)
  case (Cons x xs)
  have "each f (x # xs) n = Inr m \<longleftrightarrow> (\<exists>k. f x n = Inr k \<and> each f xs k = Inr m)"
    by (simp split: sum.split)
  also have "\<dots> \<longleftrightarrow> (\<exists>a as. P a \<and> x = enc a \<and> (\<forall>b \<in> set as. P b) \<and> xs = map enc as
      \<and> m = n + sz a + sum_list (map sz as) \<and> m \<le> limit)" (is "?L = ?R")
  proof
    assume ?L
    then obtain k where k: "f x n = Inr k" "each f xs k = Inr m" by blast
    then obtain a where a: "P a" "x = enc a" "k = n + sz a" "k \<le> limit" using Cons(2) [of x n k] Cons(3) by auto
    then show ?R using Cons(1) [OF _ a(4)] Cons(2) k(2) by (metis list.set_intros(2))
  next
    assume ?R
    then obtain a as where as: "P a" "x = enc a" "\<forall>b \<in> set as. P b" "xs = map enc as"
      "m = n + sz a + sum_list (map sz as)" "m \<le> limit" by blast
    then have "f x n = Inr (n + sz a)" "n + sz a \<le> limit" using Cons(2) [of x n "n + sz a"] Cons(3) by auto
    moreover have "each f xs (n + sz a) = Inr m"
      using Cons(1) [OF _ calculation(2)] Cons(2) as by (metis list.set_intros(2))
    ultimately show ?L by blast
  qed
  also have "\<dots> \<longleftrightarrow> (\<exists>as. (\<forall>a \<in> set as. P a) \<and> x # xs = map enc as \<and> m = n + sum_list (map sz as) \<and> m \<le> limit)"
    by (auto simp: Cons_eq_map_conv add.assoc) (metis add.assoc list.set_intros list.simps(9) set_ConsD sum_list.Cons)+
  finally show ?case .
qed auto

lemma each_Cons_Inr: "each f (x # xs) s = Inr r \<longleftrightarrow> (\<exists>s'. f x s = Inr s' \<and> each f xs s' = Inr r)"
  by (cases "f x s") simp_all

text \<open>A list of labelled encodings.\<close>

definition labelled :: "string \<Rightarrow> string \<Rightarrow> ('a \<Rightarrow> json) \<Rightarrow> string \<times> 'a \<Rightarrow> json" where
  "labelled name payload enc e = json_obj [(name, JString (fst e)), (payload, enc (snd e))]"

lemma jfield_pair:
  "k \<noteq> k' \<Longrightarrow> jfield (json_obj [(k, a), (k', b)]) k = a" "jfield (json_obj [(k, a), (k', b)]) k' = b"
  by (simp_all add: jfield_json_obj)

lemma labelled_inject:
  "name \<noteq> payload \<Longrightarrow> labelled name payload enc e = json_obj [(name, JString l), (payload, j)]
     \<longleftrightarrow> fst e = l \<and> enc (snd e) = j"
  unfolding labelled_def by (metis jfield_pair json.inject(3))

lemma each_labels:
  fixes sz :: "'a \<Rightarrow> nat" and n :: nat
  assumes name: "name \<noteq> payload"
    and rec: "\<And>v n m. json_ok v \<Longrightarrow> n \<le> limit \<Longrightarrow>
      rec v n = Inr m \<longleftrightarrow> (\<exists>a. P a \<and> v = enc a \<and> m = n + sz a \<and> m \<le> limit)"
    and "n \<le> limit" and "\<forall>x \<in> set xs. json_ok x"
  shows "(\<exists>names'. each (\<lambda>entry (names, n).
      try_ok (exact_fields entry p [name, payload]) (\<lambda>_.
      try_ok (validate_label (jfield entry name) p names) (\<lambda>names'.
      try_ok (rec (jfield entry payload) n) (\<lambda>n'. Inr (names', n'))))) xs (names, n) = Inr (names', m))
    \<longleftrightarrow> (\<exists>es. (\<forall>e \<in> set es. P (snd e)) \<and> labels_ok (map fst es) \<and> set names \<inter> fst ` set es = {}
           \<and> xs = map (labelled name payload enc) es \<and> m = n + sum_list (map (\<lambda>e. sz (snd e)) es) \<and> m \<le> limit)"
    (is "(\<exists>names'. each ?f xs (names, n) = Inr (names', m)) \<longleftrightarrow> ?R xs names n")
  using assms(3,4)
proof (induction xs arbitrary: names n)
  case Nil
  then show ?case by (auto simp: labels_ok_def)
next
  case (Cons x xs)
  have first: "?f x (names, n) = Inr (names', k) \<longleftrightarrow>
      (\<exists>l a. x = labelled name payload enc (l, a) \<and> length l \<le> 256 \<and> l \<noteq> [] \<and> l \<notin> set names
         \<and> names' = l # names \<and> P a \<and> k = n + sz a \<and> k \<le> limit)" (is "?L = ?E") for names' k
  proof
    assume L: ?L
    then obtain m' where m': "exact_fields x p [name, payload] = Inr m'" by auto
    have "x = json_obj [(name, jfield x name), (payload, jfield x payload)]"
      using exact_fields_object [OF _ _ m'] Cons(3) name by simp
    then show ?E using L rec [OF json_ok_jfield, of x n payload k] Cons(2,3)
      by (auto simp: labelled_def)
  next
    assume ?E
    then obtain l a where e: "x = labelled name payload enc (l, a)" "length l \<le> 256" "l \<noteq> []" "l \<notin> set names"
      "names' = l # names" "P a" "k = n + sz a" "k \<le> limit" by blast
    obtain m' where "exact_fields x p [name, payload] = Inr m'"
      using json_obj_fields [of "[(name, JString l), (payload, enc a)]" "[name, payload]" p] e(1)
      by (auto simp: labelled_def)
    moreover have "jfield x name = JString l" "jfield x payload = enc a"
      using name by (simp_all add: e(1) labelled_def jfield_pair)
    moreover have "rec (enc a) n = Inr k"
      using rec [OF json_ok_jfield, of x n payload k] Cons(2,3) e calculation(3) by auto
    ultimately show ?L using e by simp
  qed
  have "(\<exists>names'. each ?f (x # xs) (names, n) = Inr (names', m)) \<longleftrightarrow>
      (\<exists>names1 k. ?f x (names, n) = Inr (names1, k) \<and> (\<exists>names'. each ?f xs (names1, k) = Inr (names', m)))"
    unfolding each_Cons_Inr split_paired_Ex by blast
  also have "\<dots> \<longleftrightarrow> (\<exists>l a. x = labelled name payload enc (l, a) \<and> length l \<le> 256 \<and> l \<noteq> [] \<and> l \<notin> set names
      \<and> P a \<and> n + sz a \<le> limit \<and> (\<exists>names'. each ?f xs (l # names, n + sz a) = Inr (names', m)))"
  proof -
    have "(\<exists>names1 k. ?f x (names, n) = Inr (names1, k) \<and> Q names1 k) \<longleftrightarrow>
        (\<exists>l a. x = labelled name payload enc (l, a) \<and> length l \<le> 256 \<and> l \<noteq> [] \<and> l \<notin> set names
          \<and> P a \<and> n + sz a \<le> limit \<and> Q (l # names) (n + sz a))" for Q
      unfolding first by blast
    then show ?thesis .
  qed
  also have "\<dots> \<longleftrightarrow> (\<exists>l a. x = labelled name payload enc (l, a) \<and> length l \<le> 256 \<and> l \<noteq> [] \<and> l \<notin> set names
      \<and> P a \<and> n + sz a \<le> limit \<and> ?R xs (l # names) (n + sz a))"
    using Cons(3) by (intro ex_cong1 conj_cong refl Cons(1)) simp_all
  also have "\<dots> \<longleftrightarrow> ?R (x # xs) names n" (is "?A = ?B")
  proof
    assume ?A
    then obtain l a es where e: "x = labelled name payload enc (l, a)" "length l \<le> 256" "l \<noteq> []" "l \<notin> set names"
      "P a" "\<forall>e \<in> set es. P (snd e)" "labels_ok (map fst es)" "set (l # names) \<inter> fst ` set es = {}"
      "xs = map (labelled name payload enc) es" "m = n + sz a + sum_list (map (\<lambda>e. sz (snd e)) es)" "m \<le> limit"
      by blast
    then show ?B by (intro exI [of _ "(l, a) # es"]) (auto simp: labels_ok_def)
  next
    assume ?B
    then obtain es where es: "\<forall>e \<in> set es. P (snd e)" "labels_ok (map fst es)" "set names \<inter> fst ` set es = {}"
      "x # xs = map (labelled name payload enc) es" "m = n + sum_list (map (\<lambda>e. sz (snd e)) es)" "m \<le> limit"
      by (elim exE conjE) (rule that)
    then obtain l a es' where "es = (l, a) # es'" by (cases es) auto
    then show ?A using es
      by (intro exI [of _ l] exI [of _ a] conjI exI [of _ es']) (auto simp: labels_ok_def)
  qed
  finally show ?case .
qed

section \<open>Types accepted are types of the grammar\<close>

lemma exact_tagged:
  assumes "json_ok v" and "exact_fields v p (''kind'' # ks) = Inr m" and "json_str (jfield v ''kind'') = Some kind"
    and "distinct (''kind'' # ks)"
  shows "v = tagged kind (map (\<lambda>k. (k, jfield v k)) ks)"
  using exact_fields_object [OF assms(1,4,2)] assms(3) by (simp add: tagged_def)

lemma tagged_fields:
  "fst ` set kvs = set ks \<Longrightarrow> \<exists>m. exact_fields (tagged kind kvs) p (''kind'' # ks) = Inr m"
  unfolding tagged_def by (rule json_obj_fields) simp

lemma tagged_kind [simp]: "''kind'' \<notin> fst ` set kvs \<Longrightarrow> jfield (tagged kind kvs) ''kind'' = JString kind"
  by (force simp: tagged_def jfield_json_obj map_add_def dest: map_of_SomeD split: option.split)

lemma type_nodes_pos: "0 < type_nodes a"
  by (cases a) simp_all

lemma jfield_tagged1: "k \<noteq> ''kind'' \<Longrightarrow> jfield (tagged kind [(k, x)]) k = x"
  by (simp add: tagged_def jfield_json_obj)

lemma jfield_tagged2:
  "k \<noteq> ''kind'' \<Longrightarrow> k' \<noteq> ''kind'' \<Longrightarrow> k \<noteq> k' \<Longrightarrow> jfield (tagged kind [(k, x), (k', y)]) k = x"
  "k \<noteq> ''kind'' \<Longrightarrow> k' \<noteq> ''kind'' \<Longrightarrow> k \<noteq> k' \<Longrightarrow> jfield (tagged kind [(k, x), (k', y)]) k' = y"
  by (simp_all add: tagged_def jfield_json_obj)

definition typed :: "nat \<Rightarrow> nat \<Rightarrow> nat \<Rightarrow> json \<Rightarrow> model_type \<Rightarrow> bool" where
  "typed depth n m v a \<longleftrightarrow>
     type_ok a \<and> type_within depth a \<and> v = type_json a \<and> m = n + type_nodes a \<and> m \<le> 8192"

lemma labelled_map:
  "map (labelled x y f) es = map (\<lambda>(l, a). json_obj [(x, JString l), (y, f a)]) es"
  by (simp add: labelled_def case_prod_beta)

lemma labelled_nodes: "(\<Sum>(l, a)\<leftarrow>es. type_nodes a) = (\<Sum>e\<leftarrow>es. type_nodes (snd e))"
  by (induction es) auto

lemma json_ok_elements: "json_ok v \<Longrightarrow> jfield v k = JArray vs \<Longrightarrow> \<forall>x \<in> set vs. json_ok x"
  using json_ok_jfield [of v k] by simp

lemma validate_type_sound:
  assumes IH: "\<And>v n m. json_ok v \<Longrightarrow> n \<le> 8192 \<Longrightarrow>
      validate_model_type v (Suc d) n p = Inr m \<longleftrightarrow> (\<exists>a. typed k n m v a)"
    and v: "json_ok v" and ok: "validate_model_type v d n p = Inr m"
  shows "\<exists>a. typed (Suc k) n m v a"
proof -
  let ?rec = "\<lambda>v n. validate_model_type v (Suc d) n p"
  have IH': "json_ok v \<Longrightarrow> n \<le> 8192 \<Longrightarrow> ?rec v n = Inr m \<longleftrightarrow>
      (\<exists>a. (type_ok a \<and> type_within k a) \<and> v = type_json a \<and> m = n + type_nodes a \<and> m \<le> 8192)" for v n m
    using IH by (simp add: typed_def)
  obtain kind where kind: "json_str (jfield v ''kind'') = Some kind" and n: "Suc n \<le> 8192" and d: "d < 32"
    using ok by (subst (asm) validate_model_type.simps) (auto simp: Let_def split: if_splits option.splits)
  note ok' = ok [unfolded validate_model_type.simps [of v d n p] Let_def kind option.case]
  note ef = exact_tagged [OF v _ kind]
  consider (atom) "kind \<in> {''int'', ''bool'', ''str'', ''null''}" | (wrap) "kind \<in> {''set'', ''seq''}"
    | (tuple) "kind = ''tuple''" | (named) "kind \<in> {''record'', ''variant''}" | (map) "kind = ''map''"
    | (opaque) "kind = ''opaqueItf''"
    using ok' by (auto split: if_splits)
  then show ?thesis
  proof cases
    case atom
    then obtain m' where "exact_fields v p [''kind''] = Inr m'" "m = Suc n"
      using ok' d n by (elim insertE emptyE) (simp_all, blast+)
    then have "v = tagged kind []" "m = Suc n" using ef [where ks = "[]"] by auto
    then show ?thesis using atom n
      by (intro exI [of _ "if kind = ''int'' then TInt else if kind = ''bool'' then TBool
            else if kind = ''str'' then TStr else TNull"]) (auto simp: typed_def)
  next
    case wrap
    then obtain m' where "exact_fields v p [''kind'', ''element''] = Inr m'"
      and r: "?rec (jfield v ''element'') (Suc n) = Inr m"
      using ok' d n by (elim insertE emptyE) (simp_all, blast+)
    then have "v = tagged kind [(''element'', jfield v ''element'')]" using ef [where ks = "[''element'']"] by auto
    moreover obtain a where "type_ok a" "type_within k a" "jfield v ''element'' = type_json a"
      "m = Suc n + type_nodes a" "m \<le> 8192"
      using r IH' [OF json_ok_jfield [OF v] n] by auto
    ultimately show ?thesis using wrap
      by (intro exI [of _ "if kind = ''set'' then TSet a else TSeq a"]) (auto simp: typed_def)
  next
    case tuple
    then obtain m' vs where "exact_fields v p [''kind'', ''elements''] = Inr m'"
      and vs: "jfield v ''elements'' = JArray vs" and r: "each ?rec vs (Suc n) = Inr m"
      using ok' d n by (simp, blast)
    then have "v = tagged kind [(''elements'', JArray vs)]" using ef [where ks = "[''elements'']"] by auto
    moreover obtain as where "\<forall>a \<in> set as. type_ok a \<and> type_within k a" "vs = map type_json as"
      "m = Suc n + sum_list (map type_nodes as)" "m \<le> 8192"
      using r each_counts [where xs = vs and f = ?rec and limit = 8192, OF IH' n] json_ok_elements [OF v vs]
      by auto
    ultimately show ?thesis using tuple
      by (intro exI [of _ "TTuple as"]) (simp add: typed_def)
  next
    case named
    let ?list = "if kind = ''record'' then ''fields'' else ''cases''"
    let ?name = "if kind = ''record'' then ''wireName'' else ''tag''"
    let ?payload = "if kind = ''record'' then ''type'' else ''payload''"
    obtain m' vs names' where "exact_fields v p [''kind'', ?list] = Inr m'" and vs: "jfield v ?list = JArray vs"
      and r: "each (\<lambda>entry (names, n).
          try_ok (exact_fields entry p [?name, ?payload]) (\<lambda>_.
          try_ok (validate_label (jfield entry ?name) p names) (\<lambda>names'.
          try_ok (?rec (jfield entry ?payload) n) (\<lambda>n'. Inr (names', n'))))) vs ([], Suc n) = Inr (names', m)"
      using named ok' d n by (elim insertE emptyE) (simp_all, blast+)
    then have vt: "v = tagged kind [(?list, JArray vs)]" using ef [where ks = "[?list]"] by auto
    have "?name \<noteq> ?payload" by simp
    from each_labels [where rec = ?rec and limit = 8192 and enc = type_json and sz = type_nodes
        and P = "\<lambda>a. type_ok a \<and> type_within k a", OF this IH' n json_ok_elements [OF v vs], of p "[]" m] r
    obtain es where es: "\<forall>e \<in> set es. type_ok (snd e) \<and> type_within k (snd e)" "labels_ok (map fst es)"
      "vs = map (labelled ?name ?payload type_json) es" "m = Suc n + sum_list (map (\<lambda>e. type_nodes (snd e)) es)"
      "m \<le> 8192"
      by auto
    then show ?thesis using named vt
      by (intro exI [of _ "if kind = ''record'' then TRecord es else TVariant es"])
        (auto simp: typed_def labelled_map labelled_nodes)
  next
    case map
    then obtain m' n1 where "exact_fields v p [''kind'', ''key'', ''value''] = Inr m'"
      and r: "?rec (jfield v ''key'') (Suc n) = Inr n1" "?rec (jfield v ''value'') n1 = Inr m"
      using ok' d n by (simp, blast)
    then have "v = tagged kind [(''key'', jfield v ''key''), (''value'', jfield v ''value'')]"
      using ef [where ks = "[''key'', ''value'']"] by auto
    moreover obtain a where a: "type_ok a" "type_within k a" "jfield v ''key'' = type_json a"
      "n1 = Suc n + type_nodes a" "n1 \<le> 8192"
      using r(1) IH' [OF json_ok_jfield [OF v] n] by auto
    moreover obtain b where "type_ok b" "type_within k b" "jfield v ''value'' = type_json b"
      "m = n1 + type_nodes b" "m \<le> 8192"
      using r(2) IH' [OF json_ok_jfield [OF v] a(5)] by auto
    ultimately show ?thesis using map
      by (intro exI [of _ "TMap a b"]) (simp add: typed_def)
  next
    case opaque
    then obtain m' s where "exact_fields v p [''kind'', ''description''] = Inr m'"
      and s: "jfield v ''description'' = JString s" "length s \<le> 256" "m = Suc n"
      using ok' d n by (simp, blast)
    then have "v = tagged kind [(''description'', JString s)]" using ef [where ks = "[''description'']"] by auto
    then show ?thesis using opaque s n
      by (intro exI [of _ "TOpaque s"]) (simp add: typed_def)
  qed
qed

lemma validate_type_complete:
  assumes IH: "\<And>v n m. json_ok v \<Longrightarrow> n \<le> 8192 \<Longrightarrow>
      validate_model_type v (Suc d) n p = Inr m \<longleftrightarrow> (\<exists>a. typed k n m v a)"
    and v: "json_ok v" and a: "typed (Suc k) n m v a" and d: "d < 32"
  shows "validate_model_type v d n p = Inr m"
proof -
  let ?rec = "\<lambda>v n. validate_model_type v (Suc d) n p"
  have IH': "json_ok v \<Longrightarrow> n \<le> 8192 \<Longrightarrow> ?rec v n = Inr m \<longleftrightarrow>
      (\<exists>a. (type_ok a \<and> type_within k a) \<and> v = type_json a \<and> m = n + type_nodes a \<and> m \<le> 8192)" for v n m
    using IH by (simp add: typed_def)
  have enc: "v = type_json a" and m: "m = n + type_nodes a" "m \<le> 8192" and ok: "type_ok a" "type_within (Suc k) a"
    using a by (simp_all add: typed_def)
  have n: "Suc n \<le> 8192" using m type_nodes_pos [of a] by linarith
  note simps = validate_model_type.simps [of v d n p] Let_def
  show ?thesis
  proof (cases a)
    case (TSet b)
    then have v: "v = tagged ''set'' [(''element'', type_json b)]" "json_ok (type_json b)"
      using enc json_ok_jfield [OF v, of "''element''"] by (simp_all add: jfield_tagged1)
    then have "?rec (type_json b) (Suc n) = Inr m"
      using IH' [OF v(2) n] ok m TSet by auto
    then show ?thesis unfolding simps using tagged_fields [of "[(''element'', type_json b)]" "[''element'']" "''set''" p] d n v(1)
      by (auto simp: jfield_tagged1)
  next
    case (TSeq b)
    then have v: "v = tagged ''seq'' [(''element'', type_json b)]" "json_ok (type_json b)"
      using enc json_ok_jfield [OF v, of "''element''"] by (simp_all add: jfield_tagged1)
    then have "?rec (type_json b) (Suc n) = Inr m"
      using IH' [OF v(2) n] ok m TSeq by auto
    then show ?thesis unfolding simps using tagged_fields [of "[(''element'', type_json b)]" "[''element'']" "''seq''" p] d n v(1)
      by (auto simp: jfield_tagged1)
  next
    case (TTuple ts)
    then have vt: "v = tagged ''tuple'' [(''elements'', JArray (map type_json ts))]" using enc by simp
    then have vs: "jfield v ''elements'' = JArray (map type_json ts)" by (simp add: jfield_tagged1)
    have "each ?rec (map type_json ts) (Suc n) = Inr m"
      using each_counts [where xs = "map type_json ts" and f = ?rec and limit = 8192, OF IH' n, of m]
        json_ok_elements [OF v vs] ok m TTuple by auto
    then show ?thesis
      unfolding simps using tagged_fields [of "[(''elements'', JArray (map type_json ts))]" "[''elements'']" "''tuple''" p] d n vt vs
      by auto
  next
    case (TRecord es)
    let ?js = "map (labelled ''wireName'' ''type'' type_json) es"
    have vt: "v = tagged ''record'' [(''fields'', JArray ?js)]" using enc TRecord by (simp add: labelled_map)
    then have vs: "jfield v ''fields'' = JArray ?js" by (simp add: jfield_tagged1)
    have "''wireName'' \<noteq> ''type''" by simp
    from each_labels [where rec = ?rec and limit = 8192 and enc = type_json and sz = type_nodes
        and P = "\<lambda>a. type_ok a \<and> type_within k a", OF this IH' n json_ok_elements [OF v vs], of p "[]" m]
    obtain names' where "each (\<lambda>entry (names, n).
        try_ok (exact_fields entry p [''wireName'', ''type'']) (\<lambda>_.
        try_ok (validate_label (jfield entry ''wireName'') p names) (\<lambda>names'.
        try_ok (?rec (jfield entry ''type'') n) (\<lambda>n'. Inr (names', n'))))) ?js ([], Suc n) = Inr (names', m)"
      using ok m TRecord by (fastforce simp: labelled_nodes)
    then show ?thesis
      unfolding simps using tagged_fields [of "[(''fields'', JArray ?js)]" "[''fields'']" "''record''" p] d n vt vs
      by auto
  next
    case (TVariant es)
    let ?js = "map (labelled ''tag'' ''payload'' type_json) es"
    have vt: "v = tagged ''variant'' [(''cases'', JArray ?js)]" using enc TVariant by (simp add: labelled_map)
    then have vs: "jfield v ''cases'' = JArray ?js" by (simp add: jfield_tagged1)
    have "''tag'' \<noteq> ''payload''" by simp
    from each_labels [where rec = ?rec and limit = 8192 and enc = type_json and sz = type_nodes
        and P = "\<lambda>a. type_ok a \<and> type_within k a", OF this IH' n json_ok_elements [OF v vs], of p "[]" m]
    obtain names' where "each (\<lambda>entry (names, n).
        try_ok (exact_fields entry p [''tag'', ''payload'']) (\<lambda>_.
        try_ok (validate_label (jfield entry ''tag'') p names) (\<lambda>names'.
        try_ok (?rec (jfield entry ''payload'') n) (\<lambda>n'. Inr (names', n'))))) ?js ([], Suc n) = Inr (names', m)"
      using ok m TVariant by (fastforce simp: labelled_nodes)
    then show ?thesis
      unfolding simps using tagged_fields [of "[(''cases'', JArray ?js)]" "[''cases'']" "''variant''" p] d n vt vs
      by auto
  next
    case (TMap b c)
    then have vt: "v = tagged ''map'' [(''key'', type_json b), (''value'', type_json c)]" using enc by simp
    then have js: "jfield v ''key'' = type_json b" "jfield v ''value'' = type_json c"
      by (simp_all add: jfield_tagged2)
    have "?rec (type_json b) (Suc n) = Inr (Suc n + type_nodes b)"
      using IH' [OF json_ok_jfield [OF v, of "''key''"] n] js ok m TMap by auto
    moreover have "?rec (type_json c) (Suc n + type_nodes b) = Inr m"
      using IH' [OF json_ok_jfield [OF v, of "''value''"], of "Suc n + type_nodes b" m] js ok m TMap by auto
    ultimately show ?thesis
      unfolding simps using tagged_fields [of "[(''key'', type_json b), (''value'', type_json c)]" "[''key'', ''value'']" "''map''" p]
        d n vt js
      by auto
  next
    case (TOpaque s)
    then show ?thesis
      unfolding simps using tagged_fields [of "[(''description'', JString s)]" "[''description'']" "''opaqueItf''" p] d n enc ok m
      by (auto simp: jfield_tagged1)
  qed (use d n enc m tagged_fields [of "[]" "[]" _ p] in \<open>unfold simps, auto\<close>)
qed

lemma validate_type_iff:
  "json_ok v \<Longrightarrow> n \<le> 8192 \<Longrightarrow> k + d = 32 \<Longrightarrow>
     validate_model_type v d n p = Inr m \<longleftrightarrow> (\<exists>a. typed k n m v a)"
proof (induction k arbitrary: v d n m)
  case 0
  then show ?case by (subst validate_model_type.simps) (simp add: typed_def)
next
  case (Suc k)
  have IH: "json_ok v \<Longrightarrow> n \<le> 8192 \<Longrightarrow> validate_model_type v (Suc d) n p = Inr m \<longleftrightarrow> (\<exists>a. typed k n m v a)"
    for v n m
    using Suc(1) [of v n "Suc d" m] Suc(4) by simp
  show ?case
    using validate_type_sound [OF IH Suc(2)] validate_type_complete [OF IH Suc(2)] Suc(4) by auto
qed

text \<open>
  C33. The validator of model types accepts exactly a grammar: a JSON value passes when and only when
  it is the encoding of a type in which no record or variant repeats a label or leaves one empty or
  too long, nested at most 32 deep; and it counts every node of the type against the limit of 8192.
\<close>

theorem model_types_accepted:
  assumes "json_ok v" and "n \<le> 8192"
  shows "validate_model_type v 0 n path = Inr m \<longleftrightarrow>
    (\<exists>a. v = type_json a \<and> type_ok a \<and> type_within 32 a \<and> m = n + type_nodes a \<and> m \<le> 8192)"
  using validate_type_iff [OF assms, of 32 0 path m] by (auto simp: typed_def)

definition sample_type :: model_type where
  "sample_type = TRecord [(''votes'', TMap TStr (TSet TInt)), (''leader'', TVariant [(''None'', TNull), (''Some'', TStr)])]"

theorem model_types_accepted_witness:
  "validate_model_type (type_json sample_type) 0 5 contract_path = Inr 13"
proof -
  have "json_ok (type_json sample_type)" "type_ok sample_type" "type_nodes sample_type = 8"
    by code_simp+
  moreover have "type_within 32 sample_type" by (simp add: sample_type_def eval_nat_numeral)
  ultimately have "\<exists>a. type_json sample_type = type_json a \<and> type_ok a \<and> type_within 32 a
      \<and> (13 :: nat) = 5 + type_nodes a \<and> (13 :: nat) \<le> 8192" by (intro exI [of _ sample_type]) simp
  then show ?thesis
    using model_types_accepted [of "type_json sample_type" 5 contract_path 13] \<open>json_ok (type_json sample_type)\<close> by simp
qed

end
