(* ===== verification/Trace_Literals.thy ===== *)
theory Trace_Literals
  imports Model_Contract
begin

text \<open>
  The literals of the trace format that a contract may hold as map keys of a path, as a grammar, and
  the validator of \<^verbatim>\<open>src/model_interface.rs\<close> against it.
\<close>

section \<open>The grammar\<close>

datatype itf_literal =
    LInt string | LBool bool | LStr string | LNull
  | LSet "itf_literal list" | LSeq "itf_literal list" | LTuple "itf_literal list"
  | LRecord "(string \<times> itf_literal) list"
  | LMap "(itf_literal \<times> itf_literal) list"
  | LVariant string itf_literal

fun literal_json :: "itf_literal \<Rightarrow> json" where
  "literal_json (LInt s) = tagged ''int'' [(''value'', JString s)]"
| "literal_json (LBool b) = tagged ''bool'' [(''value'', JBool b)]"
| "literal_json (LStr s) = tagged ''str'' [(''value'', JString s)]"
| "literal_json LNull = tagged ''null'' []"
| "literal_json (LSet ls) = tagged ''set'' [(''values'', JArray (map literal_json ls))]"
| "literal_json (LSeq ls) = tagged ''seq'' [(''values'', JArray (map literal_json ls))]"
| "literal_json (LTuple ls) = tagged ''tuple'' [(''values'', JArray (map literal_json ls))]"
| "literal_json (LRecord fs) = tagged ''record'' [(''fields'',
     JArray (map (\<lambda>(l, a). json_obj [(''name'', JString l), (''value'', literal_json a)]) fs))]"
| "literal_json (LMap es) = tagged ''map'' [(''entries'',
     JArray (map (\<lambda>(a, b). json_obj [(''key'', literal_json a), (''value'', literal_json b)]) es))]"
| "literal_json (LVariant l a) = tagged ''variant'' [(''tag'', JString l), (''payload'', literal_json a)]"

fun literal_ok :: "itf_literal \<Rightarrow> bool" where
  "literal_ok (LInt s) = (canonical_decimal s \<and> length s \<le> 256)"
| "literal_ok (LStr s) = (length s \<le> 256)"
| "literal_ok (LSet ls) = (\<forall>a \<in> set ls. literal_ok a)"
| "literal_ok (LSeq ls) = (\<forall>a \<in> set ls. literal_ok a)"
| "literal_ok (LTuple ls) = (\<forall>a \<in> set ls. literal_ok a)"
| "literal_ok (LRecord fs) = (\<forall>(l, a) \<in> set fs. length l \<le> 256 \<and> literal_ok a)"
| "literal_ok (LMap es) = (\<forall>(a, b) \<in> set es. literal_ok a \<and> literal_ok b)"
| "literal_ok (LVariant l a) = (length l \<le> 256 \<and> literal_ok a)"
| "literal_ok _ = True"

fun literal_within :: "nat \<Rightarrow> itf_literal \<Rightarrow> bool" where
  "literal_within 0 _ = False"
| "literal_within (Suc n) (LSet ls) = (\<forall>a \<in> set ls. literal_within n a)"
| "literal_within (Suc n) (LSeq ls) = (\<forall>a \<in> set ls. literal_within n a)"
| "literal_within (Suc n) (LTuple ls) = (\<forall>a \<in> set ls. literal_within n a)"
| "literal_within (Suc n) (LRecord fs) = (\<forall>(l, a) \<in> set fs. literal_within n a)"
| "literal_within (Suc n) (LMap es) = (\<forall>(a, b) \<in> set es. literal_within n a \<and> literal_within n b)"
| "literal_within (Suc n) (LVariant l a) = literal_within n a"
| "literal_within (Suc n) _ = True"

fun literal_nodes :: "itf_literal \<Rightarrow> nat" where
  "literal_nodes (LSet ls) = Suc (sum_list (map literal_nodes ls))"
| "literal_nodes (LSeq ls) = Suc (sum_list (map literal_nodes ls))"
| "literal_nodes (LTuple ls) = Suc (sum_list (map literal_nodes ls))"
| "literal_nodes (LRecord fs) = Suc (sum_list (map (\<lambda>(l, a). literal_nodes a) fs))"
| "literal_nodes (LMap es) = Suc (sum_list (map (\<lambda>(a, b). literal_nodes a + literal_nodes b) es))"
| "literal_nodes (LVariant l a) = Suc (literal_nodes a)"
| "literal_nodes _ = 1"

section \<open>Its entries\<close>

lemma literal_nodes_pos: "0 < literal_nodes a"
  by (cases a) simp_all

text \<open>What a validator says of a value when it accepts a language with counted words.\<close>

definition spoken :: "nat \<Rightarrow> nat \<Rightarrow> nat \<Rightarrow> json \<Rightarrow> itf_literal \<Rightarrow> bool" where
  "spoken depth n m v a \<longleftrightarrow>
     (literal_ok a \<and> literal_within depth a) \<and> v = literal_json a \<and> m = n + literal_nodes a \<and> m \<le> 16384"

definition field_json :: "string \<times> itf_literal \<Rightarrow> json" where
  "field_json = (\<lambda>(l, a). json_obj [(''name'', JString l), (''value'', literal_json a)])"

definition entry_json :: "itf_literal \<times> itf_literal \<Rightarrow> json" where
  "entry_json = (\<lambda>(a, b). json_obj [(''key'', literal_json a), (''value'', literal_json b)])"

definition step_field :: "(json \<Rightarrow> nat \<Rightarrow> negotiated_error + nat) \<Rightarrow> string \<Rightarrow> json \<Rightarrow> nat \<Rightarrow> negotiated_error + nat" where
  "step_field rec p entry n =
     try_ok (exact_fields entry p [''name'', ''value'']) (\<lambda>_.
     try_ok (short_string (jfield entry ''name'') p) (\<lambda>_. rec (jfield entry ''value'') n))"

definition step_entry :: "(json \<Rightarrow> nat \<Rightarrow> negotiated_error + nat) \<Rightarrow> string \<Rightarrow> json \<Rightarrow> nat \<Rightarrow> negotiated_error + nat" where
  "step_entry rec p entry n =
     try_ok (exact_fields entry p [''key'', ''value'']) (\<lambda>_.
     try_ok (rec (jfield entry ''key'') n) (\<lambda>n'. rec (jfield entry ''value'') n'))"

lemma object_of_two:
  assumes "json_ok x" and "k \<noteq> k'"
  shows "(\<exists>m. exact_fields x p [k, k'] = Inr m) \<longleftrightarrow> x = json_obj [(k, jfield x k), (k', jfield x k')]"
proof
  assume "\<exists>m. exact_fields x p [k, k'] = Inr m"
  then obtain m where m: "exact_fields x p [k, k'] = Inr m" by blast
  show "x = json_obj [(k, jfield x k), (k', jfield x k')]"
    using exact_fields_object [OF assms(1) _ m] assms(2) by simp
next
  assume x: "x = json_obj [(k, jfield x k), (k', jfield x k')]"
  show "\<exists>m. exact_fields x p [k, k'] = Inr m"
    by (subst x) (rule json_obj_fields, simp)
qed

lemma field_counts:
  assumes IH: "\<And>v n m. json_ok v \<Longrightarrow> n \<le> 16384 \<Longrightarrow> rec v n = Inr m \<longleftrightarrow> (\<exists>a. spoken k n m v a)"
    and x: "json_ok x" and n: "n \<le> 16384"
  shows "step_field rec p x n = Inr m \<longleftrightarrow>
    (\<exists>e. (length (fst e) \<le> 256 \<and> literal_ok (snd e) \<and> literal_within k (snd e)) \<and> x = field_json e
         \<and> m = n + literal_nodes (snd e) \<and> m \<le> 16384)"
proof -
  have "step_field rec p x n = Inr m \<longleftrightarrow>
      x = json_obj [(''name'', jfield x ''name''), (''value'', jfield x ''value'')]
      \<and> (\<exists>l. jfield x ''name'' = JString l \<and> length l \<le> 256) \<and> (\<exists>a. spoken k n m (jfield x ''value'') a)"
    using object_of_two [OF x, of "''name''" "''value''" p] IH [OF json_ok_jfield [OF x] n]
    by (auto simp: step_field_def)
  also have "\<dots> \<longleftrightarrow> (\<exists>l a. length l \<le> 256 \<and> x = json_obj [(''name'', JString l), (''value'', literal_json a)]
      \<and> (literal_ok a \<and> literal_within k a) \<and> m = n + literal_nodes a \<and> m \<le> 16384)" (is "?A \<longleftrightarrow> ?B")
  proof
    assume ?A
    then show ?B unfolding spoken_def by metis
  next
    assume ?B
    then show ?A unfolding spoken_def by (elim exE conjE) (auto simp: jfield_pair)
  qed
  finally show ?thesis by (auto simp: field_json_def split_paired_Ex)
qed

lemma entry_counts:
  assumes IH: "\<And>v n m. json_ok v \<Longrightarrow> n \<le> 16384 \<Longrightarrow> rec v n = Inr m \<longleftrightarrow> (\<exists>a. spoken k n m v a)"
    and x: "json_ok x" and n: "n \<le> 16384"
  shows "step_entry rec p x n = Inr m \<longleftrightarrow>
    (\<exists>e. (literal_ok (fst e) \<and> literal_within k (fst e) \<and> literal_ok (snd e) \<and> literal_within k (snd e))
         \<and> x = entry_json e \<and> m = n + (literal_nodes (fst e) + literal_nodes (snd e)) \<and> m \<le> 16384)"
proof -
  have "step_entry rec p x n = Inr m \<longleftrightarrow>
      x = json_obj [(''key'', jfield x ''key''), (''value'', jfield x ''value'')]
      \<and> (\<exists>m'. rec (jfield x ''key'') n = Inr m' \<and> rec (jfield x ''value'') m' = Inr m)"
    using object_of_two [OF x, of "''key''" "''value''" p] by (auto simp: step_entry_def)
  also have "\<dots> \<longleftrightarrow> x = json_obj [(''key'', jfield x ''key''), (''value'', jfield x ''value'')]
      \<and> (\<exists>m' a b. spoken k n m' (jfield x ''key'') a \<and> spoken k m' m (jfield x ''value'') b)"
  proof -
    have "m' \<le> 16384" if "rec (jfield x ''key'') n = Inr m'" for m'
      using that IH [OF json_ok_jfield [OF x] n] by (auto simp: spoken_def)
    moreover have "m' \<le> 16384" if "spoken k n m' v a" for m' v a
      using that by (simp add: spoken_def)
    ultimately show ?thesis
      using IH [OF json_ok_jfield [OF x] n] IH [OF json_ok_jfield [OF x]] by blast
  qed
  also have "\<dots> \<longleftrightarrow> (\<exists>a b. x = json_obj [(''key'', literal_json a), (''value'', literal_json b)]
      \<and> (literal_ok a \<and> literal_within k a) \<and> (literal_ok b \<and> literal_within k b)
      \<and> m = n + (literal_nodes a + literal_nodes b) \<and> m \<le> 16384)" (is "?A \<longleftrightarrow> ?B")
  proof
    assume ?A
    then obtain m' a b where "x = json_obj [(''key'', jfield x ''key''), (''value'', jfield x ''value'')]"
      and ab: "spoken k n m' (jfield x ''key'') a" "spoken k m' m (jfield x ''value'') b" by blast
    then have "x = json_obj [(''key'', literal_json a), (''value'', literal_json b)]" by (simp add: spoken_def)
    then show ?B using ab by (intro exI [of _ a] exI [of _ b]) (auto simp: spoken_def)
  next
    assume ?B
    then obtain a b where x: "x = json_obj [(''key'', literal_json a), (''value'', literal_json b)]"
      and ab: "literal_ok a \<and> literal_within k a" "literal_ok b \<and> literal_within k b"
        "m = n + (literal_nodes a + literal_nodes b)" "m \<le> 16384" by blast
    then have "jfield x ''key'' = literal_json a" "jfield x ''value'' = literal_json b" by (simp_all add: jfield_pair)
    then show ?A using x ab
      by (intro conjI exI [of _ "n + literal_nodes a"] exI [of _ a] exI [of _ b]) (auto simp: spoken_def)
  qed
  finally show ?thesis by (auto simp: entry_json_def split_paired_Ex)
qed

section \<open>Literals accepted are literals of the grammar\<close>

lemma tagged_iff:
  assumes "json_ok v" and "jfield v ''kind'' = JString kind" and "distinct (''kind'' # ks)"
  shows "(\<exists>m. exact_fields v p (''kind'' # ks) = Inr m) \<longleftrightarrow> v = tagged kind (map (\<lambda>k. (k, jfield v k)) ks)"
proof
  assume "\<exists>m. exact_fields v p (''kind'' # ks) = Inr m"
  then show "v = tagged kind (map (\<lambda>k. (k, jfield v k)) ks)"
    using exact_tagged [OF assms(1) _ _ assms(3)] assms(2) by auto
next
  assume v: "v = tagged kind (map (\<lambda>k. (k, jfield v k)) ks)"
  show "\<exists>m. exact_fields v p (''kind'' # ks) = Inr m"
    by (subst v) (rule tagged_fields, simp add: image_comp comp_def)
qed

lemma tagged_one:
  assumes "json_ok v" and "jfield v ''kind'' = JString kind" and "k \<noteq> ''kind''"
  shows "(\<exists>m. exact_fields v p [''kind'', k] = Inr m) \<and> jfield v k = x \<longleftrightarrow> v = tagged kind [(k, x)]"
  using tagged_iff [OF assms(1,2), of "[k]" p] assms(3) by (auto simp: jfield_tagged1)

lemma tagged_two:
  assumes "json_ok v" and "jfield v ''kind'' = JString kind" and "distinct [''kind'', k, k']"
  shows "(\<exists>m. exact_fields v p [''kind'', k, k'] = Inr m) \<and> jfield v k = x \<and> jfield v k' = y
    \<longleftrightarrow> v = tagged kind [(k, x), (k', y)]"
  using tagged_iff [OF assms(1,2), of "[k, k']" p] assms(3) by (auto simp: jfield_tagged2)

lemma ex_image: "(\<And>a. P a \<Longrightarrow> \<exists>x. a = f x) \<Longrightarrow> (\<exists>x. P (f x)) \<longleftrightarrow> (\<exists>a. P a)"
  by metis

lemma tagged_array:
  assumes "json_ok v" and "jfield v ''kind'' = JString kind" and "f \<noteq> ''kind''"
  shows "try_ok (exact_fields v p [''kind'', f]) (\<lambda>_. try_ok (array_of (jfield v f) e) F) = Inr r \<longleftrightarrow>
    (\<exists>xs. v = tagged kind [(f, JArray xs)] \<and> F xs = Inr r)"
  unfolding try_ok_Inr array_of_Inr tagged_one [OF assms, of p, symmetric] by blast

lemma tagged_list:
  assumes "f \<noteq> ''kind''"
    and "\<And>xs. jfield v f = JArray xs \<Longrightarrow> E xs \<longleftrightarrow> (\<exists>ls. P ls \<and> xs = map enc ls \<and> R ls)"
  shows "(\<exists>xs. v = tagged kind [(f, JArray xs)] \<and> E xs) \<longleftrightarrow>
    (\<exists>ls. v = tagged kind [(f, JArray (map enc ls))] \<and> P ls \<and> R ls)"
proof -
  have "v = tagged kind [(f, JArray xs)] \<Longrightarrow> E xs \<longleftrightarrow> (\<exists>ls. P ls \<and> xs = map enc ls \<and> R ls)" for xs
    using assms by (simp add: jfield_tagged1)
  then show ?thesis by blast
qed

text \<open>The branches of the validator.\<close>

lemma literal_branches:
  fixes v d n p
  defines "rec \<equiv> \<lambda>v n. validate_itf_literal v (Suc d) n p"
  assumes "d < 128" and "n < 16384" and "jfield v ''kind'' = JString kind"
  shows "validate_itf_literal v d n p =
    (if kind = ''int'' then
       try_ok (exact_fields v p [''kind'', ''value'']) (\<lambda>_.
       try_ok (short_string (jfield v ''value'') p) (\<lambda>integer.
         if canonical_decimal integer then Inr (Suc n)
         else unexpected (p @ '': canonical decimal integer string expected'')))
     else if kind = ''bool'' then
       try_ok (exact_fields v p [''kind'', ''value'']) (\<lambda>_.
         if as_bool (jfield v ''value'') = None then unexpected (p @ '': Boolean expected'') else Inr (Suc n))
     else if kind = ''str'' then
       try_ok (exact_fields v p [''kind'', ''value'']) (\<lambda>_.
       try_ok (short_string (jfield v ''value'') p) (\<lambda>_. Inr (Suc n)))
     else if kind = ''null'' then try_ok (exact_fields v p [''kind'']) (\<lambda>_. Inr (Suc n))
     else if kind \<in> {''set'', ''seq'', ''tuple''} then
       try_ok (exact_fields v p [''kind'', ''values'']) (\<lambda>_.
       try_ok (array_of (jfield v ''values'') (p @ '': values array expected'')) (\<lambda>xs. each rec xs (Suc n)))
     else if kind = ''record'' then
       try_ok (exact_fields v p [''kind'', ''fields'']) (\<lambda>_.
       try_ok (array_of (jfield v ''fields'') (p @ '': fields array expected'')) (\<lambda>xs.
         each (step_field rec p) xs (Suc n)))
     else if kind = ''map'' then
       try_ok (exact_fields v p [''kind'', ''entries'']) (\<lambda>_.
       try_ok (array_of (jfield v ''entries'') (p @ '': entries array expected'')) (\<lambda>xs.
         each (step_entry rec p) xs (Suc n)))
     else if kind = ''variant'' then
       try_ok (exact_fields v p [''kind'', ''tag'', ''payload'']) (\<lambda>_.
       try_ok (short_string (jfield v ''tag'') p) (\<lambda>_. rec (jfield v ''payload'') (Suc n)))
     else unexpected (p @ '': unknown canonical ITF literal '' @ in_quotes kind))"
proof -
  obtain m where "v = JObject m" using assms(4) by (cases v) auto
  then have obj: "(as_object v = None) = False" by simp
  have steps: "(128 \<le> d) = False" "(16384 < n + 1) = False" "json_str (jfield v ''kind'') = Some kind"
    using assms(2-4) by simp_all
  show ?thesis
    unfolding rec_def step_field_def [abs_def] step_entry_def [abs_def]
    by (subst validate_itf_literal.simps) (simp only: Let_def obj steps if_False option.case Suc_eq_plus1)
qed

lemma as_bool_None: "as_bool v = None \<longleftrightarrow> (\<nexists>b. v = JBool b)"
  by (cases v) auto

fun literal_kind :: "itf_literal \<Rightarrow> string" where
  "literal_kind (LInt _) = ''int''"
| "literal_kind (LBool _) = ''bool''"
| "literal_kind (LStr _) = ''str''"
| "literal_kind LNull = ''null''"
| "literal_kind (LSet _) = ''set''"
| "literal_kind (LSeq _) = ''seq''"
| "literal_kind (LTuple _) = ''tuple''"
| "literal_kind (LRecord _) = ''record''"
| "literal_kind (LMap _) = ''map''"
| "literal_kind (LVariant _ _) = ''variant''"

lemma literal_kind: "jfield (literal_json a) ''kind'' = JString (literal_kind a)"
  by (cases a) simp_all

lemma literal_kind_iff:
  "literal_kind a = ''int'' \<longleftrightarrow> (\<exists>s. a = LInt s)" "literal_kind a = ''bool'' \<longleftrightarrow> (\<exists>b. a = LBool b)"
  "literal_kind a = ''str'' \<longleftrightarrow> (\<exists>s. a = LStr s)" "literal_kind a = ''null'' \<longleftrightarrow> a = LNull"
  "literal_kind a = ''set'' \<longleftrightarrow> (\<exists>ls. a = LSet ls)" "literal_kind a = ''seq'' \<longleftrightarrow> (\<exists>ls. a = LSeq ls)"
  "literal_kind a = ''tuple'' \<longleftrightarrow> (\<exists>ls. a = LTuple ls)" "literal_kind a = ''record'' \<longleftrightarrow> (\<exists>fs. a = LRecord fs)"
  "literal_kind a = ''map'' \<longleftrightarrow> (\<exists>es. a = LMap es)" "literal_kind a = ''variant'' \<longleftrightarrow> (\<exists>l b. a = LVariant l b)"
  by (cases a; simp)+

text \<open>What each kind accepts, in terms of what the nested values are accepted as.\<close>

lemma literal_kinds:
  assumes IH: "\<And>v n m. json_ok v \<Longrightarrow> n \<le> 16384 \<Longrightarrow>
      validate_itf_literal v (Suc d) n p = Inr m \<longleftrightarrow> (\<exists>a. spoken k n m v a)"
    and v: "json_ok v" and d: "d < 128" and n: "n < 16384" and kind: "jfield v ''kind'' = JString kind"
  shows "validate_itf_literal v d n p = Inr m \<longleftrightarrow>
    (\<exists>a. spoken (Suc k) n m v a)"
proof -
  let ?rec = "\<lambda>v n. validate_itf_literal v (Suc d) n p"
  note branch = literal_branches [OF d n kind, of p]
  note one = tagged_one [OF v kind]
  note elems = json_ok_elements [OF v]
  have n': "Suc n \<le> 16384" using n by simp
  have IH': "json_ok v \<Longrightarrow> n \<le> 16384 \<Longrightarrow> ?rec v n = Inr m \<longleftrightarrow>
      (\<exists>a. (literal_ok a \<and> literal_within k a) \<and> v = literal_json a \<and> m = n + literal_nodes a \<and> m \<le> 16384)" for v n m
    using IH by (simp add: spoken_def)
  have lists: "each ?rec xs (Suc n) = Inr m \<longleftrightarrow> (\<exists>ls. (\<forall>a \<in> set ls. literal_ok a \<and> literal_within k a)
      \<and> xs = map literal_json ls \<and> m = Suc n + sum_list (map literal_nodes ls) \<and> m \<le> 16384)"
    if "jfield v f = JArray xs" for f xs
    using elems [OF that] by (intro each_counts IH' n') auto
  have fs: "each (step_field ?rec p) xs (Suc n) = Inr m \<longleftrightarrow>
      (\<exists>es. (\<forall>e \<in> set es. length (fst e) \<le> 256 \<and> literal_ok (snd e) \<and> literal_within k (snd e))
        \<and> xs = map field_json es \<and> m = Suc n + sum_list (map (\<lambda>e. literal_nodes (snd e)) es) \<and> m \<le> 16384)"
    if "jfield v f = JArray xs" for f xs
    using elems [OF that] by (intro each_counts field_counts IH n') auto
  have es: "each (step_entry ?rec p) xs (Suc n) = Inr m \<longleftrightarrow>
      (\<exists>es. (\<forall>e \<in> set es. literal_ok (fst e) \<and> literal_within k (fst e) \<and> literal_ok (snd e) \<and> literal_within k (snd e))
        \<and> xs = map entry_json es \<and> m = Suc n + sum_list (map (\<lambda>e. literal_nodes (fst e) + literal_nodes (snd e)) es)
        \<and> m \<le> 16384)"
    if "jfield v f = JArray xs" for f xs
    using elems [OF that] by (intro each_counts entry_counts IH n') auto
  have tag: "literal_kind a = kind" if "spoken (Suc k) n m v a" for a
    using that kind by (simp add: spoken_def literal_kind)
  consider (int) "kind = ''int''" | (bool) "kind = ''bool''" | (str) "kind = ''str''" | (null) "kind = ''null''"
    | (list) "kind \<in> {''set'', ''seq'', ''tuple''}" | (fields) "kind = ''record''"
    | (entries) "kind = ''map''" | (variant) "kind = ''variant''"
    | (other) "kind \<notin> {''int'', ''bool'', ''str'', ''null'', ''set'', ''seq'', ''tuple'', ''record'', ''map'', ''variant''}"
    unfolding insert_iff empty_iff by metis
  then show ?thesis
  proof cases
    case int
    have "validate_itf_literal v d n p = Inr m \<longleftrightarrow> (\<exists>s. v = tagged kind [(''value'', JString s)]
        \<and> canonical_decimal s \<and> length s \<le> 256 \<and> m = Suc n)"
      using one [of "''value''" p] int by (auto simp: branch)
    also have "\<dots> \<longleftrightarrow> (\<exists>s. spoken (Suc k) n m v (LInt s))"
      using int n' by (auto simp: spoken_def )
    also have "\<dots> \<longleftrightarrow> (\<exists>a. spoken (Suc k) n m v a)"
      using tag int literal_kind_iff(1) by metis
    finally show ?thesis .
  next
    case bool
    have "validate_itf_literal v d n p = Inr m \<longleftrightarrow> (\<exists>b. v = tagged kind [(''value'', JBool b)] \<and> m = Suc n)"
      using one [of "''value''" p] bool by (auto simp: branch as_bool_None)
    also have "\<dots> \<longleftrightarrow> (\<exists>b. spoken (Suc k) n m v (LBool b))"
      using bool n' by (auto simp: spoken_def )
    also have "\<dots> \<longleftrightarrow> (\<exists>a. spoken (Suc k) n m v a)"
      using tag bool literal_kind_iff(2) by metis
    finally show ?thesis .
  next
    case str
    have "validate_itf_literal v d n p = Inr m \<longleftrightarrow> (\<exists>s. v = tagged kind [(''value'', JString s)]
        \<and> length s \<le> 256 \<and> m = Suc n)"
      using one [of "''value''" p] str by (auto simp: branch)
    also have "\<dots> \<longleftrightarrow> (\<exists>s. spoken (Suc k) n m v (LStr s))"
      using str n' by (auto simp: spoken_def )
    also have "\<dots> \<longleftrightarrow> (\<exists>a. spoken (Suc k) n m v a)"
      using tag str literal_kind_iff(3) by metis
    finally show ?thesis .
  next
    case null
    have "validate_itf_literal v d n p = Inr m \<longleftrightarrow> v = tagged kind [] \<and> m = Suc n"
      using tagged_iff [OF v kind, of "[]" p] null by (auto simp: branch)
    also have "\<dots> \<longleftrightarrow> spoken (Suc k) n m v LNull"
      using null n' by (auto simp: spoken_def )
    also have "\<dots> \<longleftrightarrow> (\<exists>a. spoken (Suc k) n m v a)"
      using tag null literal_kind_iff(4) by metis
    finally show ?thesis .
  next
    case list
    have "validate_itf_literal v d n p = Inr m \<longleftrightarrow>
        (\<exists>xs. v = tagged kind [(''values'', JArray xs)] \<and> each ?rec xs (Suc n) = Inr m)"
      using tagged_array [OF v kind, of "''values''"] list by (elim insertE emptyE) (simp_all add: branch)
    also have "\<dots> \<longleftrightarrow> (\<exists>ls. v = tagged kind [(''values'', JArray (map literal_json ls))]
        \<and> (\<forall>a \<in> set ls. literal_ok a \<and> literal_within k a)
        \<and> m = Suc n + sum_list (map literal_nodes ls) \<and> m \<le> 16384)"
      by (rule tagged_list) (simp, erule lists)
    also have "\<dots> \<longleftrightarrow> (\<exists>ls. spoken (Suc k) n m v (if kind = ''set'' then LSet ls
        else if kind = ''seq'' then LSeq ls else LTuple ls))"
      using list by (elim insertE emptyE; intro ex_cong1) (auto simp: spoken_def)
    also have "\<dots> \<longleftrightarrow> (\<exists>a. spoken (Suc k) n m v a)"
    proof -
      have "\<exists>ls. a = (if kind = ''set'' then LSet ls else if kind = ''seq'' then LSeq ls else LTuple ls)"
        if "spoken (Suc k) n m v a" for a
        using tag [OF that] list by (cases a) auto
      then show ?thesis by (rule ex_image)
    qed
    finally show ?thesis .
  next
    case fields
    have "validate_itf_literal v d n p = Inr m \<longleftrightarrow>
        (\<exists>xs. v = tagged kind [(''fields'', JArray xs)] \<and> each (step_field ?rec p) xs (Suc n) = Inr m)"
      using tagged_array [OF v kind, of "''fields''"] fields by (simp add: branch)
    also have "\<dots> \<longleftrightarrow> (\<exists>es. v = tagged kind [(''fields'', JArray (map field_json es))]
        \<and> (\<forall>e \<in> set es. length (fst e) \<le> 256 \<and> literal_ok (snd e) \<and> literal_within k (snd e))
        \<and> m = Suc n + sum_list (map (\<lambda>e. literal_nodes (snd e)) es) \<and> m \<le> 16384)"
      by (rule tagged_list) (simp, erule fs)
    also have "\<dots> \<longleftrightarrow> (\<exists>es. spoken (Suc k) n m v (LRecord es))"
      using fields n' by (auto simp: spoken_def field_json_def [abs_def] case_prod_beta')
    also have "\<dots> \<longleftrightarrow> (\<exists>a. spoken (Suc k) n m v a)"
      using tag fields literal_kind_iff(8) by metis
    finally show ?thesis .
  next
    case entries
    have "validate_itf_literal v d n p = Inr m \<longleftrightarrow>
        (\<exists>xs. v = tagged kind [(''entries'', JArray xs)] \<and> each (step_entry ?rec p) xs (Suc n) = Inr m)"
      using tagged_array [OF v kind, of "''entries''"] entries by (simp add: branch)
    also have "\<dots> \<longleftrightarrow> (\<exists>es. v = tagged kind [(''entries'', JArray (map entry_json es))]
        \<and> (\<forall>e \<in> set es. literal_ok (fst e) \<and> literal_within k (fst e) \<and> literal_ok (snd e) \<and> literal_within k (snd e))
        \<and> m = Suc n + sum_list (map (\<lambda>e. literal_nodes (fst e) + literal_nodes (snd e)) es) \<and> m \<le> 16384)"
      by (rule tagged_list) (simp, erule es)
    also have "\<dots> \<longleftrightarrow> (\<exists>es. spoken (Suc k) n m v (LMap es))"
      using entries n' by (auto simp: spoken_def entry_json_def [abs_def] case_prod_beta')
    also have "\<dots> \<longleftrightarrow> (\<exists>a. spoken (Suc k) n m v a)"
      using tag entries literal_kind_iff(9) by metis
    finally show ?thesis .
  next
    case variant
    have "validate_itf_literal v d n p = Inr m \<longleftrightarrow>
        (\<exists>l a. ((\<exists>m. exact_fields v p [''kind'', ''tag'', ''payload''] = Inr m)
           \<and> jfield v ''tag'' = JString l \<and> jfield v ''payload'' = literal_json a) \<and> length l \<le> 256
        \<and> (literal_ok a \<and> literal_within k a) \<and> m = Suc n + literal_nodes a \<and> m \<le> 16384)"
      using IH' [OF json_ok_jfield [OF v] n', of "''payload''" m] variant by (simp add: branch) metis
    also have "\<dots> \<longleftrightarrow> (\<exists>l a. v = tagged kind [(''tag'', JString l), (''payload'', literal_json a)] \<and> length l \<le> 256
        \<and> (literal_ok a \<and> literal_within k a) \<and> m = Suc n + literal_nodes a \<and> m \<le> 16384)"
      by (subst tagged_two [OF v kind]) simp_all
    also have "\<dots> \<longleftrightarrow> (\<exists>l a. spoken (Suc k) n m v (LVariant l a))"
      using variant n' by (auto simp: spoken_def )
    also have "\<dots> \<longleftrightarrow> (\<exists>a. spoken (Suc k) n m v a)"
      using tag variant literal_kind_iff(10) by metis
    finally show ?thesis .
  next
    case other
    have "literal_kind a \<in> {''int'', ''bool'', ''str'', ''null'', ''set'', ''seq'', ''tuple'', ''record'', ''map'', ''variant''}" for a
      by (cases a) simp_all
    then show ?thesis using other tag by (auto simp: branch)
  qed
qed

lemma validate_literal_iff:
  "json_ok v \<Longrightarrow> n \<le> 16384 \<Longrightarrow> k + d = 128 \<Longrightarrow>
     validate_itf_literal v d n p = Inr m \<longleftrightarrow> (\<exists>a. spoken k n m v a)"
proof (induction k arbitrary: v d n m)
  case 0
  then show ?case by (subst validate_itf_literal.simps) (simp add: spoken_def)
next
  case (Suc k)
  have IH: "json_ok v \<Longrightarrow> n \<le> 16384 \<Longrightarrow> validate_itf_literal v (Suc d) n p = Inr m \<longleftrightarrow> (\<exists>a. spoken k n m v a)"
    for v n m
    using Suc(1) [of v n "Suc d" m] Suc(4) by simp
  have d: "d < 128" using Suc(4) by simp
  consider (full) "n = 16384" | (untagged) "json_str (jfield v ''kind'') = None"
    | (tagged) kind where "n < 16384" "jfield v ''kind'' = JString kind"
    using Suc(3) by (cases "json_str (jfield v ''kind'')"; cases "n = 16384") auto
  then show ?case
  proof cases
    case full
    then have "\<not> spoken (Suc k) n m v a" for a using literal_nodes_pos [of a] by (simp add: spoken_def)
    then show ?thesis using full d by (subst validate_itf_literal.simps) (simp add: Let_def)
  next
    case untagged
    then have "\<not> spoken (Suc k) n m v a" for a by (auto simp: spoken_def literal_kind)
    then show ?thesis using untagged d by (subst validate_itf_literal.simps) (simp add: Let_def)
  next
    case tagged
    then show ?thesis using literal_kinds [OF IH Suc(2) d] by blast
  qed
qed

text \<open>
  C34. The validator of trace literals accepts exactly a grammar: a JSON value passes when and only
  when it is the encoding of a literal whose integers are canonical decimals and whose strings and
  names have at most 256 bytes, nested at most 128 deep; and every node of it counts against the
  limit of 16384.
\<close>

theorem literals_accepted:
  assumes "json_ok v" and "n \<le> 16384"
  shows "validate_itf_literal v 0 n path = Inr m \<longleftrightarrow>
    (\<exists>a. v = literal_json a \<and> literal_ok a \<and> literal_within 128 a \<and> m = n + literal_nodes a \<and> m \<le> 16384)"
  using validate_literal_iff [OF assms, of 128 0 path m] by (auto simp: spoken_def)

definition sample_literal :: itf_literal where
  "sample_literal = LMap [(LInt ''-12'', LSet [LStr ''a'', LNull]), (LTuple [], LRecord [(''x'', LBool True)])]"

theorem literals_accepted_witness:
  "validate_itf_literal (literal_json sample_literal) 0 7 contract_path = Inr 15"
proof -
  have ok: "json_ok (literal_json sample_literal)" "literal_ok sample_literal" "literal_nodes sample_literal = 8"
    by code_simp+
  moreover have "literal_within 128 sample_literal" by (simp add: sample_literal_def eval_nat_numeral)
  ultimately have "\<exists>a. literal_json sample_literal = literal_json a \<and> literal_ok a \<and> literal_within 128 a
      \<and> (15 :: nat) = 7 + literal_nodes a \<and> (15 :: nat) \<le> 16384" by (intro exI [of _ sample_literal]) simp
  then show ?thesis using literals_accepted [of "literal_json sample_literal" 7 contract_path 15] ok(1) by simp
qed

end
