(* ===== verification/Negotiation.thy ===== *)
theory Negotiation
  imports Trace_Literals
begin

text \<open>
  \<^verbatim>\<open>src/model_interface.rs\<close>, the negotiation: the request a client embeds in its registration,
  the decision on the mirror's reply, and the session that follows.  The compiled adapters are
  functions on a state of their own, the application's, and any of them may panic.
\<close>

section \<open>Requests\<close>

record generated_model_interface =
  semantic_digest :: string
  contract_json :: string

datatype negotiation_policy = Require | Prefer

datatype interface_status = Matched | Resolved | NotModified | Mismatch | Unsupported | Unavailable | TooLarge

record verify_request =
  rq_policy :: negotiation_policy
  expected_digest :: semantic_digest
  rq_contract :: json

definition strict_limits :: limits where
  "strict_limits = \<lparr>max_bytes = max_protocol_line_bytes, max_depth = 128, max_nodes = 16384,
     reject_duplicate_keys = True\<rparr>"

definition strict_parse :: "wire \<Rightarrow> string \<Rightarrow> negotiated_error + json" where
  "strict_parse w s =
     (case parse (w_strtok w) s strict_limits of
        Inl e \<Rightarrow> Inl (ModelInterface ''negotiation_status_unexpected'' (MiJson e))
      | Inr j \<Rightarrow> Inr j)"

definition make_verify_request ::
    "wire \<Rightarrow> generated_model_interface \<Rightarrow> negotiation_policy \<Rightarrow> negotiated_error + verify_request" where
  "make_verify_request w metadata policy =
     try_ok (from_hex (semantic_digest metadata)) (\<lambda>expected.
     try_ok (strict_parse w (contract_json metadata)) (\<lambda>contract.
     try_ok (validate_contract contract) (\<lambda>_.
       Inr \<lparr>rq_policy = policy, expected_digest = expected, rq_contract = contract\<rparr>)))"

definition request_json :: "verify_request \<Rightarrow> json" where
  "request_json r = json_obj
     [(''schema'', JString negotiation_schema), (''request'', JString ''verify''),
      (''policy'', JString (if rq_policy r = Require then ''require'' else ''prefer'')),
      (''acceptDescriptorSchemas'', JArray [JString descriptor_schema_name]),
      (''expectedSemanticDigest'', JString (to_wire (expected_digest r))),
      (''contract'', json_obj [(''inline'', rq_contract r)])]"

text \<open>A failure of a negotiated session, or a panic that nothing has caught.\<close>

datatype session_failure = Failed negotiated_error | Unwinding

text \<open>
  The message is written out and read back as a tree (\<open>reader\<close>), gains the request, and is
  written again.
\<close>

definition encode_registration ::
    "wire \<Rightarrow> (string \<Rightarrow> string + json) \<Rightarrow> client_message \<Rightarrow> verify_request \<Rightarrow> session_failure + string" where
  "encode_registration w reader registration request =
     (case reader (encode_message w registration) of
        Inl e \<Rightarrow> Inl (Failed (Legacy (EJson e)))
      | Inr (JObject outer) \<Rightarrow>
          (let encoded = w_render w (JObject (bt_insert ''modelInterface'' (request_json request) outer))
           in if length encoded > max_protocol_line_bytes then
                Inl (Failed (mi_error ''negotiation_status_unexpected''
                  ''model-interface registration exceeds 65535 bytes''))
              else Inr encoded)
      | Inr _ \<Rightarrow> Inl Unwinding)"

section \<open>The reply\<close>

definition decode_status :: "string \<Rightarrow> negotiated_error + interface_status" where
  "decode_status value =
     (if value = ''matched'' then Inr Matched
      else if value = ''resolved'' then Inr Resolved
      else if value = ''not_modified'' then Inr NotModified
      else if value = ''mismatch'' then Inr Mismatch
      else if value = ''unsupported'' then Inr Unsupported
      else if value = ''unavailable'' then Inr Unavailable
      else if value = ''too_large'' then Inr TooLarge
      else unexpected (''unknown model-interface status: '' @ value))"

definition optional_digest :: "json \<Rightarrow> string \<Rightarrow> negotiated_error + semantic_digest option" where
  "optional_digest j key =
     (case jfield j key of
        JNull \<Rightarrow> Inr None
      | JString value \<Rightarrow> try_ok (parse_wire value) (\<lambda>d. Inr (Some d))
      | _ \<Rightarrow> Inl (mi_error ''descriptor_digest_invalid'' (''modelInterface.'' @ key @ '': string expected'')))"

definition optional_short_string :: "json \<Rightarrow> string \<Rightarrow> negotiated_error + string option" where
  "optional_short_string j key =
     (if jfield j key = JNull then Inr None
      else try_ok (short_string (jfield j key) (''modelInterface.'' @ key)) (\<lambda>s. Inr (Some s)))"

definition optional_nonnegative_integer :: "json \<Rightarrow> string \<Rightarrow> negotiated_error + bool" where
  "optional_nonnegative_integer j key =
     (case jfield j key of
        JNull \<Rightarrow> Inr False
      | JNumber s \<Rightarrow>
          if all_digits s then Inr True
          else unexpected (''modelInterface.'' @ key @ '': nonnegative integer expected'')
      | _ \<Rightarrow> unexpected (''modelInterface.'' @ key @ '': nonnegative integer expected''))"

datatype authorization = AMatched semantic_digest string | AFallback

datatype registration_answer =
    RegisterError string | SpecValid | SpecInvalid string | ProtocolError string | OtherReply string

definition reply_field :: "json \<Rightarrow> string \<Rightarrow> negotiated_error + string" where
  "reply_field outer name =
     (case json_str (jfield outer name) of
        Some s \<Rightarrow> Inr s
      | None \<Rightarrow> unexpected (''registration reply '' @ name @ '' must be a string''))"

definition registration_reply :: "json \<Rightarrow> negotiated_error + registration_answer" where
  "registration_reply outer =
     (case json_str (jfield outer ''proto_step'') of
        None \<Rightarrow> unexpected ''registration reply proto_step must be a string''
      | Some step \<Rightarrow>
          if step = ''register_error'' then try_ok (reply_field outer ''error'') (\<lambda>e. Inr (RegisterError e))
          else if step = ''protocol_error'' then try_ok (reply_field outer ''error'') (\<lambda>e. Inr (ProtocolError e))
          else if step = ''spec_validated'' then
            (case jfield outer ''result'' of
               JString s \<Rightarrow> if s = ''valid'' then Inr SpecValid else unexpected ''spec result has an invalid shape''
             | JObject m \<Rightarrow>
                 (case json_str (jfield (JObject m) ''invalid'') of
                    Some detail \<Rightarrow> Inr (SpecInvalid detail)
                  | None \<Rightarrow> unexpected ''invalid spec result must contain a string'')
             | _ \<Rightarrow> unexpected ''spec result has an invalid shape'')
          else Inr (OtherReply step))"

text \<open>A registration error: \<open>Inl\<close> always, with the reason the extension gives if it is in order.\<close>

definition registration_failure :: "verify_request \<Rightarrow> json \<Rightarrow> string \<Rightarrow> negotiated_error" where
  "registration_failure request extension message =
     (if extension = JNull then Legacy (ERegisterFailed message)
      else
        (case
           (try_ok (object_fields extension ''modelInterface''
              [''schema'', ''status'', ''code'', ''expectedSemanticDigest'', ''actualSemanticDigest'',
               ''provenanceDigest'', ''descriptorBytes''] [''schema'', ''status'', ''code'']) (\<lambda>_.
            if jfield extension ''schema'' \<noteq> JString negotiation_schema then
              unexpected ''unsupported model-interface failure schema''
            else
              try_ok (short_string (jfield extension ''status'') ''modelInterface.status'') (\<lambda>s.
              try_ok (decode_status s) (\<lambda>failure_status.
              if failure_status \<notin> {Mismatch, Unsupported, Unavailable} then
                unexpected ''unexpected status on verify register_error''
              else
                try_ok (short_string (jfield extension ''code'') ''modelInterface.code'') (\<lambda>code.
                if code = [] then unexpected ''model-interface failure code is empty''
                else
                  try_ok (optional_digest extension ''expectedSemanticDigest'') (\<lambda>expected.
                  try_ok (optional_digest extension ''actualSemanticDigest'') (\<lambda>_.
                  try_ok (optional_digest extension ''provenanceDigest'') (\<lambda>_.
                  try_ok (optional_nonnegative_integer extension ''descriptorBytes'') (\<lambda>has_descriptor_bytes.
                  if expected \<noteq> None \<and> expected \<noteq> Some (expected_digest request) then
                    Inl (mi_error ''interface_digest_mismatch''
                      ''failure expectedSemanticDigest does not match the request pin'')
                  else if failure_status = Mismatch \<and> expected = None then
                    unexpected ''mismatch failure lacks expectedSemanticDigest''
                  else if has_descriptor_bytes then
                    unexpected ''descriptorBytes is forbidden on a verify registration failure''
                  else Inr code))))))))) of
           Inl e \<Rightarrow> e
         | Inr code \<Rightarrow> Registration code message))"

text \<open>What a positive validation that carries an extension authorises, by its status.\<close>

definition decide_status ::
    "verify_request \<Rightarrow> bool \<Rightarrow> interface_status \<Rightarrow> string option \<Rightarrow> semantic_digest option
       \<Rightarrow> semantic_digest option \<Rightarrow> bool \<Rightarrow> bool \<Rightarrow> negotiated_error + authorization" where
  "decide_status request fallback st descriptor_schema digest provenance has_descriptor_bytes has_descriptor =
     (case st of
        Matched \<Rightarrow>
          (case (descriptor_schema, digest) of
             (None, _) \<Rightarrow> unexpected ''matched reply lacks descriptorSchema''
           | (Some _, None) \<Rightarrow> unexpected ''matched reply lacks semanticDigest''
           | (Some descriptor, Some d) \<Rightarrow>
               if descriptor \<noteq> descriptor_schema_name \<or> d \<noteq> expected_digest request
                   \<or> has_descriptor \<or> has_descriptor_bytes then
                 Inl (mi_error ''interface_digest_mismatch''
                   ''invalid or mismatched compiled model-interface reply'')
               else Inr (AMatched d descriptor))
      | TooLarge \<Rightarrow> unexpected ''too_large is invalid for compiled verification''
      | Mismatch \<Rightarrow>
          if has_descriptor \<or> has_descriptor_bytes then
            unexpected ''descriptor payload is forbidden for mismatch''
          else Inl (mi_error ''interface_digest_mismatch'' ''model-interface digest mismatch'')
      | Resolved \<Rightarrow> unexpected ''descriptor status is invalid for compiled verification''
      | NotModified \<Rightarrow> unexpected ''descriptor status is invalid for compiled verification''
      | _ \<Rightarrow>
          if descriptor_schema \<noteq> None \<or> digest \<noteq> None \<or> provenance \<noteq> None \<or> has_descriptor_bytes
              \<or> has_descriptor then
            unexpected ''descriptor identity fields are forbidden when resolution is unavailable''
          else if rq_policy request = Prefer \<and> fallback then Inr AFallback
          else unexpected ''model-interface fallback status is not permitted'')"

definition decide_reply :: "verify_request \<Rightarrow> bool \<Rightarrow> json \<Rightarrow> negotiated_error + authorization" where
  "decide_reply request fallback extension =
     try_ok (object_fields extension ''modelInterface''
       [''schema'', ''status'', ''descriptorSchema'', ''semanticDigest'', ''provenanceDigest'', ''descriptorBytes'',
        ''descriptor''] [''schema'', ''status'']) (\<lambda>_.
     if jfield extension ''schema'' \<noteq> JString negotiation_schema then
       unexpected ''unsupported model-interface negotiation schema''
     else
       try_ok (optional_short_string extension ''descriptorSchema'') (\<lambda>descriptor_schema.
       try_ok (optional_digest extension ''semanticDigest'') (\<lambda>digest.
       try_ok (optional_digest extension ''provenanceDigest'') (\<lambda>provenance.
       try_ok (optional_nonnegative_integer extension ''descriptorBytes'') (\<lambda>has_descriptor_bytes.
       try_ok (short_string (jfield extension ''status'') ''modelInterface.status'') (\<lambda>s.
       try_ok (decode_status s) (\<lambda>st.
         decide_status request fallback st descriptor_schema digest provenance has_descriptor_bytes
           (jfield extension ''descriptor'' \<noteq> JNull))))))))"

definition decode_authorization ::
    "wire \<Rightarrow> string \<Rightarrow> verify_request \<Rightarrow> bool \<Rightarrow> negotiated_error + authorization" where
  "decode_authorization w line request fallback =
     try_ok (strict_parse w line) (\<lambda>outer.
     if as_object outer = None then unexpected ''mirror registration reply must be an object''
     else
       try_ok (registration_reply outer) (\<lambda>message.
       (let extension = jfield outer ''modelInterface'' in
        case message of
          RegisterError e \<Rightarrow> Inl (registration_failure request extension e)
        | SpecInvalid detail \<Rightarrow> Inl (Legacy (ESpecInvalid detail))
        | ProtocolError e \<Rightarrow> Inl (Legacy (EProtocolError (PeerText e)))
        | OtherReply other \<Rightarrow> unexpected (''expected registration result, got '' @ other)
        | SpecValid \<Rightarrow>
            if extension = JNull then
              (if rq_policy request = Prefer \<and> fallback then Inr AFallback
               else Inl (mi_error
                 (if rq_policy request = Prefer then ''legacy_fallback_unavailable'' else ''negotiation_missing'')
                 ''model-interface negotiation reply is missing''))
            else decide_reply request fallback extension)))"

section \<open>Adapters\<close>

text \<open>A call into the application either returns or unwinds.\<close>

datatype 'a called = Returned 'a | Unwound

record matched_context =
  mc_digest :: semantic_digest
  mc_descriptor_schema :: string
  mc_config :: apalache_config

record 'c local_binding =
  lb_digest :: semantic_digest
  lb_compute :: "'c \<Rightarrow> string \<Rightarrow> state \<Rightarrow> state \<Rightarrow> (binding_error + state) called \<times> 'c"
  lb_check :: "'c \<Rightarrow> apalache_config \<Rightarrow> (binding_error + unit) called \<times> 'c"
  lb_dispose :: "'c \<Rightarrow> (binding_error + unit) called \<times> 'c"

type_synonym 'c adapter_factory = "'c \<Rightarrow> matched_context \<Rightarrow> (binding_error + 'c local_binding) called \<times> 'c"

type_synonym 'c fallback_factory = "'c \<Rightarrow> apalache_config \<Rightarrow> (binding_error + 'c local_binding) called \<times> 'c"

record 'c adapter_selection =
  sel_metadata :: generated_model_interface
  sel_adapter_id :: string
  sel_target_profile :: string
  sel_version :: string
  sel_registry :: "'c adapter_factory adapter_registration list"
  sel_policy :: negotiation_policy
  sel_fallback :: "'c fallback_factory option"

definition adapter_dispose :: "'c local_binding \<Rightarrow> 'c \<Rightarrow> (negotiated_error + unit) \<times> 'c" where
  "adapter_dispose b c =
     (case lb_dispose b c of
        (Unwound, c') \<Rightarrow> (Inl (mi_error ''adapter_dispose_failed'' ''binding disposal panicked''), c')
      | (Returned (Inl e), c') \<Rightarrow> (Inl (mi_error ''adapter_dispose_failed'' (binding_error_text e)), c')
      | (Returned (Inr _), c') \<Rightarrow> (Inr (), c'))"

definition selection_key :: "'c adapter_selection \<Rightarrow> verify_request \<Rightarrow> compiled_adapter_key" where
  "selection_key sel request =
     \<lparr>key_digest = expected_digest request, adapter_id = sel_adapter_id sel,
      target_profile = sel_target_profile sel, contract_version = sel_version sel\<rparr>"

section \<open>The session\<close>

text \<open>The authorised factory makes the binding; without a fallback factory, asking for it panics.\<close>

definition create_binding ::
    "'c adapter_selection \<Rightarrow> nat \<Rightarrow> apalache_config \<Rightarrow> authorization \<Rightarrow> 'c
       \<Rightarrow> (negotiated_error + 'c local_binding) \<times> 'c" where
  "create_binding sel index config authority c =
     (case
        (case authority of
           AMatched d s \<Rightarrow>
             reg_factory (sel_registry sel ! index) c
               \<lparr>mc_digest = d, mc_descriptor_schema = s, mc_config = config\<rparr>
         | AFallback \<Rightarrow> (case sel_fallback sel of Some f \<Rightarrow> f c config | None \<Rightarrow> (Unwound, c))) of
        (Unwound, c') \<Rightarrow> (Inl (mi_error ''adapter_factory_failed'' ''adapter factory panicked''), c')
      | (Returned (Inl e), c') \<Rightarrow> (Inl (mi_error ''adapter_factory_failed'' (binding_error_text e)), c')
      | (Returned (Inr b), c') \<Rightarrow> (Inr b, c'))"

definition compute_step ::
    "'c local_binding \<Rightarrow> 'c \<Rightarrow> string \<Rightarrow> state \<Rightarrow> state \<Rightarrow> (session_failure + state) \<times> 'c" where
  "compute_step b c action params prev =
     (case lb_compute b c action params prev of
        (Unwound, c') \<Rightarrow> (Inl Unwinding, c')
      | (Returned (Inl e), c') \<Rightarrow> (Inl (Failed (mi_error (be_code e) (be_message e))), c')
      | (Returned (Inr s), c') \<Rightarrow> (Inr s, c'))"

text \<open>What the session does with a binding, a panic caught at its end.\<close>

definition catch_unwind :: "(session_failure + unit) \<Rightarrow> negotiated_error + unit" where
  "catch_unwind r =
     (case r of
        Inl Unwinding \<Rightarrow> Inl (mi_error ''adapter_failure'' ''binding callback panicked'')
      | Inl (Failed e) \<Rightarrow> Inl e
      | Inr u \<Rightarrow> Inr u)"

definition use_binding ::
    "wire \<Rightarrow> compiled_adapter_key \<Rightarrow> apalache_config \<Rightarrow> 'c local_binding \<Rightarrow> 'c \<Rightarrow> transport
       \<Rightarrow> (negotiated_error + unit) \<times> 'c \<times> transport" where
  "use_binding w key config b c t =
     (if lb_digest b \<noteq> key_digest key then
        (Inl (mi_error ''binding_digest_mismatch'' ''binding digest does not match adapter key''), c, t)
      else
        (case lb_check b c config of
           (Unwound, c1) \<Rightarrow> (catch_unwind (Inl Unwinding), c1, t)
         | (Returned (Inl e), c1) \<Rightarrow> (Inl (mi_error ''binding_config_mismatch'' (binding_error_text e)), c1, t)
         | (Returned (Inr _), c1) \<Rightarrow>
             (case run_stepping_loop w (\<lambda>e. Failed (Legacy e)) (compute_step b) initial_stepping c1 t of
                (r, c2, t2) \<Rightarrow> (catch_unwind r, c2, t2))))"

definition first_error :: "'e + unit \<Rightarrow> 'e + unit \<Rightarrow> 'e + unit" where
  "first_error primary cleanup = (case primary of Inl e \<Rightarrow> Inl e | Inr _ \<Rightarrow> cleanup)"

definition use_and_dispose ::
    "wire \<Rightarrow> compiled_adapter_key \<Rightarrow> apalache_config \<Rightarrow> 'c local_binding \<Rightarrow> 'c \<Rightarrow> transport
       \<Rightarrow> (session_failure + unit) \<times> 'c \<times> transport" where
  "use_and_dispose w key config b c t =
     (case use_binding w key config b c t of
        (primary, c1, t1) \<Rightarrow>
          (case adapter_dispose b c1 of
             (cleanup, c2) \<Rightarrow>
               (case first_error primary cleanup of
                  Inl e \<Rightarrow> (Inl (Failed e), c2, t1) | Inr u \<Rightarrow> (Inr u, c2, t1))))"

text \<open>From the reply on.\<close>

definition run_authorized ::
    "wire \<Rightarrow> apalache_config \<Rightarrow> 'c adapter_selection \<Rightarrow> verify_request \<Rightarrow> nat \<Rightarrow> 'c \<Rightarrow> transport
       \<Rightarrow> (session_failure + unit) \<times> 'c \<times> transport" where
  "run_authorized w config sel request index c t =
     (case transport_recv t of
        (Inl e, t1) \<Rightarrow> (Inl (Failed (Legacy e)), c, t1)
      | (Inr None, t1) \<Rightarrow> (Inl (Failed (Legacy ETransportClosed)), c, t1)
      | (Inr (Some line), t1) \<Rightarrow>
          (case decode_authorization w line request (sel_fallback sel \<noteq> None) of
             Inl e \<Rightarrow> (Inl (Failed e), c, t1)
           | Inr authority \<Rightarrow>
               (case create_binding sel index config authority c of
                  (Inl e, c1) \<Rightarrow> (Inl (Failed e), c1, t1)
                | (Inr b, c1) \<Rightarrow> use_and_dispose w (selection_key sel request) config b c1 t1)))"

definition prepare ::
    "wire \<Rightarrow> 'c adapter_selection \<Rightarrow> negotiated_error + verify_request \<times> nat" where
  "prepare w sel =
     try_ok (make_verify_request w (sel_metadata sel) (sel_policy sel)) (\<lambda>request.
     if sel_version sel \<noteq> state_computer_version then
       Inl (mi_error ''state_computer_contract_mismatch'' ''negotiated runner requires mirrors.state-computer/v1'')
     else
       try_ok (resolve_index (sel_registry sel) (selection_key sel request)) (\<lambda>index. Inr (request, index)))"

definition run_negotiated_open ::
    "wire \<Rightarrow> (string \<Rightarrow> string + json) \<Rightarrow> apalache_config \<Rightarrow> client_message \<Rightarrow> 'c adapter_selection \<Rightarrow> 'c \<Rightarrow> transport
       \<Rightarrow> (session_failure + unit) \<times> 'c \<times> transport" where
  "run_negotiated_open w reader config registration sel c t =
     (case prepare w sel of
        Inl e \<Rightarrow> (Inl (Failed e), c, t)
      | Inr (request, index) \<Rightarrow>
          (case encode_registration w reader registration request of
             Inl e \<Rightarrow> (Inl e, c, t)
           | Inr encoded \<Rightarrow>
               (case send t encoded of
                  (Inl e, t1) \<Rightarrow> (Inl (Failed (Legacy e)), c, t1)
                | (Inr _, t1) \<Rightarrow> run_authorized w config sel request index c t1)))"

text \<open>The transport is closed, and dropped at the end of the scope; a panic only drops it.\<close>

definition run_negotiated ::
    "wire \<Rightarrow> (string \<Rightarrow> string + json) \<Rightarrow> apalache_config \<Rightarrow> client_message \<Rightarrow> 'c adapter_selection \<Rightarrow> 'c \<Rightarrow> transport
       \<Rightarrow> (session_failure + unit) \<times> 'c \<times> transport" where
  "run_negotiated w reader config registration sel c t =
     (case run_negotiated_open w reader config registration sel c t of
        (Inl Unwinding, c1, t1) \<Rightarrow> (Inl Unwinding, c1, drop_transport t1)
      | (primary, c1, t1) \<Rightarrow>
          (case close t1 of
             (closed, t2) \<Rightarrow>
               (first_error primary (case closed of Inl e \<Rightarrow> Inl (Failed (Legacy e)) | Inr _ \<Rightarrow> Inr ()), c1,
                drop_transport t2)))"

definition run_client_with_traces_negotiated_transport ::
    "wire \<Rightarrow> (string \<Rightarrow> string + json) \<Rightarrow> transport \<Rightarrow> apalache_config \<Rightarrow> string list \<Rightarrow> 'c adapter_selection \<Rightarrow> 'c
       \<Rightarrow> (session_failure + unit) \<times> 'c \<times> transport" where
  "run_client_with_traces_negotiated_transport w reader t config trace_paths sel c =
     run_negotiated w reader config (RegisterTraces config trace_paths) sel c t"

definition run_client_negotiated_transport ::
    "wire \<Rightarrow> (string \<Rightarrow> string + json) \<Rightarrow> transport \<Rightarrow> apalache_config \<Rightarrow> trace_generation_config
       \<Rightarrow> 'c adapter_selection \<Rightarrow> apalache_spec option \<Rightarrow> 'c
       \<Rightarrow> (session_failure + unit) \<times> 'c \<times> transport" where
  "run_client_negotiated_transport w reader t config trace_config sel spec c =
     run_negotiated w reader config (Register config trace_config spec) sel c t"

definition run_client_with_traces_negotiated ::
    "wire \<Rightarrow> (string \<Rightarrow> string + json) \<Rightarrow> spawner \<Rightarrow> string \<Rightarrow> apalache_config \<Rightarrow> string list \<Rightarrow> 'c adapter_selection
       \<Rightarrow> 'c \<Rightarrow> (session_failure + unit) \<times> 'c \<times> transport option" where
  "run_client_with_traces_negotiated w reader spawn bin config trace_paths sel c =
     (case spawn_mirror spawn bin of
        Inl e \<Rightarrow> (Inl (Failed (Legacy e)), c, None)
      | Inr t \<Rightarrow>
          (case run_client_with_traces_negotiated_transport w reader t config trace_paths sel c of
             (r, c', t') \<Rightarrow> (r, c', Some t')))"

definition run_client_negotiated ::
    "wire \<Rightarrow> (string \<Rightarrow> string + json) \<Rightarrow> spawner \<Rightarrow> string \<Rightarrow> apalache_config \<Rightarrow> trace_generation_config
       \<Rightarrow> 'c adapter_selection \<Rightarrow> apalache_spec option \<Rightarrow> 'c
       \<Rightarrow> (session_failure + unit) \<times> 'c \<times> transport option" where
  "run_client_negotiated w reader spawn bin config trace_config sel spec c =
     (case spawn_mirror spawn bin of
        Inl e \<Rightarrow> (Inl (Failed (Legacy e)), c, None)
      | Inr t \<Rightarrow>
          (case run_client_negotiated_transport w reader t config trace_config sel spec c of
             (r, c', t') \<Rightarrow> (r, c', Some t')))"

end
