(* ===== verification/Negotiation_Theorems.thy ===== *)
theory Negotiation_Theorems
  imports Negotiation
begin

text \<open>
  What authorises a negotiated session, what happens to the adapter in it, and that it is the replay
  of an ordinary session once it is authorised.
\<close>

section \<open>Authorisation\<close>

text \<open>A reply that accepts the registration, and the extension it may carry.\<close>

definition accepting :: "json \<Rightarrow> bool" where
  "accepting outer \<longleftrightarrow>
     (\<exists>m. outer = JObject m) \<and> jfield outer ''proto_step'' = JString ''spec_validated''
     \<and> jfield outer ''result'' = JString ''valid''"

definition extension_with :: "json \<Rightarrow> string \<Rightarrow> bool" where
  "extension_with e s \<longleftrightarrow>
     (\<exists>m. e = JObject m \<and> fst ` set m \<subseteq> {''schema'', ''status'', ''descriptorSchema'', ''semanticDigest'',
        ''provenanceDigest'', ''descriptorBytes'', ''descriptor''})
     \<and> jfield e ''schema'' = JString negotiation_schema \<and> jfield e ''status'' = JString s"

definition digest_or_null :: "json \<Rightarrow> bool" where
  "digest_or_null j \<longleftrightarrow> j = JNull \<or> (\<exists>d. length d = 32 \<and> j = JString (to_wire d))"

definition carries_no_descriptor :: "json \<Rightarrow> bool" where
  "carries_no_descriptor e \<longleftrightarrow> jfield e ''descriptor'' = JNull \<and> jfield e ''descriptorBytes'' = JNull"

lemma optional_digest_Inr:
  "optional_digest e k = Inr x \<longleftrightarrow>
     (case x of None \<Rightarrow> jfield e k = JNull | Some d \<Rightarrow> length d = 32 \<and> jfield e k = JString (to_wire d))"
  by (cases "jfield e k"; cases x) (auto simp: optional_digest_def parse_wire_Inr split: option.split)

lemma digest_or_null_read:
  assumes "digest_or_null (jfield e k)"
  obtains pv where "optional_digest e k = Inr pv"
proof (cases "jfield e k = JNull")
  case True
  then show thesis by (intro that [of None]) (simp add: optional_digest_Inr)
next
  case False
  then obtain d where "length d = 32" "jfield e k = JString (to_wire d)"
    using assms by (auto simp: digest_or_null_def)
  then show thesis by (intro that [of "Some d"]) (simp add: optional_digest_Inr)
qed

lemma optional_short_string_Inr:
  "optional_short_string e k = Inr x \<longleftrightarrow>
     (case x of None \<Rightarrow> jfield e k = JNull | Some s \<Rightarrow> length s \<le> 256 \<and> jfield e k = JString s)"
  by (cases x) (auto simp: optional_short_string_def)

lemma optional_integer_False:
  "optional_nonnegative_integer e k = Inr False \<longleftrightarrow> jfield e k = JNull"
  by (cases "jfield e k") (auto simp: optional_nonnegative_integer_def)

lemma decode_status_Inr:
  "decode_status s = Inr Matched \<longleftrightarrow> s = ''matched''"
  "decode_status s = Inr Unsupported \<longleftrightarrow> s = ''unsupported''"
  "decode_status s = Inr Unavailable \<longleftrightarrow> s = ''unavailable''"
  by (auto simp: decode_status_def)

lemma extension_fields:
  "object_fields e p [''schema'', ''status'', ''descriptorSchema'', ''semanticDigest'', ''provenanceDigest'',
      ''descriptorBytes'', ''descriptor''] [''schema'', ''status''] = Inr m
    \<and> jfield e ''schema'' = JString negotiation_schema \<and> jfield e ''status'' = JString s
   \<longleftrightarrow> e = JObject m \<and> extension_with e s"
proof -
  have "jfield (JObject m) k = JString x \<Longrightarrow> k \<in> fst ` set m" for k x
    using map_of_eq_None_iff [of m k] by (auto split: option.splits)
  then show ?thesis by (auto simp: object_fields_Inr extension_with_def)
qed

lemma decide_status_matched:
  "decide_status request fallback st ds dg pv hb dr = Inr (AMatched d s) \<longleftrightarrow>
     st = Matched \<and> ds = Some s \<and> dg = Some d \<and> s = descriptor_schema_name \<and> d = expected_digest request
     \<and> \<not> hb \<and> \<not> dr"
  by (cases st) (auto simp: decide_status_def split: option.split)

lemma decide_status_fallback:
  "decide_status request fallback st ds dg pv hb dr = Inr AFallback \<longleftrightarrow>
     st \<in> {Unsupported, Unavailable} \<and> ds = None \<and> dg = None \<and> pv = None \<and> \<not> hb \<and> \<not> dr
     \<and> rq_policy request = Prefer \<and> fallback"
  by (cases st) (auto simp: decide_status_def split: option.split)

lemma decide_reply_Inr:
  "decide_reply request fallback e = Inr a \<longleftrightarrow>
     (\<exists>s ds dg pv hb st. extension_with e s \<and> length s \<le> 256 \<and> decode_status s = Inr st
        \<and> optional_short_string e ''descriptorSchema'' = Inr ds \<and> optional_digest e ''semanticDigest'' = Inr dg
        \<and> optional_digest e ''provenanceDigest'' = Inr pv \<and> optional_nonnegative_integer e ''descriptorBytes'' = Inr hb
        \<and> decide_status request fallback st ds dg pv hb (jfield e ''descriptor'' \<noteq> JNull) = Inr a)"
proof -
  have x: "extension_with e s \<longleftrightarrow> (\<exists>m. object_fields e ''modelInterface'' [''schema'', ''status'', ''descriptorSchema'',
      ''semanticDigest'', ''provenanceDigest'', ''descriptorBytes'', ''descriptor''] [''schema'', ''status''] = Inr m)
      \<and> jfield e ''schema'' = JString negotiation_schema \<and> jfield e ''status'' = JString s" for s
    using extension_fields [of e "''modelInterface''" _ s] by (auto simp: extension_with_def)
  have ite: "(if P then unexpected z else y) = Inr a \<longleftrightarrow> \<not> P \<and> y = Inr a" for P z and y :: "negotiated_error + authorization"
    by simp
  show ?thesis unfolding decide_reply_def x try_ok_Inr ite not_not short_string_Inr by blast
qed

text \<open>The extension that matches a digest, and the one that declines to negotiate.\<close>

definition matching_extension :: "semantic_digest \<Rightarrow> json \<Rightarrow> bool" where
  "matching_extension d e \<longleftrightarrow>
     extension_with e ''matched'' \<and> jfield e ''descriptorSchema'' = JString descriptor_schema_name
     \<and> length d = 32 \<and> jfield e ''semanticDigest'' = JString (to_wire d)
     \<and> digest_or_null (jfield e ''provenanceDigest'') \<and> carries_no_descriptor e"

definition declining_extension :: "json \<Rightarrow> bool" where
  "declining_extension e \<longleftrightarrow>
     (extension_with e ''unsupported'' \<or> extension_with e ''unavailable'')
     \<and> jfield e ''descriptorSchema'' = JNull \<and> jfield e ''semanticDigest'' = JNull
     \<and> jfield e ''provenanceDigest'' = JNull \<and> carries_no_descriptor e"

lemma decide_reply_matched:
  "decide_reply request fallback e = Inr (AMatched d s) \<longleftrightarrow>
     s = descriptor_schema_name \<and> d = expected_digest request \<and> matching_extension d e" (is "?L \<longleftrightarrow> ?R")
proof
  assume ?L
  then obtain x pv where m: "extension_with e x" "decode_status x = Inr Matched"
    "optional_short_string e ''descriptorSchema'' = Inr (Some s)" "optional_digest e ''semanticDigest'' = Inr (Some d)"
    "optional_digest e ''provenanceDigest'' = Inr pv" "optional_nonnegative_integer e ''descriptorBytes'' = Inr False"
    "jfield e ''descriptor'' = JNull" "s = descriptor_schema_name" "d = expected_digest request"
    unfolding decide_reply_Inr decide_status_matched by (elim exE conjE) (rule that, simp_all)
  have "extension_with e ''matched''" using m(1,2) by (simp only: decode_status_Inr)
  moreover have "digest_or_null (jfield e ''provenanceDigest'')"
    using m(5) by (cases pv) (auto simp: optional_digest_Inr digest_or_null_def)
  moreover have "jfield e ''descriptorSchema'' = JString descriptor_schema_name"
    using m(3,8) by (simp add: optional_short_string_Inr)
  moreover have "length d = 32 \<and> jfield e ''semanticDigest'' = JString (to_wire d)"
    using m(4) by (simp add: optional_digest_Inr)
  moreover have "carries_no_descriptor e" using m(6,7) by (simp add: optional_integer_False carries_no_descriptor_def)
  ultimately have "matching_extension d e" unfolding matching_extension_def by (elim conjE) (intro conjI)
  then show ?R using m(8,9) by simp
next
  assume R: ?R
  then have "digest_or_null (jfield e ''provenanceDigest'')" by (simp only: matching_extension_def)
  then obtain pv where "optional_digest e ''provenanceDigest'' = Inr pv" by (rule digest_or_null_read)
  moreover have "length descriptor_schema_name \<le> 256" by (simp add: descriptor_schema_name_def)
  ultimately show ?L using R
    unfolding decide_reply_Inr decide_status_matched matching_extension_def
    by (intro exI [of _ "''matched''"] exI [of _ "Some s"] exI [of _ "Some d"] exI [of _ pv] exI [of _ False]
        exI [of _ Matched])
      (auto simp: decode_status_Inr optional_short_string_Inr optional_digest_Inr optional_integer_False
        carries_no_descriptor_def)
qed

lemma decide_reply_fallback:
  "decide_reply request fallback e = Inr AFallback \<longleftrightarrow>
     rq_policy request = Prefer \<and> fallback \<and> declining_extension e" (is "?L \<longleftrightarrow> ?R")
proof
  assume ?L
  then show ?R
    by (auto simp: decide_reply_Inr decide_status_fallback decode_status_Inr optional_short_string_Inr
        optional_digest_Inr optional_integer_False carries_no_descriptor_def declining_extension_def)
next
  assume R: ?R
  have L: "?L" if "extension_with e s" "st \<in> {Unsupported, Unavailable}" "decode_status s = Inr st" "length s \<le> 256"
    for s st
    unfolding decide_reply_Inr decide_status_fallback using R that
    by (intro exI [of _ s] exI [of _ "None :: string option"] exI [of _ None] exI [of _ False] exI [of _ st])
      (auto simp: optional_short_string_Inr optional_digest_Inr optional_integer_False carries_no_descriptor_def
        declining_extension_def)
  have "?L" if "extension_with e ''unsupported''" using that by (rule L [of _ Unsupported]) (simp_all add: decode_status_Inr)
  moreover have "?L" if "extension_with e ''unavailable''"
    using that by (rule L [of _ Unavailable]) (simp_all add: decode_status_Inr)
  ultimately show ?L using R unfolding declining_extension_def by blast
qed

lemma registration_reply_valid:
  "registration_reply outer = Inr SpecValid \<longleftrightarrow>
     jfield outer ''proto_step'' = JString ''spec_validated'' \<and> jfield outer ''result'' = JString ''valid''"
proof (cases "json_str (jfield outer ''proto_step'')")
  case (Some step)
  then have step: "jfield outer ''proto_step'' = JString step" by simp
  show ?thesis
  proof (cases "step = ''spec_validated''")
    case True
    then show ?thesis using step
      by (cases "jfield outer ''result''") (auto simp: registration_reply_def split: option.split)
  qed (use step in \<open>auto simp: registration_reply_def\<close>)
qed (auto simp: registration_reply_def)

lemma decode_authorization_Inr:
  "decode_authorization w line request fallback = Inr a \<longleftrightarrow>
     (\<exists>outer. strict_parse w line = Inr outer \<and> accepting outer
        \<and> (if jfield outer ''modelInterface'' = JNull then a = AFallback \<and> rq_policy request = Prefer \<and> fallback
           else decide_reply request fallback (jfield outer ''modelInterface'') = Inr a))"
proof -
  have "(if as_object outer = None then unexpected ''mirror registration reply must be an object''
      else try_ok (registration_reply outer) (\<lambda>message.
        (let extension = jfield outer ''modelInterface'' in
        case message of
          RegisterError e \<Rightarrow> Inl (registration_failure request extension e)
        | SpecInvalid detail \<Rightarrow> Inl (Legacy (ESpecInvalid detail))
        | ProtocolError e \<Rightarrow> Inl (Legacy (EProtocolError (PeerText e)))
        | OtherReply other \<Rightarrow> unexpected (''expected registration result, got '' @ other)
        | SpecValid \<Rightarrow>
            if extension = JNull then
              (if rq_policy request = Prefer \<and> fallback then Inr AFallback
               else Inl (mi_error
                 (if rq_policy request = Prefer then ''legacy_fallback_unavailable'' else ''negotiation_missing'')
                 ''model-interface negotiation reply is missing''))
            else decide_reply request fallback extension))) = Inr a \<longleftrightarrow>
      accepting outer
        \<and> (if jfield outer ''modelInterface'' = JNull then a = AFallback \<and> rq_policy request = Prefer \<and> fallback
           else decide_reply request fallback (jfield outer ''modelInterface'') = Inr a)" for outer
  proof -
    have obj: "as_object outer = None \<longleftrightarrow> (\<nexists>m. outer = JObject m)" by (cases outer) auto
    have acc: "accepting outer \<longleftrightarrow> as_object outer \<noteq> None \<and> registration_reply outer = Inr SpecValid"
      unfolding accepting_def registration_reply_valid obj by simp
    show ?thesis unfolding acc Let_def
    proof (cases "registration_reply outer", goal_cases)
      case (2 r)
      then show ?case by (cases r; cases "as_object outer"; cases "jfield outer ''modelInterface'' = JNull") auto
    qed simp
  qed
  then show ?thesis unfolding decode_authorization_def try_ok_Inr by simp
qed

text \<open>
  C35. The authorisation fails closed: a compiled adapter is used only on a reply that parses strictly,
  accepts the registration, and says with exactly the known fields that the digest the client pinned is
  matched under the descriptor schema it offered; a legacy adapter is used only where the client
  prefers but does not require the match, has one, and the mirror does not negotiate at all or says
  that it cannot, without naming any descriptor.  Every other reply is an error.
\<close>

theorem authorization_fails_closed:
  "(decode_authorization w line request fallback = Inr (AMatched d s)) =
     (s = descriptor_schema_name \<and> d = expected_digest request
      \<and> (\<exists>outer. strict_parse w line = Inr outer \<and> accepting outer
           \<and> matching_extension d (jfield outer ''modelInterface'')))
   \<and> (decode_authorization w line request fallback = Inr AFallback) =
     (rq_policy request = Prefer \<and> fallback
      \<and> (\<exists>outer. strict_parse w line = Inr outer \<and> accepting outer
           \<and> (jfield outer ''modelInterface'' = JNull
              \<or> declining_extension (jfield outer ''modelInterface''))))"
proof -
  have null: "\<not> matching_extension d JNull" "\<not> declining_extension JNull"
    by (simp_all add: extension_with_def matching_extension_def declining_extension_def)
  have "(if e = JNull then AMatched d s = AFallback \<and> rq_policy request = Prefer \<and> fallback
         else decide_reply request fallback e = Inr (AMatched d s)) \<longleftrightarrow>
      s = descriptor_schema_name \<and> d = expected_digest request \<and> matching_extension d e" for e
    using null by (auto simp: decide_reply_matched)
  moreover have "(if e = JNull then AFallback = AFallback \<and> rq_policy request = Prefer \<and> fallback
         else decide_reply request fallback e = Inr AFallback) \<longleftrightarrow>
      rq_policy request = Prefer \<and> fallback \<and> (e = JNull \<or> declining_extension e)" for e
    using null by (auto simp: decide_reply_fallback)
  ultimately show ?thesis unfolding decode_authorization_Inr by auto
qed

section \<open>The life of an adapter\<close>

text \<open>
  An application that keeps a log of the calls into it and of whether each succeeded, and is otherwise
  the application it is made from.
\<close>

datatype adapter_event = EFactory bool | ECheck bool | ECompute bool | EDispose bool

type_synonym 'c with_log = "'c \<times> adapter_event list"

definition succeeded :: "('e + 'a) called \<Rightarrow> bool" where
  "succeeded r = (case r of Returned (Inr _) \<Rightarrow> True | _ \<Rightarrow> False)"

definition logged_call ::
    "(bool \<Rightarrow> adapter_event) \<Rightarrow> ('c \<Rightarrow> ('e + 'a) called \<times> 'c) \<Rightarrow> 'c with_log \<Rightarrow> ('e + 'a) called \<times> 'c with_log" where
  "logged_call ev f s = (case f (fst s) of (r, c') \<Rightarrow> (r, (c', snd s @ [ev (succeeded r)])))"

definition logged_binding :: "'c local_binding \<Rightarrow> 'c with_log local_binding" where
  "logged_binding b =
     \<lparr>lb_digest = lb_digest b,
      lb_compute = (\<lambda>s action params prev. logged_call ECompute (\<lambda>c. lb_compute b c action params prev) s),
      lb_check = (\<lambda>s config. logged_call ECheck (\<lambda>c. lb_check b c config) s),
      lb_dispose = logged_call EDispose (lb_dispose b)\<rparr>"

definition logged_result :: "('e + 'c local_binding) called \<Rightarrow> ('e + 'c with_log local_binding) called" where
  "logged_result r =
     (case r of
        Returned (Inr b) \<Rightarrow> Returned (Inr (logged_binding b)) | Returned (Inl e) \<Rightarrow> Returned (Inl e) | Unwound \<Rightarrow> Unwound)"

definition logged_creation ::
    "('c \<Rightarrow> (binding_error + 'c local_binding) called \<times> 'c)
       \<Rightarrow> 'c with_log \<Rightarrow> (binding_error + 'c with_log local_binding) called \<times> 'c with_log" where
  "logged_creation f s = (case logged_call EFactory f s of (r, s') \<Rightarrow> (logged_result r, s'))"

definition logged_selection :: "'c adapter_selection \<Rightarrow> 'c with_log adapter_selection" where
  "logged_selection sel =
     \<lparr>sel_metadata = sel_metadata sel, sel_adapter_id = sel_adapter_id sel, sel_target_profile = sel_target_profile sel,
      sel_version = sel_version sel,
      sel_registry = map (\<lambda>e. \<lparr>reg_key = reg_key e,
         reg_factory = (\<lambda>s ctx. logged_creation (\<lambda>c. reg_factory e c ctx) s)\<rparr>) (sel_registry sel),
      sel_policy = sel_policy sel,
      sel_fallback = map_option (\<lambda>f s config. logged_creation (\<lambda>c. f c config) s) (sel_fallback sel)\<rparr>"

text \<open>
  The logs a session may leave: no call at all; a factory that failed; or a binding that was checked at
  most once, computed only after a check that succeeded and never after a failure, and was disposed of
  once, last.
\<close>

definition uses :: "nat \<Rightarrow> bool \<Rightarrow> adapter_event list" where
  "uses n failed = replicate n (ECompute True) @ (if failed then [ECompute False] else [])"

inductive orderly :: "bool \<Rightarrow> adapter_event list \<Rightarrow> bool" where
  untouched: "orderly False []"
| not_made: "orderly False [EFactory False]"
| other_digest: "orderly False [EFactory True, EDispose disposed]"
| incompatible: "orderly False [EFactory True, ECheck False, EDispose disposed]"
| used: "success \<longrightarrow> \<not> failed \<and> disposed \<Longrightarrow>
    orderly success ([EFactory True, ECheck True] @ uses n failed @ [EDispose disposed])"

lemma compute_step_logged:
  "compute_step (logged_binding b) (c, l) action params prev =
     (case compute_step b c action params prev of (r, c') \<Rightarrow> (r, (c', l @ [ECompute (\<not> isl r)])))"
  by (cases "lb_compute b c action params prev")
    (auto simp: compute_step_def logged_binding_def logged_call_def succeeded_def split: called.split sum.split)

lemma uses_Suc: "ECompute True # uses n failed = uses (Suc n) failed"
  by (simp add: uses_def)

text \<open>One report of the loop, logged.\<close>

lemma report_logged:
  assumes cmp: "cmp c a s prev = (y, c1)"
    and lcmp: "lcmp (c, l) a s prev = (case cmp c a s prev of (r, c') \<Rightarrow> (r, (c', l @ [ECompute (\<not> isl r)])))"
    and loop: "(case (y, c1) of
        (Inl e, c1) \<Rightarrow> (Inl e, c1, t1)
      | (Inr st, c1) \<Rightarrow>
          (case send t1 (enc st) of (Inl e, t2) \<Rightarrow> (Inl (f e), c1, t2) | (Inr _, t2) \<Rightarrow> rest st c1 t2)) = (r, c', t')"
    and rest: "\<And>st u t2. y = Inr st \<Longrightarrow> send t1 (enc st) = (Inr u, t2) \<Longrightarrow> rest st c1 t2 = (r, c', t') \<Longrightarrow>
      \<exists>n failed. lrest st (c1, l @ [ECompute True]) t2 = (r, (c', (l @ [ECompute True]) @ uses n failed), t')
        \<and> (failed \<longrightarrow> isl r)"
  shows "\<exists>n failed. (case lcmp (c, l) a s prev of
        (Inl e, c1) \<Rightarrow> (Inl e, c1, t1)
      | (Inr st, c1) \<Rightarrow>
          (case send t1 (enc st) of (Inl e, t2) \<Rightarrow> (Inl (f e), c1, t2) | (Inr _, t2) \<Rightarrow> lrest st c1 t2))
      = (r, (c', l @ uses n failed), t') \<and> (failed \<longrightarrow> isl r)"
proof (cases y)
  case (Inl e)
  then show ?thesis using cmp lcmp loop by (intro exI [of _ 0] exI [of _ True]) (auto simp: uses_def)
next
  case (Inr st)
  obtain z t2 where z: "send t1 (enc st) = (z, t2)" by fastforce
  show ?thesis
  proof (cases z)
    case (Inl e)
    then show ?thesis using cmp lcmp loop z \<open>y = Inr st\<close>
      by (intro exI [of _ 1] exI [of _ False]) (auto simp: uses_def)
  next
    case (Inr u)
    then have "rest st c1 t2 = (r, c', t')" using loop z \<open>y = Inr st\<close> by simp
    then obtain n failed where "lrest st (c1, l @ [ECompute True]) t2
        = (r, (c', (l @ [ECompute True]) @ uses n failed), t')" "failed \<longrightarrow> isl r"
      using rest \<open>y = Inr st\<close> z Inr by blast
    then show ?thesis using cmp lcmp z Inr \<open>y = Inr st\<close>
      by (intro exI [of _ "Suc n"] exI [of _ failed]) (simp add: uses_Suc [symmetric])
  qed
qed

lemma stepping_logged:
  "(\<And>c l a p s. lcmp (c, l) a p s = (case cmp c a p s of (r, c') \<Rightarrow> (r, (c', l @ [ECompute (\<not> isl r)])))) \<Longrightarrow>
    run_stepping_loop w f cmp v c t = (r, c', t') \<Longrightarrow>
    \<exists>n failed. run_stepping_loop w f lcmp v (c, l) t = (r, (c', l @ uses n failed), t') \<and> (failed \<longrightarrow> isl r)"
proof (induction w f cmp v c t arbitrary: l r c' t' rule: run_stepping_loop.induct)
  case (1 w f cmp v c t)
  note lcmp = 1(4)
  obtain x t1 where r: "recv w t = (x, t1)" by fastforce
  note IH = 1(1-3) [OF r [symmetric]]
  note loops = run_stepping_loop.simps [of w f cmp v c t] run_stepping_loop.simps [of w f lcmp v "(c, l)" t]
  show ?case
  proof (cases x)
    case (Inl e)
    then show ?thesis using 1(5) unfolding loops r by (intro exI [of _ 0] exI [of _ False]) (auto simp: uses_def)
  next
    case (Inr m)
    show ?thesis
    proof (cases m)
      case (MInitialState a s)
      obtain y c1 where y: "cmp c a s [] = (y, c1)" by fastforce
      show ?thesis
        unfolding loops r prod.case Inr sum.case MInitialState mirror_message.case
        using y lcmp
      proof (rule report_logged)
        show "(case (y, c1) of (Inl e, c1) \<Rightarrow> (Inl e, c1, t1)
          | (Inr st, c1) \<Rightarrow> (case send t1 (encode_report_state w st) of (Inl e, t2) \<Rightarrow> (Inl (f e), c1, t2)
             | (Inr _, t2) \<Rightarrow> run_stepping_loop w f cmp (v\<lparr>last_action := a, cur_state := st\<rparr>) c1 t2)) = (r, c', t')"
          using 1(5) by (simp add: loops r Inr MInitialState y)
      qed (rule IH(1) [OF Inr MInitialState y [symmetric] _ _ _ lcmp], auto)
    next
      case (MNextStep a s)
      obtain y c1 where y: "cmp c a s (cur_state v) = (y, c1)" by fastforce
      show ?thesis
        unfolding loops r prod.case Inr sum.case MNextStep mirror_message.case
        using y lcmp
      proof (rule report_logged)
        show "(case (y, c1) of (Inl e, c1) \<Rightarrow> (Inl e, c1, t1)
          | (Inr st, c1) \<Rightarrow> (case send t1 (encode_report_state w st) of (Inl e, t2) \<Rightarrow> (Inl (f e), c1, t2)
             | (Inr _, t2) \<Rightarrow> run_stepping_loop w f cmp
                 (v\<lparr>last_action := a, last_param := s, cur_state := st\<rparr>) c1 t2)) = (r, c', t')"
          using 1(5) by (simp add: loops r Inr MNextStep y)
      qed (rule IH(2) [OF Inr MNextStep y [symmetric] _ _ _ lcmp], auto)
    next
      case MStepOk
      then show ?thesis using IH(3) [OF Inr MStepOk lcmp] 1(5) by (simp add: loops r Inr)
    qed (use 1(5) Inr in \<open>unfold loops r, intro exI [of _ 0] exI [of _ False], auto simp: uses_def\<close>)
  qed
qed

definition worked :: "('e + 'a) \<Rightarrow> bool" where
  "worked r \<longleftrightarrow> \<not> isl r"

lemma use_binding_logged:
  assumes "use_binding w key config b c t = (r, c', t')"
  shows "\<exists>mid. use_binding w key config (logged_binding b) (c, l) t = (r, (c', l @ mid), t')
    \<and> (mid = [] \<and> isl r \<or> mid = [ECheck False] \<and> isl r
       \<or> (\<exists>n failed. mid = ECheck True # uses n failed \<and> (failed \<longrightarrow> isl r)))"
proof (cases "lb_digest b = key_digest key")
  case False
  then show ?thesis using assms by (intro exI [of _ "[]"]) (auto simp: use_binding_def logged_binding_def)
next
  case True
  obtain q c1 where q: "lb_check b c config = (q, c1)" by fastforce
  then have lq: "lb_check (logged_binding b) (c, l) config = (q, (c1, l @ [ECheck (succeeded q)]))"
    by (simp add: logged_binding_def logged_call_def)
  have dg: "lb_digest (logged_binding b) = lb_digest b" by (simp add: logged_binding_def)
  show ?thesis
  proof (cases "\<exists>u. q = Returned (Inr u)")
    case False
    then show ?thesis using assms True q lq dg
      by (intro exI [of _ "[ECheck False]"])
        (auto simp: use_binding_def succeeded_def catch_unwind_def split: called.splits sum.splits)
  next
    case ok: True
    obtain r0 t2 where loop:
      "run_stepping_loop w (\<lambda>e. Failed (Legacy e)) (compute_step b) initial_stepping c1 t = (r0, c', t')"
      "r = catch_unwind r0"
      using assms True q ok by (auto simp: use_binding_def split: prod.splits)
    obtain n failed where lloop: "run_stepping_loop w (\<lambda>e. Failed (Legacy e)) (compute_step (logged_binding b))
        initial_stepping (c1, l @ [ECheck True]) t = (r0, (c', (l @ [ECheck True]) @ uses n failed), t')"
      "failed \<longrightarrow> isl r0"
      using stepping_logged [OF compute_step_logged loop(1)] by blast
    moreover have "isl r0 \<Longrightarrow> isl r" using loop(2) by (cases r0) (auto simp: catch_unwind_def split: session_failure.split)
    ultimately show ?thesis using True q ok lq dg loop(2)
      by (intro exI [of _ "ECheck True # uses n failed"]) (auto simp: use_binding_def succeeded_def)
  qed
qed

lemma use_and_dispose_logged:
  assumes "use_and_dispose w key config b c t = (r, c', t')"
  shows "\<exists>log. use_and_dispose w key config (logged_binding b) (c, [EFactory True]) t = (r, (c', log), t')
    \<and> orderly (worked r) log"
proof -
  obtain r1 c1 t1 where u: "use_binding w key config b c t = (r1, c1, t1)" by (metis prod_cases3)
  then obtain mid where mid: "use_binding w key config (logged_binding b) (c, [EFactory True]) t
      = (r1, (c1, [EFactory True] @ mid), t1)"
    "mid = [] \<and> isl r1 \<or> mid = [ECheck False] \<and> isl r1
       \<or> (\<exists>n failed. mid = ECheck True # uses n failed \<and> (failed \<longrightarrow> isl r1))"
    using use_binding_logged [of w key config b c t] by blast
  obtain q c2 where q: "lb_dispose b c1 = (q, c2)" by fastforce
  let ?cl = "fst (adapter_dispose b c1)"
  obtain cl where cl: "adapter_dispose b c1 = (cl, c2)" "succeeded q \<longleftrightarrow> worked cl"
  proof (rule that [of ?cl])
    show "adapter_dispose b c1 = (?cl, c2)" "succeeded q \<longleftrightarrow> worked ?cl"
      using q by (auto simp: adapter_dispose_def worked_def succeeded_def split: called.split sum.split)
  qed
  have lcl: "adapter_dispose (logged_binding b) (c1, l) = (cl, (c2, l @ [EDispose (succeeded q)]))" for l
    using q cl(1) by (cases q)
      (auto simp: adapter_dispose_def logged_binding_def logged_call_def split: sum.splits)
  have r: "worked r \<longleftrightarrow> worked r1 \<and> worked cl" "c' = c2" "t' = t1"
    using assms u cl(1)
    by (cases r1; cases cl; auto simp: use_and_dispose_def first_error_def worked_def)+
  have "use_and_dispose w key config (logged_binding b) (c, [EFactory True]) t
      = (r, (c', ([EFactory True] @ mid) @ [EDispose (succeeded q)]), t')"
    using assms u mid(1) lcl cl(1) r by (cases "first_error r1 cl") (auto simp: use_and_dispose_def)
  moreover have "orderly (worked r) (([EFactory True] @ mid) @ [EDispose (succeeded q)])"
    using mid(2)
  proof (elim disjE exE conjE)
    fix n failed assume "mid = ECheck True # uses n failed" "failed \<longrightarrow> isl r1"
    then show ?thesis using used [of "worked r" failed "succeeded q" n] r(1) cl(2) by (auto simp: worked_def)
  qed (use r(1) other_digest incompatible in \<open>auto simp: worked_def\<close>)
  ultimately show ?thesis by blast
qed

lemma create_logged:
  assumes "create_binding sel index config a c = (r, c')" and "index < length (sel_registry sel)"
  shows "case r of
      Inl e \<Rightarrow> create_binding (logged_selection sel) index config a (c, [])
        = (Inl e, (c', if a = AFallback \<and> sel_fallback sel = None then [] else [EFactory False]))
    | Inr b \<Rightarrow> create_binding (logged_selection sel) index config a (c, []) = (Inr (logged_binding b), (c', [EFactory True]))"
proof (cases a)
  case (AMatched d s)
  obtain q c1 where "reg_factory (sel_registry sel ! index) c
      \<lparr>mc_digest = d, mc_descriptor_schema = s, mc_config = config\<rparr> = (q, c1)" by fastforce
  then show ?thesis using assms AMatched
    by (cases q) (auto simp: create_binding_def logged_selection_def logged_creation_def logged_call_def
        logged_result_def succeeded_def split: sum.splits)
next
  case AFallback
  show ?thesis
  proof (cases "sel_fallback sel")
    case None
    then show ?thesis using assms AFallback by (auto simp: create_binding_def logged_selection_def)
  next
    case (Some f)
    obtain q c1 where "f c config = (q, c1)" by fastforce
    then show ?thesis using assms AFallback Some
      by (cases q) (auto simp: create_binding_def logged_selection_def logged_creation_def logged_call_def
          logged_result_def succeeded_def split: sum.splits)
  qed
qed

lemma resolve_same:
  assumes "exact_indices regs' key = exact_indices regs key"
    and "(near_misses regs' key = {}) = (near_misses regs key = {})"
    and "(same_target regs' key = {}) = (same_target regs key = {})"
  shows "resolve_index regs' key = resolve_index regs key"
  by (rule resolve_cases [of regs key]; rule resolve_cases [of regs' key]) (use assms in simp_all)

lemma resolve_logged:
  "resolve_index (sel_registry (logged_selection sel)) key = resolve_index (sel_registry sel) key"
proof -
  let ?keep = "\<lambda>e. \<lparr>reg_key = reg_key e, reg_factory = (\<lambda>s ctx. logged_creation (\<lambda>c. reg_factory e c ctx) s)\<rparr>"
  have kept: "P (reg_key (?keep e)) = P (reg_key e)" for P :: "compiled_adapter_key \<Rightarrow> bool" and e
    by simp
  have "exact_indices (map ?keep regs) key = exact_indices regs key"
    and near: "near_misses (map ?keep regs) key = ?keep ` near_misses regs key"
    for regs :: "'a adapter_factory adapter_registration list"
    by (auto simp: exact_indices_def near_misses_def same_identity_def)
  moreover have "same_target (map ?keep regs) key = ?keep ` same_target regs key"
    for regs :: "'a adapter_factory adapter_registration list"
    by (auto simp: same_target_def near)
  moreover have "sel_registry (logged_selection sel) = map ?keep (sel_registry sel)" by (simp add: logged_selection_def)
  ultimately have same: "exact_indices (sel_registry (logged_selection sel)) key = exact_indices (sel_registry sel) key"
    "(near_misses (sel_registry (logged_selection sel)) key = {}) = (near_misses (sel_registry sel) key = {})"
    "(same_target (sel_registry (logged_selection sel)) key = {}) = (same_target (sel_registry sel) key = {})"
    by simp_all
  then show ?thesis by (rule resolve_same)
qed

lemma logged_selection_simps [simp]:
  "sel_metadata (logged_selection sel) = sel_metadata sel" "sel_policy (logged_selection sel) = sel_policy sel"
  "sel_version (logged_selection sel) = sel_version sel"
  "selection_key (logged_selection sel) request = selection_key sel request"
  "(sel_fallback (logged_selection sel) = None) = (sel_fallback sel = None)"
  by (simp_all add: logged_selection_def selection_key_def)

lemma prepare_logged: "prepare w (logged_selection sel) = prepare w sel"
  by (simp add: prepare_def resolve_logged cong: if_cong)

lemma prepare_index: "prepare w sel = Inr (request, index) \<Longrightarrow> index < length (sel_registry sel)"
proof -
  assume "prepare w sel = Inr (request, index)"
  then have "resolve_index (sel_registry sel) (selection_key sel request) = Inr index"
    by (auto simp: prepare_def split: if_splits)
  then show ?thesis
    by (cases "sel_registry sel" "selection_key sel request" rule: resolve_cases)
      (auto simp: exact_indices_def split: if_splits)
qed

lemma run_authorized_logged:
  assumes "run_authorized w config sel request index c t = (r, c', t')" and "index < length (sel_registry sel)"
  shows "\<exists>log. run_authorized w config (logged_selection sel) request index (c, []) t = (r, (c', log), t')
    \<and> orderly (worked r) log"
proof -
  obtain x t1 where x: "transport_recv t = (x, t1)" by fastforce
  show ?thesis
  proof (cases "\<exists>line a. x = Inr (Some line) \<and> decode_authorization w line request (sel_fallback sel \<noteq> None) = Inr a")
    case False
    then show ?thesis using assms x untouched
      by (cases x) (auto simp: run_authorized_def worked_def split: option.splits sum.splits)
  next
    case True
    then obtain line a where a: "x = Inr (Some line)"
      "decode_authorization w line request (sel_fallback sel \<noteq> None) = Inr a" by blast
    have allowed: "\<not> (a = AFallback \<and> sel_fallback sel = None)"
      using a(2) by (auto simp: decode_authorization_Inr decide_reply_fallback split: if_splits)
    obtain q c1 where q: "create_binding sel index config a c = (q, c1)" by fastforce
    note lq = create_logged [OF q assms(2)]
    show ?thesis
    proof (cases q)
      case (Inl e)
      then show ?thesis using assms x a q lq allowed not_made by (auto simp: run_authorized_def worked_def)
    next
      case (Inr b)
      then have "use_and_dispose w (selection_key sel request) config b c1 t1 = (r, c', t')"
        using assms x a q by (simp add: run_authorized_def)
      then show ?thesis using x a lq Inr use_and_dispose_logged by (fastforce simp: run_authorized_def)
    qed
  qed
qed

lemma open_logged:
  assumes "run_negotiated_open w reader config registration sel c t = (r, c', t')"
  shows "\<exists>log. run_negotiated_open w reader config registration (logged_selection sel) (c, []) t = (r, (c', log), t')
    \<and> orderly (worked r) log"
proof (cases "\<exists>request index encoded u t1. prepare w sel = Inr (request, index)
    \<and> encode_registration w reader registration request = Inr encoded \<and> send t encoded = (Inr u, t1)")
  case True
  then obtain request index encoded u t1 where *: "prepare w sel = Inr (request, index)"
    "encode_registration w reader registration request = Inr encoded" "send t encoded = (Inr u, t1)" by blast
  then have "run_authorized w config sel request index c t1 = (r, c', t')"
    using assms by (simp add: run_negotiated_open_def)
  then show ?thesis using run_authorized_logged [OF _ prepare_index [OF *(1)]] * 
    by (simp add: run_negotiated_open_def prepare_logged)
next
  case False
  then show ?thesis using assms untouched
    by (auto simp: run_negotiated_open_def prepare_logged worked_def split: sum.splits prod.splits)
qed

lemma orderly_failed: "orderly s log \<Longrightarrow> orderly False log"
  by (erule orderly.cases; hypsubst; rule orderly.intros; simp)

lemma run_negotiated_logged:
  assumes "run_negotiated w reader config registration sel c t = (r, c', t')"
  shows "\<exists>log. run_negotiated w reader config registration (logged_selection sel) (c, []) t = (r, (c', log), t')
    \<and> orderly (worked r) log"
proof -
  obtain r1 c1 t1 where o: "run_negotiated_open w reader config registration sel c t = (r1, c1, t1)"
    by (metis prod_cases3)
  obtain log where log: "run_negotiated_open w reader config registration (logged_selection sel) (c, []) t
      = (r1, (c1, log), t1)" "orderly (worked r1) log" using open_logged [OF o] by blast
  have r: "c' = c1" "worked r \<Longrightarrow> worked r1"
    using assms o by (auto simp: run_negotiated_def first_error_def worked_def
        split: sum.splits session_failure.splits prod.splits)
  then have "orderly (worked r) log" using log(2) orderly_failed [OF log(2)] by (cases "worked r") auto
  moreover have "run_negotiated w reader config registration (logged_selection sel) (c, []) t = (r, (c', log), t')"
    using assms o log(1) r(1) by (auto simp: run_negotiated_def split: sum.splits session_failure.splits prod.splits)
  ultimately show ?thesis by blast
qed

lemma use_and_dispose_ok:
  "use_and_dispose w key config b c t = (r, c', t') \<Longrightarrow> transport_ok t \<Longrightarrow> transport_ok t'"
  by (auto simp: use_and_dispose_def use_binding_def stepping_ok
      split: prod.splits sum.splits called.splits if_splits dest: stepping_ok)

lemma run_negotiated_closes:
  assumes "run_negotiated w reader config registration sel c t = (r, c', t')" and "transport_ok t"
  shows "t_closed t'"
proof -
  obtain r1 c1 t1 where o: "run_negotiated_open w reader config registration sel c t = (r1, c1, t1)"
    by (metis prod_cases3)
  have "transport_ok t1" using o assms(2)
    by (auto simp: run_negotiated_open_def run_authorized_def use_and_dispose_ok
        split: prod.splits sum.splits option.splits dest: send_ok)
      (metis send_ok transport_ok_recv snd_conv use_and_dispose_ok)+
  then show ?thesis using assms(1) o
    by (auto simp: run_negotiated_def drop_closes drop_closed_closes
        split: sum.splits session_failure.splits prod.splits)
      (metis drop_closed_closes snd_conv)+
qed

end
