(* ===== verification/Json_Text.thy ===== *)
theory Json_Text
  imports Json_Parser
begin

text \<open>
  The texts of JSON values and the completeness of the reader: a value written out, its object members
  in any order, is read back, as long as it is within the limits.  How a string is written is a
  parameter, as its decoding is.
\<close>

section \<open>Texts\<close>

fun commas :: "string list \<Rightarrow> string" where
  "commas [] = []"
| "commas [s] = s"
| "commas (s # ss) = s @ CHR '','' # commas ss"

text \<open>
  A tree whose objects list their members in the order of the text; its value has them as maps, in
  which the last member of a key counts.
\<close>

fun value_of :: "json \<Rightarrow> json" where
  "value_of (JArray vs) = JArray (map value_of vs)"
| "value_of (JObject m) = JObject (bt_of_list (map (\<lambda>(k, v). (k, value_of v)) m))"
| "value_of v = v"

fun text_of :: "(string \<Rightarrow> string) \<Rightarrow> json \<Rightarrow> string" where
  "text_of tok JNull = ''null''"
| "text_of tok (JBool b) = (if b then ''true'' else ''false'')"
| "text_of tok (JNumber s) = s"
| "text_of tok (JString s) = tok s"
| "text_of tok (JArray vs) = CHR ''['' # commas (map (text_of tok) vs) @ '']''"
| "text_of tok (JObject m) = CHR ''{'' # commas (map (\<lambda>(k, v). tok k @ CHR '':'' # text_of tok v) m) @ ''}''"

fun keys_once :: "json \<Rightarrow> bool" where
  "keys_once (JArray vs) = (\<forall>v \<in> set vs. keys_once v)"
| "keys_once (JObject m) = (distinct (map fst m) \<and> (\<forall>(k, v) \<in> set m. keys_once v))"
| "keys_once v = True"

text \<open>The grammar of number texts, and of the bodies of string tokens.\<close>

definition digit_string :: "string \<Rightarrow> bool" where
  "digit_string s \<longleftrightarrow> s \<noteq> [] \<and> list_all is_ascii_digit s"

definition integer_text :: "string \<Rightarrow> bool" where
  "integer_text s \<longleftrightarrow> digit_string s \<and> (hd s = CHR ''0'' \<longrightarrow> s = ''0'')"

definition fraction_text :: "string \<Rightarrow> bool" where
  "fraction_text s \<longleftrightarrow> s = [] \<or> (\<exists>ds. s = CHR ''.'' # ds \<and> digit_string ds)"

definition exponent_text :: "string \<Rightarrow> bool" where
  "exponent_text s \<longleftrightarrow>
     s = [] \<or> (\<exists>e sign ds. s = e # sign @ ds \<and> e \<in> set ''eE'' \<and> sign \<in> {[], ''+'', ''-''} \<and> digit_string ds)"

definition number_token :: "string \<Rightarrow> bool" where
  "number_token s \<longleftrightarrow>
     (\<exists>sign int frac expo. s = sign @ int @ frac @ expo
        \<and> sign \<in> {[], ''-''} \<and> integer_text int \<and> fraction_text frac \<and> exponent_text expo)"

fun token_body :: "string \<Rightarrow> bool" where
  "token_body [] = True"
| "token_body (c # cs) =
     (if c = CHR 0x5C then cs \<noteq> [] \<and> token_body (tl cs)
      else c \<noteq> CHR 0x22 \<and> 0x1F < byte_of c \<and> token_body cs)"

definition string_token :: "(bytes \<Rightarrow> string option) \<Rightarrow> (string \<Rightarrow> string) \<Rightarrow> string \<Rightarrow> bool" where
  "string_token f tok s \<longleftrightarrow>
     (\<exists>body. tok s = CHR 0x22 # body @ [CHR 0x22] \<and> token_body body) \<and> f (tok s) = Some s"

fun writable :: "(bytes \<Rightarrow> string option) \<Rightarrow> (string \<Rightarrow> string) \<Rightarrow> json \<Rightarrow> bool" where
  "writable f tok (JNumber s) = number_token s"
| "writable f tok (JString s) = string_token f tok s"
| "writable f tok (JArray vs) = (\<forall>v \<in> set vs. writable f tok v)"
| "writable f tok (JObject m) = (\<forall>(k, v) \<in> set m. string_token f tok k \<and> writable f tok v)"
| "writable f tok v = True"

section \<open>The text ahead of the cursor\<close>

definition ahead :: "parser \<Rightarrow> string" where
  "ahead p = drop (p_at p) (p_text p)"

definition moved :: "nat \<Rightarrow> nat \<Rightarrow> parser \<Rightarrow> parser" where
  "moved n k p = p\<lparr>p_at := p_at p + n, p_nodes := p_nodes p + k\<rparr>"

lemma moved_simps [simp]:
  "p_text (moved n k p) = p_text p" "p_at (moved n k p) = p_at p + n"
  "p_nodes (moved n k p) = p_nodes p + k" "p_limits (moved n k p) = p_limits p"
  "moved n k (moved n' k' p) = moved (n' + n) (k' + k) p" "moved 0 0 p = p"
  by (simp_all add: moved_def)

lemma bump_moved: "bump n p = moved n 0 p"
  by (simp add: bump_def moved_def)

lemma count_node_moved: "count_node p = moved 0 1 p"
  by (simp add: count_node_def moved_def)

lemma ahead_moved [simp]: "ahead (moved n k p) = drop n (ahead p)"
  by (simp add: ahead_def add.commute)

lemma cur_ahead: "cur p = (case ahead p of [] \<Rightarrow> None | c # r \<Rightarrow> Some c)"
  by (cases "p_at p < length (p_text p)")
    (simp_all add: cur_def get_byte_def ahead_def Cons_nth_drop_Suc [symmetric])

lemma slice_ahead: "ahead p = s @ r \<Longrightarrow> slice (p_text p) (p_at p) (p_at p + length s) = s"
  by (simp add: slice_def ahead_def)

text \<open>Loops that pass over a prefix.\<close>

definition stops :: "(char \<Rightarrow> bool) \<Rightarrow> string \<Rightarrow> bool" where
  "stops P r \<longleftrightarrow> (case r of [] \<Rightarrow> True | c # _ \<Rightarrow> \<not> P c)"

lemma skip_while_ahead:
  "ahead p = s @ r \<Longrightarrow> list_all P s \<Longrightarrow> stops P r \<Longrightarrow> skip_while P p = moved (length s) 0 p"
proof (induction s arbitrary: p)
  case Nil
  then show ?case by (subst skip_while.simps) (auto simp: cur_ahead stops_def split: list.splits)
next
  case (Cons c s)
  then have "skip_while P (bump 1 p) = moved (length s) 0 (bump 1 p)" by (simp add: bump_moved)
  then show ?case using Cons.prems by (subst skip_while.simps) (simp add: cur_ahead bump_moved)
qed

lemma skip_ws_ahead: "stops is_json_ws (ahead p) \<Longrightarrow> skip_ws p = p"
  using skip_while_ahead [of p "[]" "ahead p" is_json_ws] by (simp add: skip_ws_def)

lemma skip_digits_ahead:
  "ahead p = s @ r \<Longrightarrow> list_all is_ascii_digit s \<Longrightarrow> stops is_ascii_digit r \<Longrightarrow> skip_digits p = moved (length s) 0 p"
  by (simp add: skip_digits_def skip_while_ahead)

lemma string_loop_ahead:
  "ahead p = body @ CHR 0x22 # r \<Longrightarrow> token_body body \<Longrightarrow>
    string_loop f start p =
      (case f (slice (p_text p) start (p_at p + length body + 1)) of
         None \<Rightarrow> Inl (parse_error (moved (length body + 1) 0 p)
           (BadStringToken (slice (p_text p) start (p_at p + length body + 1))))
       | Some s \<Rightarrow> Inr (s, moved (length body + 1) 0 p))"
proof (induction body arbitrary: p rule: token_body.induct)
  case 1
  then show ?case by (subst string_loop.simps) (simp add: cur_ahead bump_moved Let_def split: option.split)
next
  case (2 c cs)
  show ?case
  proof (cases "c = CHR 0x5C")
    case True
    then obtain c' cs' where cs: "cs = c' # cs'" using 2(4) by (cases cs) auto
    have "length (ahead p) = length (p_text p) - p_at p" by (simp add: ahead_def)
    then have "p_at p + 2 \<le> length (p_text p)" using 2(3) cs by simp
    then have m: "p\<lparr>p_at := min (p_at p + 2) (length (p_text p))\<rparr> = moved 2 0 p" by (simp add: moved_def)
    show ?thesis using 2(1) [OF True, of "moved 2 0 p"] 2(3,4) True cs m
      by (subst string_loop.simps) (simp add: cur_ahead ac_simps split: option.split)
  next
    case False
    then show ?thesis using 2(2) [OF False, of "moved 1 0 p"] 2(3,4)
      by (subst string_loop.simps) (simp add: cur_ahead bump_moved split: option.split)
  qed
qed

lemma parse_string_ahead:
  assumes "ahead p = tok s @ r" and "string_token f tok s"
  shows "parse_string f p = Inr (s, moved (length (tok s)) 0 p)"
proof -
  obtain body where b: "tok s = CHR 0x22 # body @ [CHR 0x22]" "token_body body"
    using assms(2) by (auto simp: string_token_def)
  have "slice (p_text p) (p_at p) (p_at p + length (tok s)) = tok s" using slice_ahead [OF assms(1)] .
  moreover have "ahead (moved 1 0 p) = body @ CHR 0x22 # r" using assms(1) b by simp
  ultimately show ?thesis
    using string_loop_ahead [of "moved 1 0 p" body r f "p_at p"] b assms(2)
    by (simp add: parse_string_def bump_moved string_token_def)
qed

text \<open>What may follow a value inside a text.\<close>

definition delimited :: "string \<Rightarrow> bool" where
  "delimited r \<longleftrightarrow> r = [] \<or> hd r \<in> set '',]}''"

lemma delimited_stops:
  assumes "delimited r"
  shows "stops is_json_ws r" "stops is_ascii_digit r" "stops (\<lambda>c. c \<in> set ''.eE'') r"
  using assms by (cases r; auto simp: delimited_def stops_def is_json_ws_def is_ascii_digit_def byte_of_def)+

lemma digit_string_cases:
  assumes "digit_string s"
  obtains c cs where "s = c # cs" "is_ascii_digit c" "list_all is_ascii_digit cs"
  using assms by (cases s) (auto simp: digit_string_def)

lemma not_digits: "\<not> is_ascii_digit CHR ''.''" "\<not> is_ascii_digit CHR ''e''" "\<not> is_ascii_digit CHR ''E''"
  "\<not> is_ascii_digit CHR ''+''" "\<not> is_ascii_digit CHR ''-''"
  by (simp_all add: is_ascii_digit_def byte_of_def)

lemma integer_part_ahead:
  assumes "ahead p = s @ r" and "integer_text s" and "stops is_ascii_digit r"
  shows "integer_part p = Inr (moved (length s) 0 p)"
proof -
  obtain c cs where c: "s = c # cs" "is_ascii_digit c" "list_all is_ascii_digit cs"
    using assms(2) by (auto simp: integer_text_def elim: digit_string_cases)
  show ?thesis
  proof (cases "c = CHR ''0''")
    case True
    then show ?thesis using assms c
      by (auto simp: integer_part_def integer_text_def cur_ahead bump_moved Let_def cur_is_def stops_def split: list.splits)
  next
    case False
    then show ?thesis using assms c skip_digits_ahead [of "moved 1 0 p" cs r]
      by (simp add: integer_part_def cur_ahead bump_moved)
  qed
qed

lemma fraction_part_ahead:
  assumes "ahead p = s @ r" and "fraction_text s" and "stops is_ascii_digit r" and "stops (\<lambda>c. c = CHR ''.'') r"
  shows "fraction_part p = Inr (moved (length s) 0 p)"
proof (cases s)
  case Nil
  then show ?thesis using assms by (auto simp: fraction_part_def cur_ahead stops_def split: list.splits)
next
  case (Cons d ds)
  then have d: "d = CHR ''.''" "digit_string ds" using assms(2) by (auto simp: fraction_text_def)
  then obtain c cs where "ds = c # cs" "is_ascii_digit c" by (auto elim: digit_string_cases)
  then show ?thesis using assms Cons d skip_digits_ahead [of "moved 1 0 p" ds r]
    by (simp add: fraction_part_def cur_ahead bump_moved Let_def cur_is_def digit_string_def)
qed

lemma exponent_part_ahead:
  assumes "ahead p = s @ r" and "exponent_text s" and "stops is_ascii_digit r" and "stops (\<lambda>c. c \<in> set ''eE'') r"
  shows "exponent_part p = Inr (moved (length s) 0 p)"
proof (cases s)
  case Nil
  then show ?thesis using assms by (auto simp: exponent_part_def cur_ahead stops_def split: list.splits)
next
  case (Cons e rest)
  then obtain sign ds where e: "rest = sign @ ds" "e \<in> set ''eE''" "sign \<in> {[], ''+'', ''-''}" "digit_string ds"
    using assms(2) by (auto simp: exponent_text_def)
  obtain c cs where c: "ds = c # cs" "is_ascii_digit c" using e(4) by (auto elim: digit_string_cases)
  have ne: "c \<noteq> CHR ''+''" "c \<noteq> CHR ''-''" using c(2) not_digits by auto
  have skip: "skip_digits (moved (Suc (length sign)) 0 p) = moved (Suc (length sign) + length ds) 0 p"
    using assms e Cons skip_digits_ahead [of "moved (Suc (length sign)) 0 p" ds r]
    by (simp add: digit_string_def add.commute)
  show ?thesis using e(3)
  proof (elim insertE emptyE)
    assume "sign = []"
    then show ?thesis using assms(1) Cons e c ne skip
      by (auto simp: exponent_part_def cur_ahead bump_moved Let_def cur_is_def)
  qed (use assms(1) Cons e c ne skip in \<open>auto simp: exponent_part_def cur_ahead bump_moved Let_def cur_is_def numeral_2_eq_2\<close>)
qed

lemma parse_number_ahead:
  assumes "ahead p = s @ r" and "number_token s" and r: "delimited r"
  shows "parse_number p = Inr (JNumber s, moved (length s) 0 p)"
proof -
  obtain sign int frac expo where s: "s = sign @ int @ frac @ expo" "sign \<in> {[], ''-''}" "integer_text int"
    "fraction_text frac" "exponent_text expo"
    using assms(2) by (auto simp: number_token_def)
  have stop_expo: "stops is_ascii_digit (expo @ r)" "stops (\<lambda>c. c = CHR ''.'') (expo @ r)"
    using s(5) delimited_stops [OF r] by (cases expo; cases r; auto simp: stops_def exponent_text_def not_digits)+
  have stop_frac: "stops is_ascii_digit (frac @ expo @ r)"
    using s(4) stop_expo(1) by (cases frac) (auto simp: stops_def fraction_text_def not_digits)
  have stop_r: "stops is_ascii_digit r" "stops (\<lambda>c. c \<in> set ''eE'') r"
    using delimited_stops [OF r] by (auto simp: stops_def split: list.splits)
  obtain c cs where c: "int = c # cs" "is_ascii_digit c"
    using s(3) by (auto simp: integer_text_def elim: digit_string_cases)
  have "(if cur p = Some (CHR ''-'') then bump 1 p else p) = moved (length sign) 0 p"
    using s(2) c not_digits assms(1) s(1) by (auto simp: cur_ahead bump_moved)
  moreover have "integer_part (moved (length sign) 0 p) = Inr (moved (length int) 0 (moved (length sign) 0 p))"
    by (rule integer_part_ahead [OF _ s(3) stop_frac]) (simp add: assms(1) s(1))
  moreover have "fraction_part (moved (length sign + length int) 0 p)
      = Inr (moved (length frac) 0 (moved (length sign + length int) 0 p))"
    by (rule fraction_part_ahead [OF _ s(4) stop_expo]) (simp add: assms(1) s(1))
  moreover have "exponent_part (moved (length sign + length int + length frac) 0 p)
      = Inr (moved (length expo) 0 (moved (length sign + length int + length frac) 0 p))"
    by (rule exponent_part_ahead [OF _ s(5) stop_r]) (simp add: assms(1) s(1))
  moreover have "slice (p_text p) (p_at p) (p_at p + length s) = s" by (rule slice_ahead [OF assms(1)])
  ultimately show ?thesis by (simp add: parse_number_def Let_def s(1) add.assoc)
qed

lemma parse_literal_ahead: "ahead p = lit @ r \<Longrightarrow> parse_literal lit p = Inr (moved (length lit) 0 p)"
  by (simp add: parse_literal_def ahead_def bump_moved)

section \<open>Reading a text back\<close>

definition starts_value :: "char \<Rightarrow> bool" where
  "starts_value c \<longleftrightarrow> \<not> is_json_ws c \<and> c \<notin> set '']},:''"

lemma text_head:
  assumes "writable f tok v"
  obtains c cs where "text_of tok v = c # cs" "starts_value c"
proof (cases v)
  case (JNumber s)
  then obtain sign int rest where s: "s = sign @ int @ rest" "sign \<in> {[], ''-''}" "integer_text int"
    using assms by (auto simp: number_token_def)
  obtain c cs where c: "int = c # cs" "is_ascii_digit c"
    using s(3) by (auto simp: integer_text_def elim: digit_string_cases)
  have "starts_value c" "starts_value CHR ''-''"
    using c(2) by (auto simp: starts_value_def is_json_ws_def is_ascii_digit_def byte_of_def)
  then show thesis using that JNumber s c by auto
next
  case (JBool b)
  then show thesis using that by (cases b) (auto simp: starts_value_def is_json_ws_def byte_of_def)
qed (use assms that in \<open>auto simp: string_token_def starts_value_def is_json_ws_def byte_of_def split: if_splits\<close>)

lemma text_ahead:
  assumes "writable f tok v" and "ahead p = text_of tok v @ r"
  obtains c cs where "skip_ws p = p" "cur p = Some c" "starts_value c" "text_of tok v = c # cs"
proof -
  obtain c cs where c: "text_of tok v = c # cs" "starts_value c" using text_head [OF assms(1)] .
  then have "stops is_json_ws (ahead p)" using assms(2) by (simp add: stops_def starts_value_def)
  then show thesis using that c assms(2) by (simp add: skip_ws_ahead cur_ahead)
qed

text \<open>That a value reads back from any point of a text where it stands.\<close>

definition reads_back :: "(bytes \<Rightarrow> string option) \<Rightarrow> (string \<Rightarrow> string) \<Rightarrow> json \<Rightarrow> bool" where
  "reads_back f tok v \<longleftrightarrow>
     (\<forall>p r d. ahead p = text_of tok v @ r \<longrightarrow> delimited r \<longrightarrow> d + json_depth v \<le> max_depth (p_limits p)
        \<longrightarrow> p_nodes p + json_nodes v \<le> max_nodes (p_limits p)
        \<longrightarrow> (reject_duplicate_keys (p_limits p) \<longrightarrow> keys_once v)
        \<longrightarrow> parse_value f d p = Inr (value_of v, moved (length (text_of tok v)) (json_nodes v) p))"

lemma commas_Cons: "ss \<noteq> [] \<Longrightarrow> commas (s # ss) = s @ CHR '','' # commas ss"
  by (cases ss) simp_all

lemma array_reads_back:
  assumes "vs \<noteq> []" and "\<forall>v \<in> set vs. reads_back f tok v \<and> d + json_depth v \<le> max_depth (p_limits p)
      \<and> (reject_duplicate_keys (p_limits p) \<longrightarrow> keys_once v)"
    and "ahead p = commas (map (text_of tok) vs) @ CHR '']'' # r"
    and "p_nodes p + sum_list (map json_nodes vs) \<le> max_nodes (p_limits p)"
  shows "array_loop f d acc p = Inr (JArray (acc @ map value_of vs),
      moved (Suc (length (commas (map (text_of tok) vs)))) (sum_list (map json_nodes vs)) p)"
  using assms
proof (induction vs arbitrary: acc p)
  case (Cons v vs)
  let ?n = "length (text_of tok v)"
  let ?p = "moved ?n (json_nodes v) p"
  obtain r' where r': "ahead p = text_of tok v @ r'" "delimited r'" "stops is_json_ws r'"
    "r' = (if vs = [] then CHR '']'' # r else CHR '','' # commas (map (text_of tok) vs) @ CHR '']'' # r)"
  proof (rule that)
    let ?r = "if vs = [] then CHR '']'' # r else CHR '','' # commas (map (text_of tok) vs) @ CHR '']'' # r"
    show "ahead p = text_of tok v @ ?r" using Cons(4) by (simp add: commas_Cons)
    show "delimited ?r" "stops is_json_ws ?r" by (simp_all add: delimited_def stops_def is_json_ws_def byte_of_def)
  qed simp
  have got: "parse_value f d p = Inr (value_of v, ?p)"
    using Cons(3,5) r'(1,2) by (simp add: reads_back_def)
  have skip: "skip_ws ?p = ?p" using r'(1,3) by (intro skip_ws_ahead) simp
  show ?case
  proof (cases "vs = []")
    case True
    then show ?thesis using got skip r'(1,4) by (subst array_loop.simps) (simp add: cur_ahead bump_moved)
  next
    case False
    have "array_loop f d (acc @ [value_of v]) (moved 1 0 ?p) = Inr (JArray ((acc @ [value_of v]) @ map value_of vs),
        moved (Suc (length (commas (map (text_of tok) vs)))) (sum_list (map json_nodes vs)) (moved 1 0 ?p))"
      using False Cons(3,5) r'(1,4) by (intro Cons.IH) simp_all
    then show ?thesis using False got skip r'(1,4)
      by (subst array_loop.simps) (simp add: cur_ahead bump_moved commas_Cons ac_simps)
  qed
qed simp

definition entry_text :: "(string \<Rightarrow> string) \<Rightarrow> string \<times> json \<Rightarrow> string" where
  "entry_text tok kv = tok (fst kv) @ CHR '':'' # text_of tok (snd kv)"

lemma member_key_ahead:
  assumes "ahead p = tok k @ CHR '':'' # r" and "string_token f tok k"
    and "reject_duplicate_keys (p_limits p) \<longrightarrow> k \<notin> keys"
  shows "member_key f keys p = Inr ((k, if reject_duplicate_keys (p_limits p) then insert k keys else keys),
      moved (Suc (length (tok k))) 0 p)"
proof -
  obtain body where "tok k = CHR 0x22 # body @ [CHR 0x22]" using assms(2) by (auto simp: string_token_def)
  then have c: "cur p = Some (CHR 0x22)" "skip_ws p = p"
    using assms(1) by (auto simp: cur_ahead stops_def is_json_ws_def byte_of_def intro!: skip_ws_ahead)
  have "skip_ws (moved (length (tok k)) 0 p) = moved (length (tok k)) 0 p"
    using assms(1) by (intro skip_ws_ahead) (simp add: stops_def is_json_ws_def byte_of_def)
  then show ?thesis
    using parse_string_ahead [OF assms(1,2)] c assms
    by (auto simp: member_key_def Let_def cur_ahead bump_moved)
qed

lemma object_reads_back:
  assumes "m \<noteq> []" and "\<forall>(k, v) \<in> set m. string_token f tok k \<and> reads_back f tok v
      \<and> d + json_depth v \<le> max_depth (p_limits p) \<and> (reject_duplicate_keys (p_limits p) \<longrightarrow> keys_once v)"
    and "ahead p = commas (map (entry_text tok) m) @ CHR ''}'' # r"
    and "p_nodes p + sum_list (map (json_nodes \<circ> snd) m) \<le> max_nodes (p_limits p)"
    and "reject_duplicate_keys (p_limits p) \<longrightarrow> distinct (map fst m) \<and> set (map fst m) \<inter> keys = {}"
  shows "object_loop f d acc keys p =
      Inr (JObject (foldl (\<lambda>m (k, v). bt_insert k v m) acc (map (\<lambda>(k, v). (k, value_of v)) m)),
      moved (Suc (length (commas (map (entry_text tok) m)))) (sum_list (map (json_nodes \<circ> snd) m)) p)"
  using assms
proof (induction m arbitrary: acc keys p)
  case (Cons kv m)
  obtain k v where kv: "kv = (k, v)" by fastforce
  let ?n = "length (tok k)" and ?keys = "if reject_duplicate_keys (p_limits p) then insert k keys else keys"
  let ?p1 = "moved (Suc (length (tok k))) 0 p"
  let ?p2 = "moved (length (text_of tok v)) (json_nodes v) ?p1"
  obtain r' where r': "ahead p = entry_text tok kv @ r'" "delimited r'" "stops is_json_ws r'"
    "r' = (if m = [] then CHR ''}'' # r else CHR '','' # commas (map (entry_text tok) m) @ CHR ''}'' # r)"
  proof (rule that)
    let ?r = "if m = [] then CHR ''}'' # r else CHR '','' # commas (map (entry_text tok) m) @ CHR ''}'' # r"
    show "ahead p = entry_text tok kv @ ?r" using Cons(4) by (simp add: commas_Cons)
    show "delimited ?r" "stops is_json_ws ?r" by (simp_all add: delimited_def stops_def is_json_ws_def byte_of_def)
  qed simp
  have key: "member_key f keys p = Inr ((k, ?keys), ?p1)"
    using Cons(3,6) r'(1) kv by (intro member_key_ahead [where r = "text_of tok v @ r'"]) (auto simp: entry_text_def)
  have at: "ahead ?p1 = text_of tok v @ r'" using r'(1) kv by (simp add: entry_text_def)
  have got: "parse_value f d ?p1 = Inr (value_of v, ?p2)"
    using Cons(3,5) at r'(2) kv by (simp add: reads_back_def)
  have at2: "ahead ?p2 = r'" by (simp only: ahead_moved [of _ _ ?p1] at) simp
  have skip: "skip_ws ?p2 = ?p2" by (rule skip_ws_ahead) (simp only: at2 r'(3))
  show ?case
  proof (cases "m = []")
    case True
    then show ?thesis using key got skip at2 r'(4) kv
      by (subst object_loop.simps) (simp add: cur_ahead bump_moved Let_def entry_text_def ac_simps)
  next
    case False
    have "object_loop f d (bt_insert k (value_of v) acc) ?keys (moved 1 0 ?p2) =
      Inr (JObject (foldl (\<lambda>m (k, v). bt_insert k v m) (bt_insert k (value_of v) acc) (map (\<lambda>(k, v). (k, value_of v)) m)),
        moved (Suc (length (commas (map (entry_text tok) m)))) (sum_list (map (json_nodes \<circ> snd) m)) (moved 1 0 ?p2))"
    proof (rule Cons.IH)
      show "ahead (moved 1 0 ?p2) = commas (map (entry_text tok) m) @ CHR ''}'' # r"
        using False r'(4) by (simp only: ahead_moved [of _ _ ?p2] at2) simp
    qed (use False Cons(3,5,6) kv in auto)
    then show ?thesis using False key got skip at2 r'(4) kv
      by (subst object_loop.simps) (simp add: cur_ahead bump_moved Let_def entry_text_def commas_Cons ac_simps)
  qed
qed simp

lemma value_reads_back: "writable f tok v \<Longrightarrow> reads_back f tok v"
proof (induction v rule: json.induct)
  case (JArray vs)
  show ?case unfolding reads_back_def
  proof (intro allI impI)
    fix p r d assume *: "ahead p = text_of tok (JArray vs) @ r" "delimited r"
      "d + json_depth (JArray vs) \<le> max_depth (p_limits p)" "p_nodes p + json_nodes (JArray vs) \<le> max_nodes (p_limits p)"
      "reject_duplicate_keys (p_limits p) \<longrightarrow> keys_once (JArray vs)"
    obtain c cs where head: "skip_ws p = p" "cur p = Some c" "starts_value c" using text_ahead [OF JArray.prems *(1)] .
    obtain b where b: "max_depth (p_limits p) = Suc b" "d \<le> b" using *(3) by (cases "max_depth (p_limits p)") auto
    then have depth: "\<forall>v \<in> set vs. Suc d + json_depth v \<le> max_depth (p_limits p)"
      using *(3) json_depth_array_le [of vs "b - d"] by (auto dest!: bspec)
    let ?p = "moved 1 1 p"
    show "parse_value f d p = Inr (value_of (JArray vs), moved (length (text_of tok (JArray vs))) (json_nodes (JArray vs)) p)"
    proof (cases "vs = []")
      case True
      then have "open_bracket (moved 0 1 p) = ?p"
        using *(1) by (simp add: open_bracket_def bump_moved skip_ws_ahead stops_def is_json_ws_def byte_of_def)
      then show ?thesis using True * head b
        by (subst parse_value.simps) (auto simp: cur_ahead count_node_moved bump_moved Let_def numeral_2_eq_2)
    next
      case False
      then obtain v vs' where vs: "vs = v # vs'" by (cases vs) auto
      then obtain rest where rest: "ahead ?p = text_of tok v @ rest"
        using *(1) by (cases "vs' = []") (auto simp: commas_Cons)
      obtain c' cs' where c': "skip_ws ?p = ?p" "cur ?p = Some c'" "starts_value c'" "text_of tok v = c' # cs'"
        by (rule text_ahead [OF _ rest]) (use JArray.prems vs in auto)
      have o: "open_bracket (moved 0 1 p) = ?p" using c'(1) by (simp add: open_bracket_def bump_moved)
      have "array_loop f (Suc d) [] ?p = Inr (JArray ([] @ map value_of vs),
          moved (Suc (length (commas (map (text_of tok) vs)))) (sum_list (map json_nodes vs)) ?p)"
        using False JArray *(1,4,5) depth by (intro array_reads_back) auto
      then show ?thesis using * head b o c'
        by (subst parse_value.simps) (auto simp: cur_ahead count_node_moved bump_moved Let_def starts_value_def)
    qed
  qed
next
  case (JObject m)
  show ?case unfolding reads_back_def
  proof (intro allI impI)
    fix p r d assume *: "ahead p = text_of tok (JObject m) @ r" "delimited r"
      "d + json_depth (JObject m) \<le> max_depth (p_limits p)" "p_nodes p + json_nodes (JObject m) \<le> max_nodes (p_limits p)"
      "reject_duplicate_keys (p_limits p) \<longrightarrow> keys_once (JObject m)"
    have mt: "(\<lambda>(k, v). tok k @ CHR '':'' # text_of tok v) = entry_text tok" by (auto simp: entry_text_def)
    have nd: "sum_list (map (\<lambda>(k, v). json_nodes v) m) = sum_list (map (json_nodes \<circ> snd) m)"
      by (simp add: comp_def case_prod_unfold)
    obtain c cs where head: "skip_ws p = p" "cur p = Some c" "starts_value c" using text_ahead [OF JObject.prems *(1)] .
    obtain b where b: "max_depth (p_limits p) = Suc b" "d \<le> b" using *(3) by (cases "max_depth (p_limits p)") auto
    then have depth: "\<forall>(k, v) \<in> set m. Suc d + json_depth v \<le> max_depth (p_limits p)"
      using *(3) json_depth_object_le [of m "b - d"] by (auto dest!: bspec)
    let ?p = "moved 1 1 p"
    show "parse_value f d p = Inr (value_of (JObject m), moved (length (text_of tok (JObject m))) (json_nodes (JObject m)) p)"
    proof (cases "m = []")
      case True
      then have "open_bracket (moved 0 1 p) = ?p"
        using *(1) by (simp add: open_bracket_def bump_moved skip_ws_ahead stops_def is_json_ws_def byte_of_def)
      then show ?thesis using True * head b
        by (subst parse_value.simps) (auto simp: cur_ahead count_node_moved bump_moved Let_def numeral_2_eq_2 bt_of_list_def)
    next
      case False
      then obtain k v m' where m: "m = (k, v) # m'" by (cases m) auto
      then obtain rest where "ahead ?p = CHR 0x22 # rest"
        using *(1) JObject.prems by (cases "m' = []") (auto simp: commas_Cons string_token_def)
      then have c': "cur ?p = Some (CHR 0x22)" "skip_ws ?p = ?p"
        by (auto simp: cur_ahead stops_def is_json_ws_def byte_of_def intro!: skip_ws_ahead)
      have o: "open_bracket (moved 0 1 p) = ?p" using c'(2) by (simp add: open_bracket_def bump_moved)
      have "object_loop f (Suc d) [] {} ?p = Inr (JObject (foldl (\<lambda>m (k, v). bt_insert k v m) [] (map (\<lambda>(k, v). (k, value_of v)) m)),
          moved (Suc (length (commas (map (entry_text tok) m)))) (sum_list (map (json_nodes \<circ> snd) m)) ?p)"
      proof (rule object_reads_back [OF False])
        show "\<forall>(k, v) \<in> set m. string_token f tok k \<and> reads_back f tok v
            \<and> Suc d + json_depth v \<le> max_depth (p_limits ?p) \<and> (reject_duplicate_keys (p_limits ?p) \<longrightarrow> keys_once v)"
        proof (intro ballI case_prodI2)
          fix kv k v assume kv: "kv \<in> set m" "kv = (k, v)"
          then have "v \<in> Basic_BNFs.snds kv" by (simp add: prod_set_simps)
          then have "writable f tok v \<Longrightarrow> reads_back f tok v" by (rule JObject.IH [OF kv(1)])
          then show "string_token f tok k \<and> reads_back f tok v
              \<and> Suc d + json_depth v \<le> max_depth (p_limits ?p) \<and> (reject_duplicate_keys (p_limits ?p) \<longrightarrow> keys_once v)"
            using JObject.prems depth *(5) kv by auto
        qed
        show "ahead ?p = commas (map (entry_text tok) m) @ CHR ''}'' # r" using *(1) mt by simp
        show "p_nodes ?p + sum_list (map (json_nodes \<circ> snd) m) \<le> max_nodes (p_limits ?p)" using *(4) nd by simp
        show "reject_duplicate_keys (p_limits ?p) \<longrightarrow> distinct (map fst m) \<and> set (map fst m) \<inter> {} = {}"
          using *(5) by simp
      qed
      then show ?thesis using * head b o c' mt nd
        by (subst parse_value.simps) (auto simp: cur_ahead count_node_moved bump_moved Let_def bt_of_list_def)
    qed
  qed
next
  case (JNumber s)
  then have "number_token s" by simp
  show ?case unfolding reads_back_def
  proof (intro allI impI)
    fix p r d assume *: "ahead p = text_of tok (JNumber s) @ r" "delimited r"
      "p_nodes p + json_nodes (JNumber s) \<le> max_nodes (p_limits p)"
    obtain c cs where head: "skip_ws p = p" "cur p = Some c" "text_of tok (JNumber s) = c # cs"
      using text_ahead [OF JNumber *(1)] .
    have c: "c = CHR ''-'' \<or> is_ascii_digit c"
      using \<open>number_token s\<close> head(3) by (auto simp: number_token_def integer_text_def elim!: digit_string_cases)
    then have "c \<notin> {CHR ''{'', CHR ''['', CHR 0x22, CHR ''t'', CHR ''f'', CHR ''n''}"
      by (auto simp: is_ascii_digit_def byte_of_def)
    moreover have "parse_number (moved 0 1 p) = Inr (JNumber s, moved (length s) 0 (moved 0 1 p))"
      using * \<open>number_token s\<close> by (intro parse_number_ahead) simp_all
    moreover have "cur (moved 0 1 p) = Some c" using head(2) by (simp add: cur_def)
    ultimately show "parse_value f d p = Inr (value_of (JNumber s), moved (length (text_of tok (JNumber s))) (json_nodes (JNumber s)) p)"
      using * head(1,2) c by (subst parse_value.simps) (simp add: count_node_moved Let_def)
  qed
next
  case (JString s)
  then have "string_token f tok s" by simp
  show ?case unfolding reads_back_def
  proof (intro allI impI)
    fix p r d assume *: "ahead p = text_of tok (JString s) @ r" "p_nodes p + json_nodes (JString s) \<le> max_nodes (p_limits p)"
    obtain c cs where head: "skip_ws p = p" "cur p = Some c" "text_of tok (JString s) = c # cs"
      using text_ahead [OF JString *(1)] .
    have "parse_string f (moved 0 1 p) = Inr (s, moved (length (tok s)) 0 (moved 0 1 p))"
      using * \<open>string_token f tok s\<close> by (intro parse_string_ahead) simp_all
    moreover have "cur (moved 0 1 p) = Some (CHR 0x22)"
      using head(2,3) \<open>string_token f tok s\<close> by (auto simp: cur_def string_token_def)
    ultimately show "parse_value f d p = Inr (value_of (JString s), moved (length (text_of tok (JString s))) (json_nodes (JString s)) p)"
      using * head(1) by (subst parse_value.simps) (simp add: count_node_moved Let_def)
  qed
qed (auto simp: reads_back_def parse_value.simps [of f] Let_def count_node_moved skip_ws_ahead stops_def is_json_ws_def byte_of_def
    cur_ahead parse_literal_ahead)

lemma parse_text_of:
  assumes "writable f tok v" and "length (text_of tok v) \<le> max_bytes l"
    and "json_depth v \<le> max_depth l" and "json_nodes v \<le> max_nodes l"
    and "reject_duplicate_keys l \<longrightarrow> keys_once v"
  shows "parse f (text_of tok v) l = Inr (value_of v)"
proof -
  let ?p = "\<lparr>p_text = text_of tok v, p_at = 0, p_nodes = 0, p_limits = l\<rparr>"
  let ?q = "moved (length (text_of tok v)) (json_nodes v) ?p"
  have "ahead ?p = text_of tok v @ []" "delimited []" by (simp_all add: ahead_def delimited_def)
  then have "parse_value f 0 ?p = Inr (value_of v, ?q)"
    using value_reads_back [OF assms(1)] assms(3-5) by (simp add: reads_back_def)
  moreover have "skip_ws ?q = ?q" by (intro skip_ws_ahead) (simp add: ahead_def stops_def)
  ultimately show ?thesis using assms(2) by (auto simp: parse_Inr)
qed

text \<open>A value that has its members in order already is what is read.\<close>

lemma value_of_ok: "json_ok v \<Longrightarrow> value_of v = v \<and> keys_once v"
proof (induction v rule: json.induct)
  case (JArray vs)
  then show ?case by (simp add: map_idI)
next
  case (JObject m)
  then have "value_of v = v \<and> keys_once v" if "(k, v) \<in> set m" for k v
    using that by (auto simp: prod_set_simps)
  then have "map (\<lambda>(k, v). (k, value_of v)) m = m" "\<forall>(k, v) \<in> set m. keys_once v" by (auto intro!: map_idI)
  then show ?case using JObject.prems by (simp add: bt_of_list_idem bt_ok_distinct)
qed simp_all


lemma quoted_token: "token_body s \<Longrightarrow> string_token sample_strtok (\<lambda>s. CHR 0x22 # s @ [CHR 0x22]) s"
  by (auto simp: string_token_def sample_strtok_def)

definition sample_tree :: json where
  "sample_tree = JObject [(''b'', JNumber ''-1.5e3''), (''a'', JArray [JBool True, JNull]), (''c'', JString ''x'')]"

lemma sample_number_token: "number_token ''-1.5e3''"
proof -
  have "digit_string ''1''" "digit_string ''5''" "digit_string ''3''"
    by (simp_all add: digit_string_def is_ascii_digit_def byte_of_def)
  then have "integer_text ''1''" "fraction_text ''.5''" "exponent_text (CHR ''e'' # [] @ ''3'')"
    unfolding integer_text_def fraction_text_def exponent_text_def by (simp, simp, blast intro: list.set_intros)
  then show ?thesis
    unfolding number_token_def
    by (intro exI [of _ "''-''"] exI [of _ "''1''"] exI [of _ "''.5''"] exI [of _ "''e3''"]) simp
qed


end
