(* ===== verification/Negotiation_Session.thy ===== *)
theory Negotiation_Session
  imports Negotiation_Theorems Json_Text
begin

text \<open>
  Whole negotiated sessions: what happens to the adapter in any of them, and that an authorised one is
  the replay of an ordinary session with the adapter as the computer.
\<close>

section \<open>A session against an honest peer\<close>

text \<open>The first error of the session, its cleanup and the closing of the connection.\<close>

definition session_end :: "negotiated_error + unit \<Rightarrow> error + int \<Rightarrow> session_failure + unit" where
  "session_end r closed =
     first_error (map_sum Failed id r) (case closed of Inl e \<Rightarrow> Inl (Failed (Legacy e)) | Inr _ \<Rightarrow> Inr ())"

lemma run_negotiated_end:
  assumes "run_negotiated_open w reader config registration sel c t = (map_sum Failed id r, c', t')"
  obtains t'' where "run_negotiated w reader config registration sel c t
      = (session_end r (fst (close t')), c', t'')" "outgoing (t_stream t'') = outgoing (t_stream t')"
proof (rule that)
  let ?t = "drop_transport (snd (close t'))"
  show "outgoing (t_stream ?t) = outgoing (t_stream t')" by (simp add: drop_outgoing close_streams)
  show "run_negotiated w reader config registration sel c t = (session_end r (fst (close t')), c', ?t)"
    using assms by (cases r) (simp_all add: run_negotiated_def session_end_def split: prod.split)
qed

text \<open>
  C36. However a negotiated session goes, and whichever of its callbacks fail or panic, the adapter
  lives in good order: nothing of the application runs before the peer has authorised it; a binding
  that was made is disposed of exactly once, as the last call; it computes only after it has accepted
  the configuration and never after it has failed; and the session succeeds only if every call did.
  The connection is closed at the end.
\<close>

theorem adapter_life:
  assumes "run_negotiated w reader config registration sel c t = (r, c', t')" and "transport_ok t"
  shows "\<exists>log. run_negotiated w reader config registration (logged_selection sel) (c, []) t = (r, (c', log), t')
    \<and> orderly (worked r) log \<and> t_closed t'"
  using run_negotiated_logged [OF assms(1)] run_negotiated_closes [OF assms] by blast

lemma negotiated_replays:
  assumes "prepare w sel = Inr (request, index)"
    and "encode_registration w reader registration request = Inr encoded"
    and "validate_protocol_line encoded = Inr ()"
    and "session_ready t (vline # lines)" and "outgoing (t_stream t) = []"
    and "decode_authorization w vline request (sel_fallback sel \<noteq> None) = Inr authority"
    and "create_binding sel index config authority c = (Inr b, c1)"
    and "lb_digest b = expected_digest request" and "lb_check b c1 config = (Returned (Inr ()), c2)"
    and "map (decode_message w) lines = map Inr ms"
    and "replay (\<lambda>e. Failed (Legacy e)) (compute_step b) initial_stepping c2 ms = (r, c3, reports)"
    and "\<forall>s \<in> set reports. validate_protocol_line (encode_report_state w s) = Inr ()"
    and "adapter_dispose b c3 = (cleanup, c4)"
  shows "\<exists>t'. run_negotiated w reader config registration sel c t
      = (session_end (first_error (catch_unwind r) cleanup) (fst (close t)), c4, t')
    \<and> outgoing (t_stream t') = wire_lines (encoded # map (encode_report_state w) reports)"
proof -
  obtain t1 where t1: "send t encoded = (Inr (), t1)" "session_ready t1 (vline # lines)"
    "outgoing (t_stream t1) = outgoing (t_stream t) @ encoded @ [newline]"
    by (rule session_ready_send [OF assms(4,3)])
  obtain t2 where t2: "transport_recv t1 = (Inr (Some vline), t2)" "session_ready t2 lines"
    "outgoing (t_stream t2) = outgoing (t_stream t1)"
    by (rule session_ready_recv [OF t1(2)])
  obtain t3 where t3: "run_stepping_loop w (\<lambda>e. Failed (Legacy e)) (compute_step b) initial_stepping c2 t2 = (r, c3, t3)"
    "outgoing (t_stream t3) = outgoing (t_stream t2) @ wire_lines (map (encode_report_state w) reports)"
    using stepping_loop_replays [OF t2(2) assms(10-12)] by blast
  have closing: "fst (close t3) = fst (close t)"
    by (rule stepping_keeps [OF closing_kept t3(1)])
      (rule kept_transport_recv [OF closing_kept t2(1)], rule kept_send [OF closing_kept t1(1)], rule refl)
  have "use_binding w (selection_key sel request) config b c1 t2 = (catch_unwind r, c3, t3)"
    using assms(8,9) t3(1) by (simp add: use_binding_def selection_key_def)
  then have "use_and_dispose w (selection_key sel request) config b c1 t2
      = (map_sum Failed id (first_error (catch_unwind r) cleanup), c4, t3)"
    using assms(13) by (simp add: use_and_dispose_def split: sum.split)
  then have "run_negotiated_open w reader config registration sel c t
      = (map_sum Failed id (first_error (catch_unwind r) cleanup), c4, t3)"
    using assms(1,2,6,7) t1(1) t2(1) by (simp add: run_negotiated_open_def run_authorized_def)
  then obtain t4 where "run_negotiated w reader config registration sel c t
      = (session_end (first_error (catch_unwind r) cleanup) (fst (close t3)), c4, t4)"
    "outgoing (t_stream t4) = outgoing (t_stream t3)"
    by (rule run_negotiated_end)
  then show ?thesis using closing t1(3) t2(3) t3(2) assms(5) by (simp add: wire_lines_def)
qed

text \<open>
  C37. An authorised session is the replay of the messages of the peer with the adapter as the
  computer: once the registration is answered by an authorisation, and the adapter is made, has the
  digest of the key and accepts the configuration, the session sends the registration and the
  reports of the replay and nothing else, disposes of the adapter, and ends with the first error of
  the replay, the disposal and the closing.
\<close>

theorem negotiated_session_is_replay:
  assumes "prepare w sel = Inr (request, index)"
    and "encode_registration w reader registration request = Inr encoded"
    and "validate_protocol_line encoded = Inr ()"
    and "session_ready t (vline # lines)" and "outgoing (t_stream t) = []"
    and "decode_authorization w vline request (sel_fallback sel \<noteq> None) = Inr authority"
    and "create_binding sel index config authority c = (Inr b, c1)"
    and "lb_digest b = expected_digest request" and "lb_check b c1 config = (Returned (Inr ()), c2)"
    and "map (decode_message w) lines = map Inr ms"
    and "replay (\<lambda>e. Failed (Legacy e)) (compute_step b) initial_stepping c2 ms = (r, c3, reports)"
    and "\<forall>s \<in> set reports. validate_protocol_line (encode_report_state w s) = Inr ()"
    and "adapter_dispose b c3 = (cleanup, c4)"
  shows "\<exists>t'. run_negotiated w reader config registration sel c t
      = (session_end (first_error (catch_unwind r) cleanup) (fst (close t)), c4, t')
    \<and> outgoing (t_stream t') = wire_lines (encoded # map (encode_report_state w) reports)"
  by (rule negotiated_replays [OF assms])

section \<open>A small negotiated session\<close>

definition sample_hex :: string where
  "sample_hex = concat (replicate 32 ''ab'')"

definition sample_contract :: json where
  "sample_contract = JObject [(''schema'', JString contract_schema), (''interfaceVersion'', JString ''1''),
     (''model'', JObject [(''module'', JString ''M''), (''source'', JString ''M.tla'')]),
     (''wire'', JObject [(''actionVariable'', JString ''a''), (''parameterVariable'', JNull)]),
     (''initializers'', JArray []), (''actions'', JArray []), (''observations'', JArray [])]"

definition counting_binding :: "nat local_binding" where
  "counting_binding =
     \<lparr>lb_digest = replicate 32 0xAB, lb_compute = (\<lambda>c _ _ _. (Returned (Inr [(''n'', VInt (int c))]), Suc c)),
      lb_check = (\<lambda>c _. (Returned (Inr ()), c)), lb_dispose = (\<lambda>c. (Returned (Inr ()), c + 10))\<rparr>"

definition counting_key :: compiled_adapter_key where
  "counting_key = \<lparr>key_digest = replicate 32 0xAB, adapter_id = ''counter'', target_profile = ''host'',
     contract_version = state_computer_version\<rparr>"

definition counting_selection :: "nat adapter_selection" where
  "counting_selection =
     \<lparr>sel_metadata = \<lparr>semantic_digest = sample_hex, contract_json = text_of quoted sample_contract\<rparr>,
      sel_adapter_id = ''counter'', sel_target_profile = ''host'', sel_version = state_computer_version,
      sel_registry = [\<lparr>reg_key = counting_key, reg_factory = (\<lambda>c _. (Returned (Inr counting_binding), c))\<rparr>],
      sel_policy = Require, sel_fallback = None\<rparr>"

definition matched_reply :: json where
  "matched_reply = JObject [(''proto_step'', JString ''spec_validated''), (''result'', JString ''valid''),
     (''modelInterface'', JObject [(''schema'', JString negotiation_schema),
       (''status'', JString ''matched''), (''descriptorSchema'', JString descriptor_schema_name),
       (''semanticDigest'', JString (''sha256:'' @ sample_hex))])]"

definition sample_reader :: "string \<Rightarrow> string + json" where
  "sample_reader s = Inr (JObject [(''proto_step'', JString s)])"

definition negotiated_lines :: "string list" where
  "negotiated_lines = [text_of quoted matched_reply, sample_line, step_line ''step_ok'', step_line ''all_steps_done'']"

definition negotiated_session :: transport where
  "negotiated_session = sample_transport (wire_lines negotiated_lines)"

definition sample_request :: "verify_request" where
  "sample_request = \<lparr>rq_policy = Require, expected_digest = replicate 32 0xAB, rq_contract = value_of sample_contract\<rparr>"

lemma sample_trees:
  "strict_parse sample_wire (text_of quoted sample_contract) = Inr (value_of sample_contract)"
  "strict_parse sample_wire (text_of quoted matched_reply) = Inr (value_of matched_reply)"
proof -
  have tok: "quoted = (\<lambda>s. CHR 0x22 # s @ [CHR 0x22])" by (auto simp: quoted_def)
  have "parse sample_strtok (text_of quoted sample_contract) strict_limits = Inr (value_of sample_contract)"
  proof (rule parse_text_of)
    show "writable sample_strtok quoted sample_contract"
      by (simp add: sample_contract_def tok quoted_token byte_of_def contract_schema_def)
  qed code_simp+
  moreover have "parse sample_strtok (text_of quoted matched_reply) strict_limits = Inr (value_of matched_reply)"
  proof (rule parse_text_of)
    show "writable sample_strtok quoted matched_reply"
      by (simp add: matched_reply_def tok quoted_token byte_of_def negotiation_schema_def descriptor_schema_name_def
          sample_hex_def eval_nat_numeral)
  qed code_simp+
  ultimately show "strict_parse sample_wire (text_of quoted sample_contract) = Inr (value_of sample_contract)"
    "strict_parse sample_wire (text_of quoted matched_reply) = Inr (value_of matched_reply)"
    by (simp_all add: strict_parse_def sample_wire_def)
qed

lemma sample_stages:
  "from_hex sample_hex = Inr (replicate 32 0xAB)"
  "validate_contract (value_of sample_contract) = Inr ()"
  "resolve_index (sel_registry counting_selection) (selection_key counting_selection sample_request) = Inr 0"
  "registration_reply (value_of matched_reply) = Inr SpecValid"
  "decide_reply sample_request False (jfield (value_of matched_reply) ''modelInterface'')
     = Inr (AMatched (replicate 32 0xAB) descriptor_schema_name)"
  "encode_registration sample_wire sample_reader (Register sample_config sample_trace_config None) sample_request
     = Inr ''register''"
  by code_simp+

lemma sample_prepared: "prepare sample_wire counting_selection = Inr (sample_request, 0)"
proof -
  have "make_verify_request sample_wire (sel_metadata counting_selection) (sel_policy counting_selection) = Inr sample_request"
    using sample_trees(1) sample_stages(1,2)
    by (simp add: make_verify_request_def counting_selection_def sample_request_def)
  moreover have "sel_version counting_selection = state_computer_version" by (simp add: counting_selection_def)
  ultimately show ?thesis using sample_stages(3) by (simp add: prepare_def)
qed

lemma sample_authorized:
  "decode_authorization sample_wire (text_of quoted matched_reply) sample_request (sel_fallback counting_selection \<noteq> None)
     = Inr (AMatched (replicate 32 0xAB) descriptor_schema_name)"
proof -
  have "as_object (value_of matched_reply) \<noteq> None" by (simp add: matched_reply_def)
  moreover have "jfield (value_of matched_reply) ''modelInterface'' \<noteq> JNull" by code_simp
  ultimately show ?thesis
    using sample_trees(2) sample_stages(4,5) by (simp add: decode_authorization_def counting_selection_def)
qed

lemma negotiated_lines_faithful: "list_all faithful_line negotiated_lines"
  by code_simp

lemma sample_ready:
  "session_ready negotiated_session negotiated_lines" "transport_ok negotiated_session"
  "outgoing (t_stream negotiated_session) = []" "fst (close negotiated_session) = Inr 0"
  using negotiated_lines_faithful
  by (simp_all add: session_ready_def negotiated_session_def sample_transport_def sample_stream_def
      open_transport_def can_write_def list_all_iff transport_ok_def close_def Let_def shutdown_socket_def)

lemma sample_adapter:
  "create_binding counting_selection 0 config (AMatched d s) c = (Inr counting_binding, c)"
  "lb_digest counting_binding = expected_digest sample_request"
  "lb_check counting_binding c config = (Returned (Inr ()), c)"
  "adapter_dispose counting_binding c = (Inr (), c + 10)"
  by (simp_all add: create_binding_def counting_selection_def counting_binding_def sample_request_def adapter_dispose_def)

lemma sample_replayed:
  "validate_protocol_line ''register'' = Inr ()"
  "replay (\<lambda>e. Failed (Legacy e)) (compute_step counting_binding) initial_stepping 0 sample_messages
     = (Inr (), 1, [ [(''n'', VInt 0)] ])"
  by code_simp+

theorem adapter_life_witness:
  "\<exists>r c' t' log. run_negotiated sample_wire sample_reader sample_config (Register sample_config sample_trace_config None)
      (logged_selection counting_selection) (0, []) negotiated_session = (r, (c', log), t')
    \<and> orderly (worked r) log \<and> t_closed t'"
proof -
  obtain r c' t' where "run_negotiated sample_wire sample_reader sample_config
      (Register sample_config sample_trace_config None) counting_selection 0 negotiated_session = (r, c', t')"
    by (metis prod_cases3)
  from adapter_life [OF this sample_ready(2)] show ?thesis by (elim exE) (intro exI)
qed

theorem negotiated_session_is_replay_witness:
  "\<exists>t'. run_negotiated sample_wire sample_reader sample_config (Register sample_config sample_trace_config None)
      counting_selection 0 negotiated_session = (Inr (), 11, t')
    \<and> outgoing (t_stream t') = wire_lines [''register'', ''report'']"
proof -
  have "encode_report_state sample_wire [(''n'', VInt 0)] = ''report''" by code_simp
  then show ?thesis
    using negotiated_session_is_replay [OF sample_prepared sample_stages(6) sample_replayed(1)
        sample_ready(1) [unfolded negotiated_lines_def] sample_ready(3) sample_authorized sample_adapter(1,2,3)
        sample_session_decodes(2) sample_replayed(2) sample_session_sends(2) sample_adapter(4)]
    by (simp add: sample_ready(4) session_end_def first_error_def catch_unwind_def)
qed

end
