(* ===== verification/Schedule_Binding.thy ===== *)
theory Schedule_Binding
  imports Schedule_Receipt Negotiation_Session
begin

text \<open>
  \<^verbatim>\<open>src/schedule_binding.rs\<close>: a session that owns one scheduled execution after another for a
  generated adapter, keeps their receipts, and is disposed of once; and the replay of traces through
  such a session with the verdict of the mirror.
\<close>

section \<open>Sessions\<close>

record binding_session =
  bs_schedule :: schedule
  bs_adapter :: adapter
  bs_policy :: policy
  bs_execution :: "run option"
  executions :: "json list"
  receipt_bytes :: nat
  initializations :: nat
  disposals :: nat
  disposed :: bool
  retained :: bool
  receipt_complete :: bool
  disposal :: "binding_error + unit"

definition lifecycle_error :: "string \<Rightarrow> string \<Rightarrow> binding_error" where
  "lifecycle_error code message = \<lparr>be_code = code, be_message = message\<rparr>"

definition session_new :: "schedule \<Rightarrow> adapter \<Rightarrow> policy \<Rightarrow> binding_session" where
  "session_new sch ad p =
     \<lparr>bs_schedule = sch, bs_adapter = ad, bs_policy = p, bs_execution = None, executions = [], receipt_bytes = 0,
      initializations = 0, disposals = 0, disposed = False, retained = False, receipt_complete = True,
      disposal = Inr ()\<rparr>"

definition receipt_limit :: nat where
  "receipt_limit = 16 * 1048576"

definition exceeded_row :: json where
  "exceeded_row = json_obj
     [(''passed'', JBool False), (''evidenceError'', JString ''receipt_byte_bound_exceeded'')]"

definition row_bytes :: "tools \<Rightarrow> json \<Rightarrow> nat" where
  "row_bytes t row = length (render_of t row)"

definition retain :: "tools \<Rightarrow> binding_session \<Rightarrow> binding_session" where
  "retain t s =
     (if retained s then s
      else
        (case bs_execution s of
           None \<Rightarrow> s
         | Some r \<Rightarrow>
             (case receipt t r of
                (row, r') \<Rightarrow>
                  (let s1 = s\<lparr>bs_execution := Some r', retained := True\<rparr>
                   in if receipt_bytes s1 + row_bytes t row > receipt_limit then
                        s1\<lparr>receipt_complete := False, executions := executions s1 @ [exceeded_row]\<rparr>
                      else s1\<lparr>receipt_bytes := receipt_bytes s1 + row_bytes t row,
                              executions := executions s1 @ [row]\<rparr>))))"

text \<open>The names \<^verbatim>\<open>{:?}\<close> shows.\<close>

fun outcome_debug :: "outcome \<Rightarrow> string" where
  "outcome_debug Completed = ''Completed''"
| "outcome_debug InvalidSchedule = ''InvalidSchedule''"
| "outcome_debug IncompatibleIdentity = ''IncompatibleIdentity''"
| "outcome_debug Cancelled = ''Cancelled''"
| "outcome_debug TimedOut = ''TimedOut''"
| "outcome_debug UnexpectedCheckpoint = ''UnexpectedCheckpoint''"
| "outcome_debug UncontrolledActor = ''UncontrolledActor''"
| "outcome_debug ApplicationFailed = ''ApplicationFailed''"
| "outcome_debug ObservationFailed = ''ObservationFailed''"
| "outcome_debug ResourceFailed = ''ResourceFailed''"

fun cleanup_debug :: "cleanup \<Rightarrow> string" where
  "cleanup_debug NotStarted = ''NotStarted''"
| "cleanup_debug Confirmed = ''Confirmed''"
| "cleanup_debug Incomplete = ''Incomplete''"
| "cleanup_debug TeardownFailed = ''TeardownFailed''"

definition outcome_error :: "tools \<Rightarrow> string \<Rightarrow> report \<Rightarrow> binding_error" where
  "outcome_error t code rep =
     lifecycle_error code (outcome_debug (r_outcome rep) @ '': '' @ detail_text t (r_detail rep))"

text \<open>What a fresh execution finds: the answers to starting it, a cancellation, its batches.\<close>

type_synonym start_inputs = "start_env \<times> bool \<times> batch list"

definition begin_execution ::
    "tools \<Rightarrow> caller \<Rightarrow> start_inputs \<Rightarrow> binding_session \<Rightarrow> (binding_error + unit) \<times> binding_session" where
  "begin_execution t ctx given s =
     (case given of
        (e, is_cancelled, bs) \<Rightarrow>
          (let r = locked (start_schedule (codec_of t) e ctx (bs_schedule s) (bs_adapter s) (bs_policy s) is_cancelled bs);
               rep = report (shared r);
               s' = s\<lparr>initializations := initializations s + 1, retained := False, bs_execution := Some r\<rparr>
           in (if r_outcome rep \<noteq> Completed then Inl (outcome_error t ''schedule_admission_failed'' rep) else Inr (), s')))"

text \<open>The execution before is finished and kept; dropping it then leaves nothing to join.\<close>

definition session_initialize ::
    "tools \<Rightarrow> caller \<Rightarrow> start_inputs \<Rightarrow> binding_session \<Rightarrow> (binding_error + unit) \<times> binding_session" where
  "session_initialize t ctx given s =
     (if disposed s \<or> initializations s \<ge> 64 then
        (Inl (lifecycle_error ''schedule_lifecycle_invalid'' ''disposed session or initialization limit''), s)
      else
        (case bs_execution s of
           None \<Rightarrow> begin_execution t ctx given s
         | Some r \<Rightarrow>
             (case finish ctx r of
                (Inl e, r') \<Rightarrow>
                  (Inl (lifecycle_error ''schedule_lifecycle_invalid'' e), s\<lparr>bs_execution := Some r'\<rparr>)
              | (Inr rep, r') \<Rightarrow>
                  (let s1 = retain t (s\<lparr>bs_execution := Some r'\<rparr>)
                   in if \<not> passed rep \<or> \<not> receipt_complete s1 then
                        (Inl (lifecycle_error ''schedule_previous_incomplete'' ''previous execution incomplete''), s1)
                      else begin_execution t ctx given (s1\<lparr>bs_execution := None\<rparr>)))))"

definition session_advance ::
    "tools \<Rightarrow> caller \<Rightarrow> step \<Rightarrow> binding_session \<Rightarrow> (binding_error + unit) \<times> binding_session" where
  "session_advance t ctx st s =
     (if disposed s then (Inl (lifecycle_error ''schedule_lifecycle_invalid'' ''session disposed''), s)
      else
        (case bs_execution s of
           None \<Rightarrow> (Inl (lifecycle_error ''schedule_lifecycle_invalid'' ''session not initialized''), s)
         | Some r \<Rightarrow>
             (case advance (codec_of t) ctx st r of
                (Inl e, r') \<Rightarrow>
                  (Inl (lifecycle_error ''schedule_lifecycle_invalid'' e), s\<lparr>bs_execution := Some r'\<rparr>)
              | (Inr rep, r') \<Rightarrow>
                  (if r_outcome rep \<noteq> Completed then Inl (outcome_error t ''schedule_interval_failed'' rep) else Inr (),
                   s\<lparr>bs_execution := Some r'\<rparr>))))"

definition session_observation :: "tools \<Rightarrow> binding_session \<Rightarrow> (binding_error + json) \<times> binding_session" where
  "session_observation t s =
     (if disposed s then (Inl (lifecycle_error ''schedule_lifecycle_invalid'' ''session disposed''), s)
      else
        (case bs_execution s of
           None \<Rightarrow> (Inl (lifecycle_error ''schedule_lifecycle_invalid'' ''session not initialized''), s)
         | Some r \<Rightarrow>
             (let r' = locked r; rep = report (shared r')
              in (if r_outcome rep \<noteq> Completed then
                    Inl (lifecycle_error ''schedule_observation_unavailable'' (detail_text t (r_detail rep)))
                  else if observations rep = [] then
                    Inl (lifecycle_error ''schedule_observation_unavailable'' ''no actual observation'')
                  else Inr (jfield (last (observations rep)) ''state''),
                  s\<lparr>bs_execution := Some r'\<rparr>))))"

definition close_execution :: "caller \<Rightarrow> policy \<Rightarrow> run \<Rightarrow> (string + report) \<times> run" where
  "close_execution ctx p r =
     (let r' = locked r
      in if schedule_completed (report (shared r')) then finish ctx r' else cleanup_run ctx (cleanup_timeout p) r')"

definition session_dispose ::
    "tools \<Rightarrow> caller \<Rightarrow> binding_session \<Rightarrow> (binding_error + unit) \<times> binding_session" where
  "session_dispose t ctx s =
     (if disposed s then (disposal s, s)
      else
        (let s1 = s\<lparr>disposed := True, disposals := disposals s + 1\<rparr>
         in case bs_execution s1 of
              None \<Rightarrow> (disposal s1, s1)
            | Some r \<Rightarrow>
                (case close_execution ctx (bs_policy s1) r of
                   (closing, r') \<Rightarrow>
                     (let d = (case closing of
                                 Inr rep \<Rightarrow>
                                   if r_cleanup rep = Confirmed then disposal s1
                                   else Inl (lifecycle_error ''schedule_cleanup_failed'' (cleanup_debug (r_cleanup rep)))
                               | Inl e \<Rightarrow> Inl (lifecycle_error ''schedule_cleanup_failed'' e));
                          s2 = retain t (s1\<lparr>bs_execution := Some r', disposal := d\<rparr>);
                          s3 = (if \<not> receipt_complete s2 then
                                  s2\<lparr>disposal := Inl (lifecycle_error ''schedule_cleanup_failed'' ''receipt bound exceeded'')\<rparr>
                                else s2)
                      in (disposal s3, s3)))))"

text \<open>The receipt kept last is written anew.\<close>

definition renew_receipt :: "tools \<Rightarrow> binding_session \<Rightarrow> binding_session" where
  "renew_receipt t s =
     (if retained s \<and> executions s \<noteq> [] then
        (case bs_execution s of
           None \<Rightarrow> s
         | Some r \<Rightarrow>
             (case receipt t r of
                (row, r') \<Rightarrow>
                  (let total = (receipt_bytes s - row_bytes t (last (executions s))) + row_bytes t row;
                       s1 = s\<lparr>bs_execution := Some r'\<rparr>
                   in if total \<le> receipt_limit then
                        s1\<lparr>receipt_bytes := total, executions := butlast (executions s1) @ [row]\<rparr>
                      else s1\<lparr>receipt_complete := False\<rparr>)))
      else s)"

definition session_retry_cleanup ::
    "tools \<Rightarrow> caller \<Rightarrow> binding_session \<Rightarrow> (binding_error + unit) \<times> binding_session" where
  "session_retry_cleanup t ctx s =
     (if \<not> disposed s then
        (Inl (lifecycle_error ''schedule_lifecycle_invalid'' ''dispose before retrying cleanup''), s)
      else
        (case bs_execution s of
           None \<Rightarrow> (Inr (), renew_receipt t s)
         | Some r \<Rightarrow>
             (case cleanup_run ctx (cleanup_timeout (bs_policy s)) r of
                (Inl e, r') \<Rightarrow> (Inl (lifecycle_error ''schedule_cleanup_failed'' e), s\<lparr>bs_execution := Some r'\<rparr>)
              | (Inr rep, r') \<Rightarrow>
                  if r_cleanup rep \<noteq> Confirmed then
                    (Inl (lifecycle_error ''schedule_cleanup_failed'' ''cleanup remains unconfirmed''),
                     s\<lparr>bs_execution := Some r'\<rparr>)
                  else (Inr (), renew_receipt t (s\<lparr>bs_execution := Some r'\<rparr>)))))"

definition session_receipt :: "tools \<Rightarrow> binding_session \<Rightarrow> json \<times> binding_session" where
  "session_receipt t s =
     (let (rows, complete, s') =
        (case (retained s, bs_execution s) of
           (False, Some r) \<Rightarrow>
             (case receipt t r of
                (row, r') \<Rightarrow>
                  (if receipt_bytes s + row_bytes t row \<le> receipt_limit
                   then (executions s @ [row], receipt_complete s, s\<lparr>bs_execution := Some r'\<rparr>)
                   else (executions s @ [exceeded_row], False, s\<lparr>bs_execution := Some r'\<rparr>)))
         | _ \<Rightarrow> (executions s, receipt_complete s, s))
      in (json_obj [(''schema'', JString ''mirrors.scheduled-binding/v1''),
            (''initializations'', json_nat (initializations s)), (''disposals'', json_nat (disposals s)),
            (''disposed'', JBool (disposed s)), (''receiptComplete'', JBool complete), (''executions'', JArray rows)], s'))"

definition fully_completed :: "binding_session \<Rightarrow> bool" where
  "fully_completed s \<longleftrightarrow>
     disposed s \<and> initializations s > 0 \<and> disposal s = Inr () \<and> receipt_complete s \<and> executions s \<noteq> []
     \<and> list_all (\<lambda>row. jfield row ''passed'' = JBool True) (executions s)"

text \<open>
  The row that stands for a receipt left out is not in the counted bytes, and yet writing it anew
  takes its length off them: from then on fewer bytes are counted than are kept.
\<close>

lemma renewed_undercounts:
  assumes "retained s" and "bs_execution s = Some r" and "receipt t r = (row, r')"
    and "executions s = kept @ [exceeded_row]" and "receipt_bytes s = sum_list (map (row_bytes t) kept)"
    and "0 < row_bytes t exceeded_row" and "0 < receipt_bytes s"
    and "receipt_bytes s - row_bytes t exceeded_row + row_bytes t row \<le> receipt_limit"
  shows "receipt_bytes (renew_receipt t s) < sum_list (map (row_bytes t) (executions (renew_receipt t s)))"
  using assms by (simp add: renew_receipt_def Let_def)

section \<open>The life of a session\<close>

text \<open>A session in the hands of its application: any calls in any order, against any environment.\<close>

inductive session_used :: "tools \<Rightarrow> schedule \<Rightarrow> adapter \<Rightarrow> policy \<Rightarrow> binding_session \<Rightarrow> bool"
  for t :: tools and sch :: schedule and ad :: adapter and p :: policy where
  made: "session_used t sch ad p (session_new sch ad p)"
| initialized: "session_used t sch ad p s \<Longrightarrow> session_used t sch ad p (snd (session_initialize t ctx given s))"
| stepped: "session_used t sch ad p s \<Longrightarrow> session_used t sch ad p (snd (session_advance t ctx st s))"
| observed: "session_used t sch ad p s \<Longrightarrow> session_used t sch ad p (snd (session_observation t s))"
| disposed_of: "session_used t sch ad p s \<Longrightarrow> session_used t sch ad p (snd (session_dispose t ctx s))"
| retried: "session_used t sch ad p s \<Longrightarrow> session_used t sch ad p (snd (session_retry_cleanup t ctx s))"
| shown: "session_used t sch ad p s \<Longrightarrow> session_used t sch ad p (snd (session_receipt t s))"

text \<open>
  The books of a session: every row is the mark of an exceeded bound or the receipt of an execution of
  the schedule, and as long as no row was left out the counted bytes are those of the rows.
\<close>

definition receipt_row :: "tools \<Rightarrow> schedule \<Rightarrow> adapter \<Rightarrow> json \<Rightarrow> bool" where
  "receipt_row t sch ad row \<longleftrightarrow> (\<exists>r r'. operated (codec_of t) sch ad r \<and> receipt t r = (row, r'))"

definition books_ok :: "tools \<Rightarrow> schedule \<Rightarrow> adapter \<Rightarrow> policy \<Rightarrow> binding_session \<Rightarrow> bool" where
  "books_ok t sch ad p s \<longleftrightarrow>
     bs_schedule s = sch \<and> bs_adapter s = ad \<and> bs_policy s = p
     \<and> initializations s \<le> 64 \<and> disposals s = (if disposed s then 1 else 0)
     \<and> (\<forall>row \<in> set (executions s). row = exceeded_row \<or> receipt_row t sch ad row)
     \<and> (receipt_complete s \<longrightarrow>
          receipt_bytes s = sum_list (map (row_bytes t) (executions s)) \<and> receipt_bytes s \<le> receipt_limit)"

definition session_ok :: "tools \<Rightarrow> schedule \<Rightarrow> adapter \<Rightarrow> policy \<Rightarrow> binding_session \<Rightarrow> bool" where
  "session_ok t sch ad p s \<longleftrightarrow>
     books_ok t sch ad p s
     \<and> (case bs_execution s of
          None \<Rightarrow> initializations s = 0 \<and> executions s = [] \<and> \<not> retained s
        | Some r \<Rightarrow>
            operated (codec_of t) sch ad r
            \<and> initializations s = length (executions s) + (if retained s then 0 else 1)
            \<and> (disposed s \<longrightarrow> retained s))"

lemma receipt_locked: "receipt t r = (row, r') \<Longrightarrow> r' = locked (locked r)"
  by (auto simp: receipt_def Let_def)

lemma session_ok_run:
  "session_ok t sch ad p s \<Longrightarrow> bs_execution s = Some r \<Longrightarrow> operated (codec_of t) sch ad r' \<Longrightarrow>
     session_ok t sch ad p (s\<lparr>bs_execution := Some r'\<rparr>)"
  by (auto simp: session_ok_def books_ok_def)

text \<open>Retaining before or after the session is marked as disposed of.\<close>

definition almost_ok :: "tools \<Rightarrow> schedule \<Rightarrow> adapter \<Rightarrow> policy \<Rightarrow> binding_session \<Rightarrow> bool" where
  "almost_ok t sch ad p s \<longleftrightarrow>
     books_ok t sch ad p s
     \<and> (\<exists>r. bs_execution s = Some r \<and> operated (codec_of t) sch ad r
          \<and> initializations s = length (executions s) + (if retained s then 0 else 1))"

lemma retain_ok:
  assumes "almost_ok t sch ad p s"
  shows "session_ok t sch ad p (retain t s) \<and> retained (retain t s) \<and> bs_execution (retain t s) \<noteq> None"
proof (cases "retained s")
  case True
  then show ?thesis using assms by (auto simp: retain_def almost_ok_def session_ok_def)
next
  case False
  obtain r where r: "bs_execution s = Some r" "operated (codec_of t) sch ad r"
    using assms by (auto simp: almost_ok_def)
  obtain row r' where row: "receipt t r = (row, r')" by fastforce
  have "operated (codec_of t) sch ad r'" using receipt_locked [OF row] r(2) reported by blast
  moreover have "receipt_row t sch ad row" using row r(2) by (auto simp: receipt_row_def)
  ultimately show ?thesis using assms False r row
    by (auto simp: retain_def almost_ok_def session_ok_def books_ok_def Let_def)
qed

lemma begin_ok:
  assumes "books_ok t sch ad p s" and "initializations s = length (executions s)" and "initializations s < 64"
    and "\<not> disposed s"
  shows "session_ok t sch ad p (snd (begin_execution t ctx given s))"
proof -
  obtain e k bs where "given = (e, k, bs)" by (cases given)
  moreover have "operated (codec_of t) sch ad (locked (start_schedule (codec_of t) e ctx sch ad p k bs))"
    using started reported by blast
  ultimately show ?thesis using assms by (auto simp: begin_execution_def session_ok_def books_ok_def Let_def)
qed

lemma almost_finished:
  assumes "session_ok t sch ad p s" and "bs_execution s = Some r" and "operated (codec_of t) sch ad r'"
  shows "almost_ok t sch ad p (s\<lparr>bs_execution := Some r'\<rparr>)"
  using assms by (auto simp: session_ok_def almost_ok_def books_ok_def)

lemma initialize_ok:
  assumes ok: "session_ok t sch ad p s"
  shows "session_ok t sch ad p (snd (session_initialize t ctx given s))"
proof (cases "disposed s \<or> initializations s \<ge> 64")
  case True
  then show ?thesis using ok by (simp add: session_initialize_def)
next
  case open_session: False
  show ?thesis
  proof (cases "bs_execution s")
    case None
    then show ?thesis using ok open_session begin_ok [of t sch ad p s ctx given]
      by (simp add: session_initialize_def session_ok_def)
  next
    case (Some r)
    obtain x r' where f: "finish ctx r = (x, r')" by fastforce
    have "operated (codec_of t) sch ad (snd (finish ctx r))"
      using ok Some finished by (auto simp: session_ok_def)
    then have r': "operated (codec_of t) sch ad r'" by (simp add: f)
    show ?thesis
    proof (cases x)
      case (Inl e)
      then show ?thesis using open_session Some f session_ok_run [OF ok Some r'] by (simp add: session_initialize_def)
    next
      case (Inr rep)
      let ?s = "retain t (s\<lparr>bs_execution := Some r'\<rparr>)"
      have s: "session_ok t sch ad p ?s" "retained ?s" "bs_execution ?s \<noteq> None"
        using retain_ok [OF almost_finished [OF ok Some r']] by blast+
      have "initializations ?s = initializations s" "disposed ?s = disposed s"
        by (simp_all add: retain_def Let_def split: option.split prod.split)
      moreover have "books_ok t sch ad p (?s\<lparr>bs_execution := None\<rparr>)"
        "initializations ?s = length (executions ?s)"
        using s by (auto simp: session_ok_def books_ok_def)
      ultimately have "session_ok t sch ad p (snd (begin_execution t ctx given (?s\<lparr>bs_execution := None\<rparr>)))"
        using open_session by (intro begin_ok) simp_all
      then show ?thesis using open_session Some f Inr s(1) by (simp add: session_initialize_def Let_def)
    qed
  qed
qed

lemma advance_ok: "session_ok t sch ad p s \<Longrightarrow> session_ok t sch ad p (snd (session_advance t ctx st s))"
proof (cases "bs_execution s")
  case (Some r)
  assume ok: "session_ok t sch ad p s"
  obtain x r' where f: "advance (codec_of t) ctx st r = (x, r')" by fastforce
  have "operated (codec_of t) sch ad (snd (advance (codec_of t) ctx st r))"
    using ok Some advanced by (auto simp: session_ok_def)
  then have "session_ok t sch ad p (s\<lparr>bs_execution := Some r'\<rparr>)" using session_ok_run [OF ok Some] by (simp add: f)
  then show ?thesis using ok Some f by (cases x) (simp_all add: session_advance_def)
qed (simp add: session_advance_def)

lemma observation_ok: "session_ok t sch ad p s \<Longrightarrow> session_ok t sch ad p (snd (session_observation t s))"
  using session_ok_run [of t sch ad p s] reported
  by (auto simp: session_observation_def session_ok_def Let_def split: option.split)

lemma receipt_ok: "session_ok t sch ad p s \<Longrightarrow> session_ok t sch ad p (snd (session_receipt t s))"
proof (cases "bs_execution s")
  case (Some r)
  assume ok: "session_ok t sch ad p s"
  obtain row r' where row: "receipt t r = (row, r')" by fastforce
  have "operated (codec_of t) sch ad r" using ok Some by (simp add: session_ok_def)
  then have "operated (codec_of t) sch ad r'" using receipt_locked [OF row] reported by blast
  then have "session_ok t sch ad p (s\<lparr>bs_execution := Some r'\<rparr>)" using session_ok_run [OF ok Some] by blast
  then show ?thesis using ok Some row by (simp add: session_receipt_def split: bool.split)
qed (simp add: session_receipt_def split: bool.split)

lemma close_execution_operated:
  "operated c sch ad r \<Longrightarrow> close_execution ctx p r = (x, r') \<Longrightarrow> operated c sch ad r'"
  unfolding close_execution_def Let_def
  using reported [of c sch ad r] finished [of c sch ad "locked r" ctx] cleaned [of c sch ad "locked r" ctx]
  by (metis (full_types) snd_conv)

lemma dispose_ok: "session_ok t sch ad p s \<Longrightarrow> session_ok t sch ad p (snd (session_dispose t ctx s))"
proof (cases "disposed s")
  case False
  assume ok: "session_ok t sch ad p s"
  show ?thesis
  proof (cases "bs_execution s")
    case None
    then show ?thesis using ok False by (auto simp: session_dispose_def session_ok_def books_ok_def)
  next
    case (Some r)
    obtain x r' where f: "close_execution ctx (bs_policy s) r = (x, r')" by fastforce
    then have r': "operated (codec_of t) sch ad r'"
      using ok Some close_execution_operated by (auto simp: session_ok_def)
    have "session_ok t sch ad p (retain t (s\<lparr>disposed := True, disposals := disposals s + 1,
        bs_execution := Some r', disposal := d\<rparr>))" for d
      using ok False Some r' by (intro conjunct1 [OF retain_ok]) (auto simp: session_ok_def almost_ok_def books_ok_def)
    moreover have "session_ok t sch ad p (u\<lparr>disposal := d\<rparr>) = session_ok t sch ad p u" for u d
      by (simp add: session_ok_def books_ok_def split: option.split)
    ultimately show ?thesis using Some False f by (simp add: session_dispose_def Let_def)
  qed
qed (simp add: session_dispose_def)

lemma renew_ok:
  assumes ok: "session_ok t sch ad p s"
  shows "session_ok t sch ad p (renew_receipt t s)"
proof (cases "retained s \<and> executions s \<noteq> [] \<and> bs_execution s \<noteq> None")
  case True
  then obtain r where r: "bs_execution s = Some r" by blast
  then have op: "operated (codec_of t) sch ad r" using ok by (simp add: session_ok_def)
  obtain row r' where row: "receipt t r = (row, r')" by fastforce
  have r': "operated (codec_of t) sch ad r'" using op receipt_locked [OF row] reported by blast
  have new: "receipt_row t sch ad row" using row op by (auto simp: receipt_row_def)
  obtain xs x where xs: "executions s = xs @ [x]" using True by (metis append_butlast_last_id)
  then show ?thesis using ok True r row r' new
    by (auto simp: renew_receipt_def session_ok_def books_ok_def Let_def)
next
  case False
  then show ?thesis using ok by (auto simp: renew_receipt_def split: option.split)
qed

lemma retry_ok: "session_ok t sch ad p s \<Longrightarrow> session_ok t sch ad p (snd (session_retry_cleanup t ctx s))"
proof (cases "bs_execution s")
  case (Some r)
  assume ok: "session_ok t sch ad p s"
  obtain x r' where f: "cleanup_run ctx (cleanup_timeout (bs_policy s)) r = (x, r')" by fastforce
  have "operated (codec_of t) sch ad (snd (cleanup_run ctx (cleanup_timeout (bs_policy s)) r))"
    using ok Some cleaned by (auto simp: session_ok_def)
  then have "session_ok t sch ad p (s\<lparr>bs_execution := Some r'\<rparr>)" using session_ok_run [OF ok Some] by (simp add: f)
  then show ?thesis using ok Some f renew_ok by (cases x) (simp_all add: session_retry_cleanup_def)
qed (simp add: session_retry_cleanup_def renew_ok)

lemma used_ok: "session_used t sch ad p s \<Longrightarrow> session_ok t sch ad p s"
proof (induction rule: session_used.induct)
  case made
  then show ?case by (simp add: session_new_def session_ok_def books_ok_def)
qed (simp_all add: initialize_ok advance_ok observation_ok receipt_ok dispose_ok retry_ok)

lemma exceeded_not_passed: "jfield exceeded_row ''passed'' \<noteq> JBool True"
  by (simp add: exceeded_row_def jfield_json_obj)


definition sample_inputs :: start_inputs where
  "sample_inputs = (sample_env, False, replicate 20 calm)"

definition sample_session_begun :: binding_session where
  "sample_session_begun = (session_new sample_schedule sample_adapter policy_default)
     \<lparr>initializations := 1, bs_execution := Some sample_begun\<rparr>"

definition sample_session_end :: binding_session where
  "sample_session_end = snd (session_dispose receipt_tools sample_caller
     (sample_session_begun\<lparr>bs_execution := Some sample_closed\<rparr>))"

lemma sample_initialized:
  "session_initialize receipt_tools sample_caller sample_inputs
     (session_new sample_schedule sample_adapter policy_default) = (Inr (), sample_session_begun)"
proof -
  have "begin_execution receipt_tools sample_caller sample_inputs
      (session_new sample_schedule sample_adapter policy_default) = (Inr (), sample_session_begun)"
    unfolding begin_execution_def sample_inputs_def prod.case Let_def session_new_def binding_session.simps
      receipt_tools_def tools.simps sample_start sample_begun_def [symmetric]
    by (simp only: sample_facts simp_thms if_False sample_session_begun_def session_new_def binding_session.simps)
      simp
  then show ?thesis by (simp add: session_initialize_def session_new_def)
qed

lemma sample_advanced:
  "snd (session_advance receipt_tools sample_caller sample_step sample_session_begun)
     = sample_session_begun\<lparr>bs_execution := Some sample_closed\<rparr>"
proof -
  obtain x where x: "advance sample_codec sample_caller sample_step sample_begun = (x, sample_closed)"
    using sample_advance by (metis prod.collapse)
  have "codec_of receipt_tools = sample_codec" by (simp add: receipt_tools_def)
  then show ?thesis using x by (cases x) (simp_all add: session_advance_def sample_session_begun_def session_new_def)
qed

lemma sample_session_used:
  "session_used receipt_tools sample_schedule sample_adapter policy_default sample_session_end"
proof -
  have "session_used receipt_tools sample_schedule sample_adapter policy_default sample_session_begun"
    using initialized [OF made, of receipt_tools sample_schedule sample_adapter policy_default sample_caller sample_inputs]
    by (simp add: sample_initialized)
  then show ?thesis
    unfolding sample_session_end_def sample_advanced [symmetric] by (intro disposed_of stepped)
qed

lemma sample_closing:
  "check_owner sample_caller (locked sample_closed)" "closed (locked sample_closed)"
  "schedule_completed (report (shared (locked sample_closed)))"
  "r_cleanup (report (shared (locked (locked sample_closed)))) = Confirmed"
  "passed (report (shared (locked (locked (locked sample_closed)))))"
  by code_simp+

lemma sample_text_fits: "length sample_schedule_text \<le> receipt_limit"
proof -
  have "length sample_schedule_text < 200" by code_simp
  then show ?thesis by (simp add: receipt_limit_def)
qed

lemma sample_row_bytes: "\<not> receipt_limit < row_bytes receipt_tools (json_obj kvs)"
  using sample_text_fits
  by (simp add: row_bytes_def receipt_tools_def sample_codec_def sample_render_schedule_def json_obj_def receipt_limit_def
      split: list.split)

lemma sample_session_completes: "fully_completed sample_session_end" "initializations sample_session_end = 1"
proof -
  let ?r = "locked (locked sample_closed)"
  have "close_execution sample_caller policy_default sample_closed = (Inr (report (shared ?r)), ?r)"
    using sample_closing(1-3) by (simp add: close_execution_def finish_def Let_def)
  then obtain fs where fs: "sample_session_end = sample_session_begun\<lparr>bs_execution := Some (locked (locked ?r)), disposed := True,
      disposals := 1, retained := True, receipt_bytes := row_bytes receipt_tools (json_obj fs), executions := [json_obj fs]\<rparr>"
      "jfield (json_obj fs) ''passed'' = JBool True"
    using sample_closing(4,5)
    by (intro that [of "receipt_fields receipt_tools (locked (locked ?r)) (report (shared (locked ?r)))"])
      (simp_all add: sample_session_end_def session_dispose_def sample_session_begun_def session_new_def retain_def
        receipt_def Let_def sample_row_bytes receipt_reads)
  then show "fully_completed sample_session_end" "initializations sample_session_end = 1"
    by (simp_all add: fs fully_completed_def sample_session_begun_def session_new_def)
qed


end
