(* ===== verification/Schedule_Replay.thy ===== *)
theory Schedule_Replay
  imports Schedule_Binding
begin

text \<open>
  The replay of traces through a scheduled session, \<^verbatim>\<open>replay_with_traces\<close> of
  \<^verbatim>\<open>src/schedule_binding.rs\<close>: a negotiated client session whose received lines are observed, judged
  by the last verdict of the mirror together with the books of the session.
\<close>

section \<open>The evidence of a replay\<close>

definition error_fields :: "wire \<Rightarrow> shown \<Rightarrow> negotiated_error \<Rightarrow> (string \<times> json) list" where
  "error_fields w x e =
     (case e of
        Registration code _ \<Rightarrow> [(''kind'', JString ''registration''), (''code'', JString code)]
      | ModelInterface code _ \<Rightarrow> [(''kind'', JString ''model_interface''), (''code'', JString code)]
      | Legacy (EStepMismatch _ _ expected actual hints) \<Rightarrow>
          [(''kind'', JString ''step_mismatch''), (''expected'', encode_state (w_bigint_str w) expected),
           (''actual'', encode_state (w_bigint_str w) actual),
           (''orderedHints'', JArray (map (\<lambda>h. JString (debug_hint x h)) hints))]
      | Legacy _ \<Rightarrow> [(''kind'', JString ''transport_or_protocol'')])"

definition client_evidence :: "wire \<Rightarrow> shown \<Rightarrow> negotiated_error + unit \<Rightarrow> json" where
  "client_evidence w x r =
     (case r of
        Inr _ \<Rightarrow> json_obj [(''status'', JString ''succeeded'')]
      | Inl e \<Rightarrow> json_obj ([(''status'', JString ''failed''), (''message'', JString (negotiated_display x e)),
          (''orderedHints'', JArray [])] @ error_fields w x e))"

text \<open>The observer of the received lines keeps the last verdict and its line.\<close>

definition verdict_of :: "wire \<Rightarrow> string \<Rightarrow> string option" where
  "verdict_of w line =
     (case decode_message w line of
        Inr MAllStepsDone \<Rightarrow> Some ''all_steps_done''
      | Inr (MStepMismatch _ _ _ _) \<Rightarrow> Some ''step_mismatch''
      | _ \<Rightarrow> None)"

definition note_line :: "wire \<Rightarrow> string \<times> string \<Rightarrow> string \<Rightarrow> string \<times> string" where
  "note_line w kept line = (case verdict_of w line of Some v \<Rightarrow> (v, line) | None \<Rightarrow> kept)"

definition terminal_of :: "wire \<Rightarrow> string list \<Rightarrow> string \<times> string" where
  "terminal_of w lines = foldl (note_line w) ([], []) lines"

definition comparison_of :: "string \<Rightarrow> negotiated_error + unit \<Rightarrow> string" where
  "comparison_of terminal r =
     (if terminal = ''step_mismatch'' \<and> (case r of Inl (Legacy (EStepMismatch _ _ _ _ _)) \<Rightarrow> True | _ \<Rightarrow> False) then
        ''step_mismatch''
      else if terminal = ''all_steps_done''
          \<and> (case r of Inr _ \<Rightarrow> True | Inl (ModelInterface code _) \<Rightarrow> code = ''adapter_dispose_failed'' | _ \<Rightarrow> False) then
        ''matched''
      else ''incomplete'')"

record replay_result =
  client_result :: "negotiated_error + unit"
  replay_evidence :: json
  replay_passed :: bool

definition evidence_json :: "wire \<Rightarrow> shown \<Rightarrow> bool \<Rightarrow> string \<Rightarrow> string \<times> string \<Rightarrow> negotiated_error + unit \<Rightarrow> json \<Rightarrow> json"
  where
  "evidence_json w x ok verdict terminal r binding = json_obj
     [(''schema'', JString ''mirrors.scheduled-comparison/v1''), (''passed'', JBool ok),
      (''comparison'', JString verdict), (''peerTerminal'', JString (fst terminal)),
      (''peerTerminalRaw'', JString (snd terminal)), (''client'', client_evidence w x r), (''binding'', binding)]"

text \<open>
  The session is part of the application's state, which the compiled adapters share: \<open>get\<close> and
  \<open>put\<close> reach it.
\<close>

definition fresh_receipt :: "json \<Rightarrow> bool" where
  "fresh_receipt before \<longleftrightarrow>
     is_number (jfield before ''initializations'') 0 \<and> is_number (jfield before ''disposals'') 0
     \<and> jfield before ''disposed'' = JBool False"

definition reused_error :: "negotiated_error" where
  "reused_error = mi_error ''schedule_session_reused'' ''scheduled replay requires fresh session''"

definition replay_end ::
    "wire \<Rightarrow> shown \<Rightarrow> tools \<Rightarrow> ('c \<Rightarrow> binding_session) \<Rightarrow> (binding_session \<Rightarrow> 'c \<Rightarrow> 'c)
       \<Rightarrow> string list \<Rightarrow> negotiated_error + unit \<Rightarrow> 'c \<Rightarrow> replay_result \<times> 'c" where
  "replay_end w x kit get put lines r c =
     (let terminal = terminal_of w lines;
          verdict = comparison_of (fst terminal) r;
          ok = (\<not> isl r \<and> verdict = ''matched'' \<and> fully_completed (get c));
          (binding, s) = session_receipt kit (get c)
      in (\<lparr>client_result = r, replay_evidence = evidence_json w x ok verdict terminal r binding, replay_passed = ok\<rparr>,
          put s c))"

definition lines_heard :: "transport \<Rightarrow> string list" where
  "lines_heard t = (case received_observer t of Some lines \<Rightarrow> lines | None \<Rightarrow> [])"

definition replay_with_traces ::
    "wire \<Rightarrow> (string \<Rightarrow> string + json) \<Rightarrow> shown \<Rightarrow> tools \<Rightarrow> ('c \<Rightarrow> binding_session)
       \<Rightarrow> (binding_session \<Rightarrow> 'c \<Rightarrow> 'c) \<Rightarrow> transport \<Rightarrow> apalache_config \<Rightarrow> string list \<Rightarrow> 'c adapter_selection \<Rightarrow> 'c
       \<Rightarrow> replay_result called \<times> 'c \<times> transport" where
  "replay_with_traces w reader x kit get put t config traces sel c =
     (let (before, s) = session_receipt kit (get c); c0 = put s c in
      if \<not> fresh_receipt before then
        (Returned \<lparr>client_result = Inl reused_error,
           replay_evidence = evidence_json w x False ''incomplete'' ([], []) (Inl reused_error) before,
           replay_passed = False\<rparr>, c0, drop_transport (snd (close t)))
      else
        (case run_client_with_traces_negotiated_transport w reader (observe_received t) config traces sel c0 of
           (Inl Unwinding, c1, t1) \<Rightarrow> (Unwound, c1, t1)
         | (Inl (Failed e), c1, t1) \<Rightarrow>
             (case replay_end w x kit get put (lines_heard t1) (Inl e) c1 of
                (res, c2) \<Rightarrow> (Returned res, c2, t1))
         | (Inr _, c1, t1) \<Rightarrow>
             (case replay_end w x kit get put (lines_heard t1) (Inr ()) c1 of
                (res, c2) \<Rightarrow> (Returned res, c2, t1))))"

section \<open>What the observer has heard\<close>

definition heard :: "transport \<Rightarrow> string list \<Rightarrow> bool" where
  "heard t lines \<longleftrightarrow> received_observer t = Some lines"

lemma heard_send: "send t line = (r, t') \<Longrightarrow> heard t lines \<Longrightarrow> heard t' lines"
  by (auto simp: heard_def send_def split: sum.splits if_splits transport_inner.splits bool.splits prod.splits)

lemma heard_transport_recv:
  "transport_recv t = (Inr (Some line), t') \<Longrightarrow> heard t lines \<Longrightarrow> heard t' (lines @ [line])"
  by (auto simp: heard_def transport_recv_def split: if_splits prod.splits)

lemma heard_recv:
  assumes "recv w t = (Inr m, t')" and "heard t lines"
  obtains line where "decode_message w line = Inr m" "heard t' (lines @ [line])"
proof -
  obtain line where "transport_recv t = (Inr (Some line), t')" "decode_message w line = Inr m"
    using assms(1) by (auto simp: recv_def split: prod.splits sum.splits option.splits)
  then show thesis using that heard_transport_recv assms(2) by blast
qed

lemma heard_close: "heard t lines \<Longrightarrow> heard (snd (close t)) lines \<and> heard (drop_transport t) lines"
  by (auto simp: heard_def drop_transport_def close_def Let_def split: option.split transport_inner.split sum.split)

lemma verdict_done: "decode_message w line = Inr MAllStepsDone \<Longrightarrow> verdict_of w line = Some ''all_steps_done''"
  by (simp add: verdict_of_def)

lemma terminal_snoc: "verdict_of w line = Some v \<Longrightarrow> terminal_of w (lines @ [line]) = (v, line)"
  by (simp add: terminal_of_def note_line_def)

text \<open>A session that succeeds has last heard that all steps are done.\<close>

lemma stepping_hears:
  "run_stepping_loop w f cmp v c t = (Inr u, c', t') \<Longrightarrow> heard t lines \<Longrightarrow>
     \<exists>more line. heard t' (lines @ more @ [line]) \<and> decode_message w line = Inr MAllStepsDone"
proof (induction w f cmp v c t arbitrary: lines c' t' rule: run_stepping_loop.induct)
  case (1 w f cmp v c t)
  obtain x t1 where r: "recv w t = (x, t1)" by fastforce
  note IH = 1(1-3) [OF r [symmetric]]
  note loop = 1(4) [unfolded run_stepping_loop.simps [of w f cmp v c t] r prod.case]
  show ?case
  proof (cases x)
    case (Inl e)
    then show ?thesis using loop by simp
  next
    case (Inr m)
    obtain line where line: "decode_message w line = Inr m" "heard t1 (lines @ [line])"
      using heard_recv r 1(5) Inr by metis
    have extend: ?thesis if "\<exists>more l. heard t' ((lines @ [line]) @ more @ [l]) \<and> decode_message w l = Inr MAllStepsDone"
      using that by (elim exE) (rule exI [of _ "line # m" for m], simp, blast)
    show ?thesis
    proof (cases m)
      case (MInitialState a s)
      then obtain st c1 t2 u' where *: "cmp c a s [] = (Inr st, c1)" "send t1 (encode_report_state w st) = (Inr u', t2)"
        "run_stepping_loop w f cmp (v\<lparr>last_action := a, cur_state := st\<rparr>) c1 t2 = (Inr u, c', t')"
        using loop Inr by (auto split: prod.splits sum.splits)
      show ?thesis
        by (rule extend)
          (rule IH(1) [OF Inr MInitialState *(1) [symmetric] refl *(2) [symmetric] refl *(3) heard_send [OF *(2) line(2)]])
    next
      case (MNextStep a s)
      then obtain st c1 t2 u' where *: "cmp c a s (cur_state v) = (Inr st, c1)"
        "send t1 (encode_report_state w st) = (Inr u', t2)"
        "run_stepping_loop w f cmp (v\<lparr>last_action := a, last_param := s, cur_state := st\<rparr>) c1 t2 = (Inr u, c', t')"
        using loop Inr by (auto split: prod.splits sum.splits)
      show ?thesis
        by (rule extend)
          (rule IH(2) [OF Inr MNextStep *(1) [symmetric] refl *(2) [symmetric] refl *(3) heard_send [OF *(2) line(2)]])
    next
      case MStepOk
      then have "run_stepping_loop w f cmp v c t1 = (Inr u, c', t')" using loop Inr by simp
      then show ?thesis by (intro extend IH(3) [OF Inr MStepOk _ line(2)])
    next
      case MAllStepsDone
      then have "heard t' (lines @ [] @ [line])" using loop Inr line(2) by simp
      then show ?thesis using line(1) MAllStepsDone by blast
    qed (use loop Inr in simp_all)
  qed
qed

lemma use_and_dispose_hears:
  assumes "use_and_dispose w key config b c t = (Inr u, c', t')" and "heard t lines"
  shows "\<exists>more line. heard t' (lines @ more @ [line]) \<and> decode_message w line = Inr MAllStepsDone"
proof -
  obtain r1 c1 t1 where r: "use_binding w key config b c t = (r1, c1, t1)" by (metis prod_cases3)
  then have "t' = t1" "r1 = Inr ()"
    using assms(1) by (auto simp: use_and_dispose_def first_error_def split: prod.splits sum.splits)
  then obtain c0 r0 where "run_stepping_loop w (\<lambda>e. Failed (Legacy e)) (compute_step b) initial_stepping c0 t = (r0, c1, t')"
    "catch_unwind r0 = Inr ()"
    using r by (auto simp: use_binding_def catch_unwind_def split: if_splits prod.splits called.splits sum.splits)
  moreover from this have "r0 = Inr ()"
    by (auto simp: catch_unwind_def split: sum.splits session_failure.splits)
  ultimately have "run_stepping_loop w (\<lambda>e. Failed (Legacy e)) (compute_step b) initial_stepping c0 t = (Inr (), c1, t')"
    by simp
  from stepping_hears [OF this assms(2)] show ?thesis .
qed

lemma negotiated_hears:
  assumes "run_negotiated w reader config registration sel c t = (Inr u, c', t')" and "heard t lines"
  shows "\<exists>more line. heard t' (lines @ more @ [line]) \<and> decode_message w line = Inr MAllStepsDone"
proof -
  obtain r1 c1 t1 where r: "run_negotiated_open w reader config registration sel c t = (r1, c1, t1)"
    by (metis prod_cases3)
  have t': "t' = drop_transport (snd (close t1))" and "r1 = Inr ()"
    using assms(1) r by (auto simp: run_negotiated_def first_error_def split: sum.splits session_failure.splits prod.splits)
  then obtain request index encoded v t2 where o: "send t encoded = (v, t2)"
    "run_authorized w config sel request index c t2 = (Inr (), c1, t1)"
    using r by (auto simp: run_negotiated_open_def split: sum.splits prod.splits)
  then obtain line t3 key b c2 where *: "transport_recv t2 = (Inr (Some line), t3)"
    "use_and_dispose w key config b c2 t3 = (Inr (), c1, t1)"
    by (auto simp: run_authorized_def split: prod.splits sum.splits option.splits)
  have "heard t3 (lines @ [line])" using heard_transport_recv [OF *(1) heard_send [OF o(1) assms(2)]] .
  from use_and_dispose_hears [OF *(2) this]
  obtain more l where l: "heard t1 ((lines @ [line]) @ more @ [l])" "decode_message w l = Inr MAllStepsDone" by blast
  then have "heard t' (lines @ (line # more) @ [l])" unfolding t' using heard_close by auto
  then show ?thesis using l(2) by blast
qed

lemma session_receipt_keeps [simp]:
  "fully_completed (snd (session_receipt k s)) = fully_completed s"
  by (simp add: session_receipt_def fully_completed_def Let_def split: bool.split option.split prod.split)

lemma json_nat_zero:
  assumes "is_number (json_nat n) 0"
  shows "n = 0"
proof -
  obtain d ds where d: "show_nat n = d # ds" by (cases "show_nat n") auto
  have "is_ascii_digit d" using all_digits_show_nat [of n] d by simp
  then have "d \<noteq> CHR ''+''" by (auto simp: is_ascii_digit_def byte_of_def)
  then have "digits_value (show_nat n) = 0"
    using assms d by (auto simp: is_number_def json_nat_def parse_unsigned_def parse_digits_def split: if_splits)
  then show ?thesis by simp
qed

lemma fresh_receipt_session:
  "fresh_receipt (fst (session_receipt k s)) \<Longrightarrow> initializations s = 0 \<and> disposals s = 0 \<and> \<not> disposed s"
proof -
  assume "fresh_receipt (fst (session_receipt k s))"
  moreover obtain rows complete where "fst (session_receipt k s) = json_obj
      [(''schema'', JString ''mirrors.scheduled-binding/v1''), (''initializations'', json_nat (initializations s)),
       (''disposals'', json_nat (disposals s)), (''disposed'', JBool (disposed s)), (''receiptComplete'', JBool complete),
       (''executions'', JArray rows)]"
    by (simp add: session_receipt_def case_prod_beta)
  ultimately show ?thesis by (auto simp: fresh_receipt_def jfield_json_obj intro: json_nat_zero)
qed

lemma evidence_reads:
  "jfield (evidence_json w x ok verdict terminal r binding) ''passed'' = JBool ok"
  "jfield (evidence_json w x ok verdict terminal r binding) ''peerTerminalRaw'' = JString (snd terminal)"
  by (simp_all add: evidence_json_def jfield_json_obj)

text \<open>
  C3. The verdict of a scheduled replay is that of the client and of the books, and never inferred from
  anything less: it passes exactly when the negotiated session succeeded and the session of executions
  is fully completed; then the session was fresh before and the line kept as the terminal one of the
  mirror says that all steps are done; and the evidence shows the verdict.
\<close>

theorem replay_verdict:
  assumes lens: "\<And>s c. get (put s c) = s"
    and "replay_with_traces w reader x kit get put t config traces sel c = (Returned res, c', t')"
  shows "replay_passed res = (client_result res = Inr () \<and> fully_completed (get c'))
    \<and> (replay_passed res \<longrightarrow> initializations (get c) = 0 \<and> \<not> disposed (get c)
         \<and> (\<exists>raw. jfield (replay_evidence res) ''peerTerminalRaw'' = JString raw
              \<and> decode_message w raw = Inr MAllStepsDone))
    \<and> jfield (replay_evidence res) ''passed'' = JBool (replay_passed res)"
proof (cases "fresh_receipt (fst (session_receipt kit (get c)))")
  case False
  then show ?thesis using assms(2) by (auto simp: replay_with_traces_def evidence_reads case_prod_beta Let_def)
next
  case True
  let ?c = "put (snd (session_receipt kit (get c))) c"
  obtain r c1 t1 where run: "run_negotiated w reader config (RegisterTraces config traces) sel ?c (observe_received t)
      = (r, c1, t1)" by (metis prod_cases3)
  obtain r' where r': "replay_end w x kit get put (lines_heard t1) r' c1 = (res, c')" "\<not> isl r' \<longleftrightarrow> r = Inr ()"
    using assms(2) True run
    by (cases r) (auto simp: replay_with_traces_def run_client_with_traces_negotiated_transport_def case_prod_beta Let_def
        split: session_failure.splits prod.splits)
  have completed: "fully_completed (get c') = fully_completed (get c1)" and result: "client_result res = r'"
    using r'(1) lens by (auto simp: replay_end_def Let_def case_prod_beta)
  have done_line: "\<exists>line. decode_message w line = Inr MAllStepsDone \<and> terminal_of w (lines_heard t1) = (''all_steps_done'', line)"
    if "\<not> isl r'"
  proof -
    have ok: "run_negotiated w reader config (RegisterTraces config traces) sel ?c (observe_received t) = (Inr (), c1, t1)"
      using run that r'(2) by simp
    have "heard (observe_received t) []" by (simp add: heard_def observe_received_def)
    from negotiated_hears [OF ok this]
    obtain more line where l: "heard t1 ([] @ more @ [line])" "decode_message w line = Inr MAllStepsDone" by blast
    then have "lines_heard t1 = more @ [line]" by (simp add: lines_heard_def heard_def)
    then show ?thesis using l(2) terminal_snoc [OF verdict_done] by metis
  qed
  have "comparison_of (fst (terminal_of w (lines_heard t1))) r' = ''matched''" if "\<not> isl r'"
    using done_line [OF that] that by (cases r') (auto simp: comparison_of_def)
  then have pass: "replay_passed res = (client_result res = Inr () \<and> fully_completed (get c'))"
    unfolding completed result using r'(1) by (cases r') (auto simp: replay_end_def Let_def case_prod_beta)
  moreover have "\<exists>raw. jfield (replay_evidence res) ''peerTerminalRaw'' = JString raw
      \<and> decode_message w raw = Inr MAllStepsDone" if "replay_passed res"
    using done_line that r'(1) pass result by (auto simp: replay_end_def Let_def case_prod_beta evidence_reads)
  moreover have "jfield (replay_evidence res) ''passed'' = JBool (replay_passed res)"
    using r'(1) by (auto simp: replay_end_def Let_def case_prod_beta evidence_reads)
  ultimately show ?thesis using fresh_receipt_session [OF True] by blast
qed

section \<open>A replay that passes\<close>

text \<open>The adapter that drives the sample session: it starts when checked and advances when it computes.\<close>

definition scheduled_binding :: "binding_session local_binding" where
  "scheduled_binding =
     \<lparr>lb_digest = replicate 32 0xAB,
      lb_compute = (\<lambda>s _ _ _. (Returned (Inr [(''n'', VInt 0)]),
        snd (session_advance receipt_tools sample_caller sample_step s))),
      lb_check = (\<lambda>s _. case session_initialize receipt_tools sample_caller sample_inputs s of
        (r, s') \<Rightarrow> (Returned r, s')),
      lb_dispose = (\<lambda>s. case session_dispose receipt_tools sample_caller s of (r, s') \<Rightarrow> (Returned r, s'))\<rparr>"

definition scheduled_selection :: "binding_session adapter_selection" where
  "scheduled_selection =
     \<lparr>sel_metadata = sel_metadata counting_selection, sel_adapter_id = ''counter'', sel_target_profile = ''host'',
      sel_version = state_computer_version,
      sel_registry = [\<lparr>reg_key = counting_key, reg_factory = (\<lambda>s _. (Returned (Inr scheduled_binding), s))\<rparr>],
      sel_policy = Require, sel_fallback = None\<rparr>"

definition fresh_sample :: binding_session where
  "fresh_sample = session_new sample_schedule sample_adapter policy_default"

lemma scheduled_adapter:
  "create_binding scheduled_selection 0 config (AMatched d s) c = (Inr scheduled_binding, c)"
  "lb_digest scheduled_binding = expected_digest sample_request"
  "lb_check scheduled_binding fresh_sample config = (Returned (Inr ()), sample_session_begun)"
  by (simp_all add: create_binding_def scheduled_selection_def scheduled_binding_def sample_request_def
      sample_initialized fresh_sample_def)

lemma scheduled_prepared:
  "prepare sample_wire scheduled_selection = Inr (sample_request, 0)"
proof -
  have "make_verify_request sample_wire (sel_metadata scheduled_selection) (sel_policy scheduled_selection) = Inr sample_request"
    using sample_trees(1) sample_stages(1,2)
    by (simp add: make_verify_request_def scheduled_selection_def counting_selection_def sample_request_def)
  moreover have "sel_version scheduled_selection = state_computer_version" by (simp add: scheduled_selection_def)
  moreover have "resolve_index (sel_registry scheduled_selection) (selection_key scheduled_selection sample_request) = Inr 0"
    by code_simp
  ultimately show ?thesis by (simp add: prepare_def)
qed

lemma scheduled_authorized:
  "decode_authorization sample_wire (text_of quoted matched_reply) sample_request (sel_fallback scheduled_selection \<noteq> None)
     = Inr (AMatched (replicate 32 0xAB) descriptor_schema_name)"
  using sample_authorized by (simp add: scheduled_selection_def counting_selection_def)

lemma scheduled_replayed:
  "replay (\<lambda>e. Failed (Legacy e)) (compute_step scheduled_binding) initial_stepping sample_session_begun sample_messages
     = (Inr (), sample_session_begun\<lparr>bs_execution := Some sample_closed\<rparr>, [ [(''n'', VInt 0)] ])"
  by (simp add: sample_messages_def compute_step_def scheduled_binding_def sample_advanced)

lemma scheduled_disposed:
  "adapter_dispose scheduled_binding (sample_session_begun\<lparr>bs_execution := Some sample_closed\<rparr>)
     = (Inr (), sample_session_end)"
proof -
  have "fst (session_dispose k ctx s) = disposal (snd (session_dispose k ctx s))" for k ctx s
    by (simp add: session_dispose_def Let_def split: option.split prod.split)
  then have "session_dispose receipt_tools sample_caller (sample_session_begun\<lparr>bs_execution := Some sample_closed\<rparr>)
      = (Inr (), sample_session_end)"
    using sample_session_completes(1) unfolding sample_session_end_def fully_completed_def by (simp add: prod_eq_iff)
  then show ?thesis by (simp add: adapter_dispose_def scheduled_binding_def)
qed

lemma scheduled_transport:
  "session_ready (observe_received negotiated_session) negotiated_lines"
  "outgoing (t_stream (observe_received negotiated_session)) = []"
  "fst (close (observe_received negotiated_session)) = Inr 0"
  using sample_ready by (simp_all add: observe_received_def session_ready_def can_write_def negotiated_session_def
      sample_transport_def open_transport_def close_def Let_def shutdown_socket_def)

lemma scheduled_replay_runs:
  "\<exists>t'. run_negotiated sample_wire sample_reader sample_config (RegisterTraces sample_config []) scheduled_selection
      fresh_sample (observe_received negotiated_session) = (Inr (), sample_session_end, t')"
proof -
  have enc: "encode_registration sample_wire sample_reader (RegisterTraces sample_config []) sample_request = Inr ''register''"
    by code_simp
  show ?thesis
    using negotiated_replays [OF scheduled_prepared enc sample_replayed(1) scheduled_transport(1) [unfolded negotiated_lines_def]
        scheduled_transport(2) scheduled_authorized scheduled_adapter sample_session_decodes(2) scheduled_replayed
        sample_session_sends(2) scheduled_disposed]
    by (auto simp: scheduled_transport(3) session_end_def first_error_def catch_unwind_def)
qed

theorem replay_verdict_witness:
  "\<exists>res s t. replay_with_traces sample_wire sample_reader sample_texts
      receipt_tools (\<lambda>s. s) (\<lambda>s _. s) negotiated_session sample_config [] scheduled_selection fresh_sample
      = (Returned res, s, t) \<and> replay_passed res \<and> jfield (replay_evidence res) ''passed'' = JBool True"
proof -
  let ?x = "sample_texts"
  obtain t' where run: "run_negotiated sample_wire sample_reader sample_config (RegisterTraces sample_config [])
      scheduled_selection fresh_sample (observe_received negotiated_session) = (Inr (), sample_session_end, t')"
    using scheduled_replay_runs by blast
  have fresh: "fresh_receipt (fst (session_receipt receipt_tools fresh_sample))"
    "snd (session_receipt receipt_tools fresh_sample) = fresh_sample"
    by (simp_all add: session_receipt_def fresh_sample_def session_new_def fresh_receipt_def jfield_json_obj is_number_def)
  obtain res s where e: "replay_end sample_wire ?x receipt_tools (\<lambda>s. s) (\<lambda>s _. s) (lines_heard t') (Inr ()) sample_session_end
      = (res, s)" by fastforce
  then have res: "client_result res = Inr ()" "fully_completed s"
    using sample_session_completes(1) by (auto simp: replay_end_def Let_def case_prod_beta)
  have "replay_with_traces sample_wire sample_reader ?x receipt_tools (\<lambda>s. s) (\<lambda>s _. s) negotiated_session sample_config []
      scheduled_selection fresh_sample = (Returned res, s, t')"
    using fresh run e by (simp add: replay_with_traces_def run_client_with_traces_negotiated_transport_def case_prod_beta)
  moreover from replay_verdict [OF _ this] res
  have "replay_passed res \<and> jfield (replay_evidence res) ''passed'' = JBool True" by simp
  ultimately show ?thesis by blast
qed

end
