(* ===== verification/Exploration_Local.thy ===== *)
theory Exploration_Local
  imports Schedule_Receipt
begin

text \<open>
  The exploration with its local runner: the runs its report counts are executions of
  \<^verbatim>\<open>src/schedule.rs\<close>, by real workers, and what is proved of those holds for each of them.
\<close>

section \<open>Where the evidence comes from\<close>

lemma runner_evidence:
  assumes "evidence_of (local_exploration_runner t surroundings ctx ad p) sch j"
  obtains n e k bs where "surroundings n = (e, k, bs)"
    and "j = fst (receipt t (run_schedule (codec_of t) e ctx sch ad p k bs))"
    and "category j None = Inr ''passed''"
proof -
  obtain st st' sample where s: "local_exploration_runner t surroundings ctx ad p st sch = (Sampled sample, st')"
    and j: "j = execution sample" "category j (comparison sample) = Inr ''passed''"
    using assms by (auto simp: evidence_of_def)
  obtain e k bs where n: "surroundings (runs_made st) = (e, k, bs)" by (rule prod_cases3)
  have "sample = \<lparr>execution = fst (receipt t (run_schedule (codec_of t) e ctx sch ad p k bs)), comparison = None\<rparr>"
    using s n by (auto simp: local_exploration_runner_def Let_def case_prod_beta split: if_splits)
  then show ?thesis using that [OF n] j by simp
qed

lemma passed_execution:
  assumes "operated c sch ad r" and "passed (report (shared (locked r)))"
  shows "teardowns (locked r) = 1
    \<and> events (report (shared (locked r))) = expected_events (adapter_actors ad) (steps sch) (length (steps sch))
    \<and> observed_after (observations (report (shared (locked r)))) = map json_nat [0..<Suc (length (steps sch))]"
proof -
  have "settled (locked r)" using operated_inv [OF reported [OF assms(1)]] by blast
  then have "teardowns (locked r) = 1" using assms(2) by (auto simp: settled_def passed_def)
  then show ?thesis using operated_passed [OF reported [OF assms(1)] assms(2)] by blast
qed

text \<open>A run of the adapter on a schedule, in one of the surroundings, that passed; with its receipt.\<close>

definition ran_and_passed ::
    "tools \<Rightarrow> (nat \<Rightarrow> start_env \<times> bool \<times> batch list) \<Rightarrow> caller \<Rightarrow> adapter \<Rightarrow> policy \<Rightarrow> schedule \<Rightarrow> json \<Rightarrow> bool" where
  "ran_and_passed t surroundings ctx ad p sch j \<longleftrightarrow>
     (\<exists>n e k bs r. surroundings n = (e, k, bs) \<and> r = run_schedule (codec_of t) e ctx sch ad p k bs
        \<and> j = fst (receipt t r) \<and> passed (report (shared (locked r))) \<and> teardowns (locked r) = 1
        \<and> events (report (shared (locked r))) = expected_events (adapter_actors ad) (steps sch) (length (steps sch))
        \<and> observed_after (observations (report (shared (locked r)))) = map json_nat [0..<Suc (length (steps sch))])"

lemma evidence_ran:
  assumes "evidence_of (local_exploration_runner t surroundings ctx ad p) sch j"
  shows "ran_and_passed t surroundings ctx ad p sch j"
proof -
  obtain n e k bs where r: "surroundings n = (e, k, bs)"
    "j = fst (receipt t (run_schedule (codec_of t) e ctx sch ad p k bs))" "category j None = Inr ''passed''"
    by (rule runner_evidence [OF assms])
  let ?r = "run_schedule (codec_of t) e ctx sch ad p k bs"
  have op: "operated (codec_of t) sch ad ?r" by (rule operated_run_schedule)
  obtain r' where "receipt t ?r = (j, r')" using r(2) by (metis prod.collapse)
  then have "passed (report (shared (locked ?r)))" using receipt_category [OF op] r(3) by blast
  then show ?thesis unfolding ran_and_passed_def using r(1,2) passed_execution [OF op] by blast
qed

text \<open>
  C31. A complete local exploration has really run the model: when the report of an exploration with
  the local runner says that it is complete, then on every input and along every interleaving of the
  declared chains within the preemption bound the adapter was run by its worker threads, and each run
  passed: one permit and one arrival per interval in the order of the schedule, one observation
  around each, one teardown; and the row of the report holds the receipt of that run.
\<close>

theorem local_exploration:
  assumes "explore_finite t space \<lparr>w_runner = local_exploration_runner t surroundings ctx ad p, w_looks = runs_seen\<rparr>
      looks limits ms r = (out, r')"
    and "jfield out ''complete'' = JBool True"
  shows "\<exists>as ws jobs report_rows. as = sort_key (\<lambda>c. decl_actor (chain_actor c)) (sp_actors space)
    \<and> set ws = {v. interleaving as v \<and> preemptions v \<le> max_preemptions space}
    \<and> jobs = [schedule_new (sp_identity space) input (steps_of as v). v \<leftarrow> ws, input \<leftarrow> sp_inputs space]
    \<and> distinct jobs \<and> jfield out ''runs'' = JArray report_rows
    \<and> list_all2 (\<lambda>sch row. ran_and_passed t surroundings ctx ad p sch (jfield row ''execution'')) jobs report_rows"
proof -
  let ?rn = "local_exploration_runner t surroundings ctx ad p"
  have ran: "ran_and_passed t surroundings ctx ad p sch (jfield row ''execution'')"
    if "jfield row ''schedule'' = sort_keys (schedule_json sch) \<and> row_passed row
      \<and> validate_success (jfield row ''execution'') sch = Inr () \<and> evidence_of ?rn sch (jfield row ''execution'')"
    for row sch using evidence_ran that by blast
  from complete_runs [OF assms, unfolded world.simps] show ?thesis
  proof (elim exE conjE, goal_cases)
    case (1 as ws jobs runs)
    from 1(1,2,4-6) list_all2_mono [OF 1(7) ran] show ?case by (intro exI conjI)
  qed
qed

section \<open>An exploration of one run\<close>

definition sample_surroundings :: "nat \<Rightarrow> start_env \<times> bool \<times> batch list" where
  "sample_surroundings n = (sample_env, False, replicate 20 calm)"

definition local_world :: "local_runner world" where
  "local_world =
     \<lparr>w_runner = local_exploration_runner sample_tools sample_surroundings sample_caller sample_adapter policy_default,
      w_looks = (\<lambda>_. calm_run)\<rparr>"

definition idle_runner :: local_runner where
  "idle_runner = \<lparr>owned = None, runs_made = 0\<rparr>"

definition local_report :: "json \<times> local_runner" where
  "local_report =
     explore_finite sample_tools sample_space local_world calm_look exploration_limits_default 7 idle_runner"

definition local_given :: "runner_result \<times> local_runner" where
  "local_given = (case receipt sample_tools sample_closed of
     (row, r) \<Rightarrow> (Sampled \<lparr>execution = row, comparison = None\<rparr>, \<lparr>owned = Some r, runs_made = 1\<rparr>))"

lemma local_run:
  "w_runner local_world idle_runner sample_schedule = local_given"
  using sample_run_eq
  by (simp add: local_world_def local_exploration_runner_def idle_runner_def sample_surroundings_def local_given_def
      sample_run_def sample_tools_def Let_def)

text \<open>The same with the run of the schedule done already.\<close>

definition done_world :: "local_runner world" where
  "done_world = \<lparr>w_runner = (\<lambda>_ _. local_given), w_looks = (\<lambda>_. calm_run)\<rparr>"

definition done_progress :: "local_runner progress" where
  "done_progress =
     run_all sample_tools sample_admitted sample_space exploration_limits_default done_world
       (candidates sample_space [[step_new ''w'' completion]]) (progress_start [] idle_runner)"

lemma done_ran: "attempted done_progress = 1" "completed done_progress = 1" "\<not> halt done_progress"
  by code_simp+

lemma run_one_same:
  assumes "w_runner w (runner_state p) (schedule_new (sp_identity space) input ss)
      = w_runner w' (runner_state p) (schedule_new (sp_identity space) input ss)" and "w_looks w = w_looks w'"
  shows "run_one t a space limits w ss i input p = run_one t a space limits w' ss i input p"
  using assms by (simp add: run_one_def Let_def)

lemma local_progress:
  "run_all sample_tools sample_admitted sample_space exploration_limits_default local_world
     (candidates sample_space [[step_new ''w'' completion]]) (progress_start [] idle_runner) = done_progress"
proof -
  have c: "candidates sample_space [[step_new ''w'' completion]] = [([step_new ''w'' completion], 0, JNumber ''0'')]"
    by (simp add: candidates_def sample_space_def)
  have "run_one sample_tools sample_admitted sample_space exploration_limits_default local_world
      [step_new ''w'' completion] 0 (JNumber ''0'') (progress_start [] idle_runner)
    = run_one sample_tools sample_admitted sample_space exploration_limits_default done_world
      [step_new ''w'' completion] 0 (JNumber ''0'') (progress_start [] idle_runner)"
  proof (rule run_one_same)
    have "schedule_new (sp_identity sample_space) (JNumber ''0'') [step_new ''w'' completion] = sample_schedule"
      by (simp add: sample_space_def sample_schedule_def)
    then show "w_runner local_world (runner_state (progress_start [] idle_runner))
        (schedule_new (sp_identity sample_space) (JNumber ''0'') [step_new ''w'' completion])
      = w_runner done_world (runner_state (progress_start [] idle_runner))
        (schedule_new (sp_identity sample_space) (JNumber ''0'') [step_new ''w'' completion])"
      using local_run by (simp add: progress_start_def done_world_def)
  qed (simp add: local_world_def done_world_def)
  then show ?thesis unfolding done_progress_def c by (simp split: bool.split prod.split)
qed

lemma local_complete: "jfield (fst local_report) ''complete'' = JBool True"
proof -
  have "all_passed sample_space (enumerate sample_search) done_progress"
    using sample_ran(1) done_ran by (simp add: all_passed_def all_ran_def sample_space_def)
  then show ?thesis
    using sample_admitted sample_ran(1) local_progress
    by (simp add: local_report_def explore_finite_def Let_def sample_search_def [symmetric]
        jfield_json_obj run_output_def)
qed

theorem local_exploration_witness:
  "\<exists>row. jfield (fst local_report) ''runs'' = JArray [row]
     \<and> ran_and_passed sample_tools sample_surroundings sample_caller sample_adapter policy_default
         sample_schedule (jfield row ''execution'')"
proof -
  have "explore_finite sample_tools sample_space
      \<lparr>w_runner = local_exploration_runner sample_tools sample_surroundings sample_caller sample_adapter policy_default,
       w_looks = (\<lambda>_. calm_run)\<rparr> calm_look exploration_limits_default 7 idle_runner
    = (fst local_report, snd local_report)" by (simp only: local_report_def local_world_def prod.collapse)
  from local_exploration [OF this local_complete] obtain ws report_rows where ws:
    "set ws = {v. interleaving (sp_actors sample_space) v \<and> preemptions v \<le> 0}"
    and d: "distinct [schedule_new (sp_identity sample_space) input (steps_of (sp_actors sample_space) v).
          v \<leftarrow> ws, input \<leftarrow> sp_inputs sample_space]"
    and runs: "jfield (fst local_report) ''runs'' = JArray report_rows"
    and ran: "list_all2 (\<lambda>sch row. ran_and_passed sample_tools sample_surroundings sample_caller sample_adapter
          policy_default sch (jfield row ''execution''))
       [schedule_new (sp_identity sample_space) input (steps_of (sp_actors sample_space) v).
          v \<leftarrow> ws, input \<leftarrow> sp_inputs sample_space] report_rows"
    by (auto simp: sample_space_def)
  have w: "set ws = {[0]}" using one_chain by (simp add: ws(1))
  then obtain v vs where v: "ws = v # vs" "v = [0]" "set vs \<subseteq> {[0]}" by (cases ws) auto
  have "vs = []" using d v by (cases vs) (auto simp: sample_space_def)
  then show ?thesis using runs ran v
    by (auto simp: list_all2_Cons1 steps_of_def sample_space_def sample_schedule_def)
qed

end
