(* ===== verification/Spec2Isabelle.thy ===== *)
theory Spec2Isabelle
  imports Client Spec_Source Registry Schedule_Progress Schedule_Replay Exploration_Local
begin

text \<open>
  A verification development of \<^verbatim>\<open>mirrorrust\<close>, the Rust client of the model-based testing service
  Mirror.  The service walks an implementation along the traces of a TLA+ model: it names an action
  and its parameters, the client computes the state its implementation reaches, and the service
  compares that state with the state of the model.  All paths below are under \<^verbatim>\<open>src/src\<close>.

  \<^bold>\<open>The program's parts, and where they are modelled.\<close>

  \<^item> \<^verbatim>\<open>json.rs\<close>, the JSON reader with bounds on bytes, depth and nodes that every line and schedule
    goes through: \<open>Json_Parser\<close>.  The cursor is the record \<open>parser\<close>; the methods \<^verbatim>\<open>value\<close>, \<^verbatim>\<open>array\<close> and
    \<^verbatim>\<open>object\<close> are the mutually recursive \<open>parse_value\<close>, \<open>array_loop\<close> and \<open>object_loop\<close>.  \<open>Json_Text\<close>
    holds the texts of values and proves the reader complete for them.
  \<^item> \<^verbatim>\<open>protocol.rs\<close> and the errors of \<^verbatim>\<open>lib.rs\<close>: the values of a model state, the ITF encoding and its
    decoding (\<open>walk\<close>), the messages of both directions and their codecs: \<open>Protocol\<close>;
    the texts of all errors: \<open>Error_Text\<close>.
  \<^item> \<^verbatim>\<open>transport.rs\<close>: lines, the transport over a child process, a socket or TLS, closing and dropping
    it, and the admission of a TLS peer: \<open>Transport\<close>.
  \<^item> \<^verbatim>\<open>client.rs\<close>: the sessions (trace replay, trace generation, validation) and the asynchronous jobs,
    on a transport: \<open>Client\<close>.
  \<^item> \<^verbatim>\<open>spec.rs\<close>: the scanner of TLA+ modules and the reading of a module with all it imports:
    \<open>Spec_Source\<close>.
  \<^item> \<^verbatim>\<open>registry.rs\<close>: finding mirrors in a registry, connecting to the first that answers: \<open>Registry\<close>.
  \<^item> \<^verbatim>\<open>model_interface.rs\<close>: digests and the registry of compiled adapters (\<open>Model_Interface\<close>), the
    validators of contracts, model types (\<open>Model_Contract\<close>) and trace literals (\<open>Trace_Literals\<close>), the
    negotiation of an adapter and the session it then drives (\<open>Negotiation\<close>, with its theorems in
    \<open>Negotiation_Theorems\<close> and \<open>Negotiation_Session\<close>).  The session is \<open>run_stepping_loop\<close> of \<open>Client\<close>.
  \<^item> \<^verbatim>\<open>schedule.rs\<close>: schedules of checkpoints, their text and their admission (\<open>Schedule\<close>); an execution
    of one by worker threads that run one at a time (\<open>Schedule_Run\<close>); its exclusion invariant
    (\<open>Schedule_Exclusion\<close>), the tracking of the controller through its waits (\<open>Schedule_Track\<close>), the
    theorems about its operations (\<open>Schedule_Theorems\<close>, \<open>Schedule_Cleanup\<close>), the progress of its cleanup
    (\<open>Schedule_Progress\<close>) and its receipt (\<open>Schedule_Receipt\<close>).
  \<^item> \<^verbatim>\<open>schedule_exploration.rs\<close>: the enumeration of interleavings (\<open>Exploration_Order\<close>), the exploration
    of a finite space with its budgets and report (\<open>Exploration\<close>), its local runner (\<open>Schedule_Receipt\<close>) and
    the two composed with the execution (\<open>Exploration_Local\<close>).
  \<^item> \<^verbatim>\<open>schedule_binding.rs\<close>: the session of executions that a generated adapter owns
    (\<open>Schedule_Binding\<close>), and the replay of traces through it, judged by the last verdict of the service
    and by the session's books (\<open>Schedule_Replay\<close>).

  \<open>Mirror_Prelude\<close> has the strings and results of Rust and the collections of rewrite rules,
  \<open>Ordered_Map\<close> the B-tree map as a locale interpreted on sorted association lists, \<open>Json_Value\<close> the JSON
  trees.

  \<^bold>\<open>Conventions.\<close>  A Rust string or byte slice is a list of bytes (\<open>char\<close>); \<^verbatim>\<open>Result\<close> is a sum with the error
  on the left, \<^verbatim>\<open>?\<close> is \<open>try_ok\<close>; \<^verbatim>\<open>BTreeMap\<close> and \<^verbatim>\<open>serde_json::Map\<close> are sorted association lists (\<open>bt_get\<close>,
  \<open>bt_insert\<close>); a struct that a method mutates is a record passed and returned.  A digest is a list of
  8-bit words; 64-bit integers are checked against their range where the program converts or computes
  with them, and a panic is a value (\<open>ExponentPanic\<close>, \<open>Panic\<close>, \<open>Unwound\<close>, \<open>Unwinding\<close>) so that what is
  cleaned up on unwinding is part of the model.  A callback of the application (state computer,
  adapter, runner) is a function on a state of its own, which it may change however it ends.

  \<^bold>\<open>Threads and time.\<close>  An execution is the record \<open>run\<close>: the state under the program's lock
  (\<open>sched\<close>), the program counters of the workers (\<open>worker_pc\<close>), and what the controller owns.  A worker
  takes the steps of \<open>worker_step\<close>, whose events are the choices of the application and of the operating
  system.  Whenever the controller takes the lock, \<open>tick\<close> first lets a batch of worker events happen and
  says whether the caller has cancelled and which deadline has passed; the theorems hold for every list
  of batches.  When the list ends, the deadlines have passed: this is the only bound, it is the
  program's own (a wait never outlives its deadline), and \<open>wait_for\<close> and \<open>await_exit\<close> terminate by the
  length of the list.  The clock of an exploration is likewise the list of what each look at it finds.

  \<^bold>\<open>Recursion.\<close>  No definition has fuel.  The reader terminates by the bytes that are left, the
  validators by the depth that is allowed, the loops of a session by the bytes still to be
  received, the enumeration by the steps that are left.  Only the closure of a module's imports may
  diverge, on a file system with infinitely many modules; it is a partial function, and C24 says when
  it returns.  Dropping an execution one of whose threads never ends does not return either, which
  \<open>drop_execution\<close> shows as \<open>None\<close>.

  \<^bold>\<open>What is proved.\<close>

  \<^item> Reading and writing: the reader respects its limits and accepts every text within them, with the
    value it denotes (C1, C2); values, numbers and messages are recovered from their encodings, and
    exactly which values are not (C4 to C7); lines, schedules, URLs (C8, C9, C17, C25); the wire
    text of a digest is its only spelling.
    The validators accept exactly the encodings of a grammar (C33, C34), the scanner exactly the tokens
    outside comments and strings (C22).
  \<^item> Sessions: a session is the abstract replay \<open>stepping\<close> over the messages received, sends exactly its
    reports and closes its transport (C10, C12 to C15); a TLS peer is admitted only under its pin, also
    through the registry (C11, C26 to C28).  Reading a specification is a closure (C23, C24).
  \<^item> Negotiation: adapters are resolved exactly (C32), an authorisation fails closed (C35), an adapter
    that was made is disposed of once and after its last use, whatever fails or panics (C36), and an
    authorised session is the same abstract replay (C37).
  \<^item> Executions: admission is exactly well-formedness (C16); any sequence of calls is a path of the
    interleaving relation \<open>sched_step\<close> (C19), on which two workers are never inside application
    code unless the execution is stopping (C18); a passed report is exact evidence (C20), the program is torn down at most once and after its
    threads (C21), and cleanup is confirmed when the threads go in time (C40).
  \<^item> Exploration: the enumeration lists exactly the interleavings within the bound (C29); a complete report ran them all and
    each passed on evidence that matches (C30), so that with the local runner the workers really ran
    each of them (C31); the receipt of an execution passes the exploration's
    checks exactly when the execution passed (C38).
  \<^item> Scheduled sessions: the books of a session are sound under every sequence of calls (C39), and a
    replay passes only on the verdict of the service and complete books (C3).

  The interfaces that parts rely on are locales, each interpreted on the model: \<open>ordered_map\<close> (the map),
  \<open>bigint_text\<close> (integers as text), \<open>line_channel\<close> (what a session needs of its transport) and
  \<open>wait_invariant\<close> (what the controller may keep across a wait).

  \<^bold>\<open>Parameters.\<close>  Code outside the repository is an argument, with what the program relies on as a
  hypothesis of the theorems that need it: decoding and writing a string token and a JSON tree
  (\<^verbatim>\<open>serde_json\<close>), arbitrary-precision integers as text (\<^verbatim>\<open>num_bigint\<close>), the sockets, processes and TLS
  stack under a transport, SHA-256, the file system, the HTTP exchange with a registry, and the texts
  that \<^verbatim>\<open>derive(Debug)\<close> makes of messages, strings and hints and \<^verbatim>\<open>serde_json\<close> of its own errors
  (the record \<open>shown\<close>).

  \<^bold>\<open>Not modelled.\<close>  The parsers of \<^verbatim>\<open>model_interface.rs\<close> marked \<^verbatim>\<open>allow(dead_code)\<close> (\<^verbatim>\<open>RawStrictParser\<close>,
  \<^verbatim>\<open>StrictSeed\<close>, \<^verbatim>\<open>StrictVisitor\<close>, \<^verbatim>\<open>validate_number_tokens\<close>): nothing calls them, as
  \<^verbatim>\<open>strict_parse\<close> goes through \<open>parse\<close>.  The re-exports of \<^verbatim>\<open>lib.rs\<close>.  Names given to threads.
  The elapsed milliseconds in a report are an argument.  The drop of an execution that a session replaces: it is closed by then, and
  dropping a closed execution does nothing (\<open>drop_execution\<close>).
\<close>

end
